(* ===== verification/Prelude.thy ===== *)
theory Prelude
  imports Main "HOL-Library.AList"
begin

text \<open>
  Shared ground of the development: results with an error value and their
  sequencing, the two list scans the configuration store repeats for every kind
  of entry (find the last entry with a key, replace the first one), loops that
  stop at the first error, and the collections of facts the component proofs
  pass to the simplifier.
\<close>

named_theorems go_eval \<open>equations that evaluate the library functions on literals\<close>
named_theorems model_eval \<open>equations that evaluate the program's functions on literals\<close>

section \<open>Results\<close>

text \<open>A Go function that returns a value and an \<open>error\<close> returns
  \<^term>\<open>Inl e\<close> when the error is not nil and \<^term>\<open>Inr v\<close> otherwise.\<close>

definition bind_res :: "'e + 'a \<Rightarrow> ('a \<Rightarrow> 'e + 'b) \<Rightarrow> 'e + 'b" where
  "bind_res r f = (case r of Inl e \<Rightarrow> Inl e | Inr x \<Rightarrow> f x)"

definition guard_res :: "bool \<Rightarrow> 'e \<Rightarrow> 'e + unit" where
  "guard_res b e = (if b then Inr () else Inl e)"

definition wrap_err :: "('e \<Rightarrow> 'f) \<Rightarrow> 'e + 'a \<Rightarrow> 'f + 'a" where
  "wrap_err w r = (case r of Inl e \<Rightarrow> Inl (w e) | Inr x \<Rightarrow> Inr x)"

lemma bind_res_simps [simp]:
  "bind_res (Inl e) f = Inl e"
  "bind_res (Inr x) f = f x"
  by (simp_all add: bind_res_def)

lemma bind_res_Inr_iff: "bind_res r f = Inr y \<longleftrightarrow> (\<exists>x. r = Inr x \<and> f x = Inr y)"
  by (cases r) auto

lemma bind_res_Inl_iff:
  "bind_res r f = Inl e \<longleftrightarrow> r = Inl e \<or> (\<exists>x. r = Inr x \<and> f x = Inl e)"
  by (cases r) auto

lemma guard_res_simps [simp]:
  "guard_res True e = Inr ()"
  "guard_res False e = Inl e"
  by (simp_all add: guard_res_def)

lemma guard_res_Inr_iff: "guard_res b e = Inr u \<longleftrightarrow> b"
  by (simp add: guard_res_def)

lemma guard_res_Inl_iff: "guard_res b e = Inl e' \<longleftrightarrow> \<not> b \<and> e' = e"
  by (auto simp: guard_res_def)

lemma wrap_err_simps [simp]:
  "wrap_err w (Inl e) = Inl (w e)"
  "wrap_err w (Inr x) = Inr x"
  by (simp_all add: wrap_err_def)

lemma wrap_err_Inr_iff: "wrap_err w r = Inr y \<longleftrightarrow> r = Inr y"
  by (cases r) auto

lemma wrap_err_Inl_iff: "wrap_err w r = Inl e \<longleftrightarrow> (\<exists>e'. r = Inl e' \<and> e = w e')"
  by (cases r) auto

lemmas res_iffs = bind_res_Inr_iff bind_res_Inl_iff guard_res_Inr_iff guard_res_Inl_iff
  wrap_err_Inr_iff wrap_err_Inl_iff

section \<open>Loops over a slice that stop at the first error\<close>

text \<open>The body sees an accumulator (the local variables the loop updates) and
  the element, and rewrites the element in place.\<close>

fun each_res :: "('s \<Rightarrow> 'a \<Rightarrow> 'e + 's \<times> 'b) \<Rightarrow> 's \<Rightarrow> 'a list \<Rightarrow> 'e + 'b list" where
  "each_res f s [] = Inr []"
| "each_res f s (x # xs) =
     bind_res (f s x) (\<lambda>(s', y). bind_res (each_res f s' xs) (\<lambda>ys. Inr (y # ys)))"

lemma each_res_Cons_Inr:
  "each_res f s (x # xs) = Inr ys \<longleftrightarrow>
     (\<exists>s' y ys'. f s x = Inr (s', y) \<and> each_res f s' xs = Inr ys' \<and> ys = y # ys')"
  by (fastforce simp: bind_res_Inr_iff split: prod.splits)

lemma each_res_length: "each_res f s xs = Inr ys \<Longrightarrow> length ys = length xs"
  by (induction xs arbitrary: s ys) (auto simp: res_iffs split: prod.splits)

section \<open>Scans over keyed slices\<close>

text \<open>\<open>idx := -1; for i, e := range xs { if P e { idx = i } }\<close>: the index of the last
  match, \<^term>\<open>-1\<close> if there is none.\<close>

fun scan_idx :: "('a \<Rightarrow> bool) \<Rightarrow> int \<Rightarrow> int \<Rightarrow> 'a list \<Rightarrow> int" where
  "scan_idx P i idx [] = idx"
| "scan_idx P i idx (x # xs) = scan_idx P (i + 1) (if P x then i else idx) xs"

definition last_idx :: "('a \<Rightarrow> bool) \<Rightarrow> 'a list \<Rightarrow> int" where
  "last_idx P xs = scan_idx P 0 (-1) xs"

lemma scan_idx_nonneg:
  "0 \<le> i \<Longrightarrow> 0 \<le> scan_idx P i idx xs \<longleftrightarrow> 0 \<le> idx \<or> (\<exists>x\<in>set xs. P x)"
  by (induction xs arbitrary: i idx) auto

lemma last_idx_nonneg: "0 \<le> last_idx P xs \<longleftrightarrow> (\<exists>x\<in>set xs. P x)"
  by (simp add: last_idx_def scan_idx_nonneg)

text \<open>The update loop: overwrite the first match and stop; \<^term>\<open>None\<close> when the
  loop ends with \<open>found\<close> still false.\<close>

fun replace_first :: "('a \<Rightarrow> bool) \<Rightarrow> 'a \<Rightarrow> 'a list \<Rightarrow> 'a list option" where
  "replace_first P y [] = None"
| "replace_first P y (x # xs) =
     (if P x then Some (y # xs) else map_option ((#) x) (replace_first P y xs))"

lemma replace_first_None_iff: "replace_first P y xs = None \<longleftrightarrow> (\<forall>x\<in>set xs. \<not> P x)"
  by (induction xs) auto

lemma replace_first_SomeE:
  assumes "replace_first P y xs = Some zs"
  obtains us x vs where "xs = us @ x # vs" "zs = us @ y # vs" "P x" "\<forall>u\<in>set us. \<not> P u"
proof -
  from assms have "\<exists>us x vs. xs = us @ x # vs \<and> zs = us @ y # vs \<and> P x \<and> (\<forall>u\<in>set us. \<not> P u)"
  proof (induction xs arbitrary: zs)
    case Nil
    then show ?case by simp
  next
    case (Cons a xs)
    show ?case
    proof (cases "P a")
      case True
      with Cons.prems show ?thesis by (intro exI [of _ "[]"]) auto
    next
      case False
      with Cons.prems obtain zs' where zs': "replace_first P y xs = Some zs'" "zs = a # zs'"
        by auto
      from Cons.IH [OF zs'(1)] obtain us x vs
        where "xs = us @ x # vs" "zs' = us @ y # vs" "P x" "\<forall>u\<in>set us. \<not> P u" by blast
      with zs'(2) False show ?thesis by (intro exI [of _ "a # us"]) auto
    qed
  qed
  then show ?thesis using that by blast
qed

text \<open>The deletion loop keeps what does not match, in order, and remembers whether
  anything matched.\<close>

definition remove_where :: "('a \<Rightarrow> bool) \<Rightarrow> 'a list \<Rightarrow> 'a list option" where
  "remove_where P xs = (if \<exists>x\<in>set xs. P x then Some (filter (\<lambda>x. \<not> P x) xs) else None)"

lemma remove_where_SomeD: "remove_where P xs = Some ys \<Longrightarrow> ys = filter (\<lambda>x. \<not> P x) xs"
  by (auto simp: remove_where_def split: if_splits)

lemma remove_where_None_iff: "remove_where P xs = None \<longleftrightarrow> (\<forall>x\<in>set xs. \<not> P x)"
  by (auto simp: remove_where_def)

section \<open>Lists and association lists\<close>

lemma distinct_map_append_mid:
  "distinct (map f (us @ x # vs)) \<longleftrightarrow>
     f x \<notin> f ` set us \<and> f x \<notin> f ` set vs \<and> distinct (map f (us @ vs))"
  by auto

lemma distinct_map_filter_key: "distinct (map f xs) \<Longrightarrow> distinct (map f (filter P xs))"
  by (induction xs) auto

lemma distinct_map_Cons_neq: "distinct (map f (x # xs)) \<Longrightarrow> \<forall>y\<in>set xs. f y \<noteq> f x"
  by (metis distinct.simps(2) image_eqI list.simps(9) set_map)

lemma distinct_map_same:
  "distinct (map f xs) \<Longrightarrow> x \<in> set xs \<Longrightarrow> y \<in> set xs \<Longrightarrow> f x = f y \<Longrightarrow> x = y"
  by (simp add: distinct_map inj_on_def)

lemma find_Some_in: "find P xs = Some x \<Longrightarrow> x \<in> set xs \<and> P x"
  by (auto simp: find_Some_iff)

lemma find_append: "find P (xs @ ys) = (case find P xs of None \<Rightarrow> find P ys | Some x \<Rightarrow> Some x)"
  by (induction xs) auto

lemma find_None_all: "find P xs = None \<longleftrightarrow> (\<forall>x\<in>set xs. \<not> P x)"
  by (auto simp: find_None_iff)

end
