(* ===== verification/GoStrings.thy ===== *)
theory GoStrings
  imports Prelude
begin

text \<open>
  The part of Go's \<open>strings\<close> and \<open>strconv\<close> packages the program calls. A Go string is
  a sequence of bytes: the model's \<^typ>\<open>string\<close> is a list of \<^typ>\<open>char\<close>, one
  per byte, so \<^term>\<open>length\<close> is Go's \<open>len\<close>. \<open>TrimSpace\<close> strips every
  character Go's \<open>unicode.IsSpace\<close> accepts, in its UTF-8 encoding. Case mapping
  (\<open>ToLower\<close>, \<open>EqualFold\<close>) is that of the ASCII letters: a byte of a
  multi-byte character is left as it is.
\<close>

section \<open>Bytes\<close>

abbreviation byte_of :: "char \<Rightarrow> nat" where
  "byte_of c \<equiv> of_char c"

definition is_digit :: "char \<Rightarrow> bool" where
  "is_digit c \<longleftrightarrow> 48 \<le> byte_of c \<and> byte_of c \<le> 57"

definition is_upper_ascii :: "char \<Rightarrow> bool" where
  "is_upper_ascii c \<longleftrightarrow> 65 \<le> byte_of c \<and> byte_of c \<le> 90"

definition is_lower_ascii :: "char \<Rightarrow> bool" where
  "is_lower_ascii c \<longleftrightarrow> 97 \<le> byte_of c \<and> byte_of c \<le> 122"

definition is_alnum :: "char \<Rightarrow> bool" where
  "is_alnum c \<longleftrightarrow> is_upper_ascii c \<or> is_lower_ascii c \<or> is_digit c"

lemmas byte_class_defs = is_digit_def is_upper_ascii_def is_lower_ascii_def is_alnum_def

definition lower_char :: "char \<Rightarrow> char" where
  "lower_char c = (if is_upper_ascii c then char_of (byte_of c + 32) else c)"

definition to_lower :: "string \<Rightarrow> string" where
  "to_lower s = map lower_char s"

definition equal_fold :: "string \<Rightarrow> string \<Rightarrow> bool" where
  "equal_fold s t \<longleftrightarrow> length s = length t \<and>
     list_all2 (\<lambda>a b. a = b \<or> lower_char a = lower_char b) s t"

lemma byte_of_lt: "byte_of c < 256"
  using nat_of_char_less_256 by simp

lemma byte_of_char_of_add: "is_upper_ascii c \<Longrightarrow> byte_of (char_of (byte_of c + 32)) = byte_of c + 32"
  by (simp add: is_upper_ascii_def)

lemma lower_char_Char:
  "lower_char (Char b0 b1 b2 b3 b4 b5 b6 b7) =
     (if is_upper_ascii (Char b0 b1 b2 b3 b4 b5 b6 b7) then Char b0 b1 b2 b3 b4 True b6 b7
      else Char b0 b1 b2 b3 b4 b5 b6 b7)"
proof (cases "is_upper_ascii (Char b0 b1 b2 b3 b4 b5 b6 b7)")
  case True
  then have "\<not> b5" by (cases b5; cases b6; cases b7; cases b4; cases b3; cases b2; cases b1; cases b0) (auto simp: is_upper_ascii_def)
  then have "byte_of (Char b0 b1 b2 b3 b4 b5 b6 b7) + 32 = byte_of (Char b0 b1 b2 b3 b4 True b6 b7)"
    by simp
  then show ?thesis using True unfolding lower_char_def by (simp only: char_of_char if_True)
qed (simp add: lower_char_def)

lemma lower_char_idem [simp]: "lower_char (lower_char c) = lower_char c"
  by (auto simp: lower_char_def is_upper_ascii_def)

lemma lower_char_not_upper [simp]: "\<not> is_upper_ascii (lower_char c)"
  by (auto simp: lower_char_def is_upper_ascii_def)

lemma lower_char_id_iff: "lower_char c = c \<longleftrightarrow> \<not> is_upper_ascii c"
proof
  assume "lower_char c = c"
  then show "\<not> is_upper_ascii c" using lower_char_not_upper [of c] by simp
qed (simp add: lower_char_def)

lemma to_lower_idem [simp]: "to_lower (to_lower s) = to_lower s"
  by (simp add: to_lower_def)

lemma to_lower_append: "to_lower (s @ t) = to_lower s @ to_lower t"
  by (simp add: to_lower_def)

lemma to_lower_Nil_iff [simp]: "to_lower s = [] \<longleftrightarrow> s = []"
  by (simp add: to_lower_def)

lemma length_to_lower [simp]: "length (to_lower s) = length s"
  by (simp add: to_lower_def)

text \<open>\<open>EqualFold\<close> agrees with comparing the lower-case forms, so it is an
  equivalence.\<close>

lemma equal_fold_iff: "equal_fold s t \<longleftrightarrow> to_lower s = to_lower t"
proof -
  have "equal_fold s t \<longleftrightarrow> list_all2 (\<lambda>a b. lower_char a = lower_char b) s t"
    by (auto simp: equal_fold_def dest: list_all2_lengthD elim: list_all2_mono)
  also have "\<dots> \<longleftrightarrow> to_lower s = to_lower t"
    by (auto simp: to_lower_def list_all2_conv_all_nth list_eq_iff_nth_eq)
  finally show ?thesis .
qed

section \<open>Searching\<close>

definition has_prefix :: "string \<Rightarrow> string \<Rightarrow> bool" where
  "has_prefix s p \<longleftrightarrow> take (length p) s = p"

definition has_suffix :: "string \<Rightarrow> string \<Rightarrow> bool" where
  "has_suffix s p \<longleftrightarrow> has_prefix (rev s) (rev p)"

definition trim_prefix :: "string \<Rightarrow> string \<Rightarrow> string" where
  "trim_prefix s p = (if has_prefix s p then drop (length p) s else s)"

definition contains_byte :: "string \<Rightarrow> char \<Rightarrow> bool" where
  "contains_byte s c \<longleftrightarrow> c \<in> set s"

text \<open>\<open>strings.Cut(s, sep)\<close> for a one-byte separator: \<^term>\<open>None\<close> when it is absent.\<close>

fun cut_byte :: "char \<Rightarrow> string \<Rightarrow> (string \<times> string) option" where
  "cut_byte c [] = None"
| "cut_byte c (x # xs) =
     (if x = c then Some ([], xs) else map_option (\<lambda>(a, b). (x # a, b)) (cut_byte c xs))"

text \<open>The same at the last occurrence (\<open>strings.LastIndex\<close> and the two slices).\<close>

definition cut_last :: "char \<Rightarrow> string \<Rightarrow> (string \<times> string) option" where
  "cut_last c s = map_option (\<lambda>(a, b). (rev b, rev a)) (cut_byte c (rev s))"

text \<open>\<open>strings.Split(s, sep)\<close> for a one-byte separator.\<close>

fun split_byte :: "char \<Rightarrow> string \<Rightarrow> string list" where
  "split_byte c [] = [[]]"
| "split_byte c (x # xs) =
     (if x = c then [] # split_byte c xs
      else (case split_byte c xs of [] \<Rightarrow> [[x]] | y # ys \<Rightarrow> (x # y) # ys))"

lemma has_prefix_iff: "has_prefix s p \<longleftrightarrow> (\<exists>r. s = p @ r)"
  by (auto simp: has_prefix_def) (metis append_take_drop_id)

lemma has_prefix_append [simp]: "has_prefix (p @ r) p"
  by (simp add: has_prefix_def)

lemma has_prefix_Nil [simp]: "has_prefix s []"
  by (simp add: has_prefix_def)

lemma has_prefix_Cons_iff: "has_prefix s [c] \<longleftrightarrow> (\<exists>r. s = c # r)"
  by (auto simp: has_prefix_iff)

lemma has_suffix_iff: "has_suffix s p \<longleftrightarrow> (\<exists>r. s = r @ p)"
proof -
  have "has_suffix s p \<longleftrightarrow> (\<exists>r. rev s = rev p @ r)"
    by (simp add: has_suffix_def has_prefix_iff)
  also have "\<dots> \<longleftrightarrow> (\<exists>r. s = r @ p)"
    by (metis rev_append rev_rev_ident)
  finally show ?thesis .
qed

lemma trim_prefix_append [simp]: "trim_prefix (p @ r) p = r"
  by (simp add: trim_prefix_def)

lemma cut_byte_None_iff: "cut_byte c s = None \<longleftrightarrow> c \<notin> set s"
  by (induction s) auto

lemma cut_byte_Some_iff:
  "cut_byte c s = Some (a, b) \<longleftrightarrow> s = a @ c # b \<and> c \<notin> set a"
proof (induction s arbitrary: a)
  case (Cons x xs)
  then show ?case by (cases a) auto
qed auto

lemma cut_byte_append: "c \<notin> set a \<Longrightarrow> cut_byte c (a @ c # b) = Some (a, b)"
  by (simp add: cut_byte_Some_iff)

lemma cut_last_None_iff: "cut_last c s = None \<longleftrightarrow> c \<notin> set s"
  by (simp add: cut_last_def cut_byte_None_iff)

lemma cut_last_Some_iff:
  "cut_last c s = Some (a, b) \<longleftrightarrow> s = a @ c # b \<and> c \<notin> set b"
proof -
  have "cut_last c s = Some (a, b) \<longleftrightarrow> cut_byte c (rev s) = Some (rev b, rev a)"
    by (auto simp: cut_last_def)
  also have "\<dots> \<longleftrightarrow> rev s = rev b @ c # rev a \<and> c \<notin> set b"
    by (simp add: cut_byte_Some_iff)
  also have "rev s = rev b @ c # rev a \<longleftrightarrow> s = a @ c # b"
    by (metis append.assoc append_Cons append_Nil rev.simps(2) rev_append rev_rev_ident)
  finally show ?thesis .
qed

lemma split_byte_not_Nil [simp]: "split_byte c s \<noteq> []"
  by (cases s) (auto split: list.splits)

lemma split_byte_no_sep: "c \<notin> set s \<Longrightarrow> split_byte c s = [s]"
  by (induction s) auto

lemma split_byte_append:
  "c \<notin> set a \<Longrightarrow> split_byte c (a @ c # b) = a # split_byte c b"
  by (induction a) auto

lemma split_byte_parts: "p \<in> set (split_byte c s) \<Longrightarrow> c \<notin> set p"
  by (induction s arbitrary: p) (fastforce split: list.splits if_splits)+

section \<open>Trimming\<close>

text \<open>The UTF-8 encodings of the characters \<open>unicode.IsSpace\<close> accepts: tab, line feed,
  vertical tab, form feed, carriage return, space, then U+0085, U+00A0, U+1680,
  U+2000 to U+200A, U+2028, U+2029, U+202F, U+205F and U+3000.\<close>

definition space_seqs :: "string list" where
  "space_seqs = [
    [CHR 0x09], [CHR 0x0A], [CHR 0x0B], [CHR 0x0C], [CHR 0x0D], [CHR 0x20], [CHR 0xC2, CHR 0x85],
    [CHR 0xC2, CHR 0xA0], [CHR 0xE1, CHR 0x9A, CHR 0x80], [CHR 0xE2, CHR 0x80, CHR 0x80],
    [CHR 0xE2, CHR 0x80, CHR 0x81], [CHR 0xE2, CHR 0x80, CHR 0x82],
    [CHR 0xE2, CHR 0x80, CHR 0x83], [CHR 0xE2, CHR 0x80, CHR 0x84],
    [CHR 0xE2, CHR 0x80, CHR 0x85], [CHR 0xE2, CHR 0x80, CHR 0x86],
    [CHR 0xE2, CHR 0x80, CHR 0x87], [CHR 0xE2, CHR 0x80, CHR 0x88],
    [CHR 0xE2, CHR 0x80, CHR 0x89], [CHR 0xE2, CHR 0x80, CHR 0x8A],
    [CHR 0xE2, CHR 0x80, CHR 0xA8], [CHR 0xE2, CHR 0x80, CHR 0xA9],
    [CHR 0xE2, CHR 0x80, CHR 0xAF], [CHR 0xE2, CHR 0x81, CHR 0x9F],
    [CHR 0xE3, CHR 0x80, CHR 0x80]]"

definition strip_one :: "string list \<Rightarrow> string \<Rightarrow> string option" where
  "strip_one ws s = map_option (\<lambda>w. drop (length w) s) (find (\<lambda>w. has_prefix s w) ws)"

function trim_left :: "string list \<Rightarrow> string \<Rightarrow> string" where
  "trim_left ws s =
     (case strip_one ws s of
        None \<Rightarrow> s
      | Some r \<Rightarrow> if length r < length s then trim_left ws r else s)"
  by pat_completeness auto
termination
  by (relation "measure (\<lambda>(ws, s). length s)") auto

declare trim_left.simps [simp del]

definition trim_right :: "string list \<Rightarrow> string \<Rightarrow> string" where
  "trim_right ws s = rev (trim_left (map rev ws) (rev s))"

definition trim_space :: "string \<Rightarrow> string" where
  "trim_space s = trim_right space_seqs (trim_left space_seqs s)"

text \<open>\<open>strings.Trim(s, cutset)\<close> for a cutset of one ASCII byte.\<close>

definition trim_byte :: "char \<Rightarrow> string \<Rightarrow> string" where
  "trim_byte c s = rev (dropWhile (\<lambda>x. x = c) (rev (dropWhile (\<lambda>x. x = c) s)))"

lemma strip_one_SomeE:
  assumes "strip_one ws s = Some r"
  obtains w where "w \<in> set ws" "s = w @ r"
  using assms by (auto simp: strip_one_def has_prefix_iff dest!: find_Some_in)

lemma strip_one_None_iff: "strip_one ws s = None \<longleftrightarrow> (\<forall>w\<in>set ws. \<not> has_prefix s w)"
  by (simp add: strip_one_def find_None_all)

lemma strip_one_shorter:
  "strip_one ws s = Some r \<Longrightarrow> [] \<notin> set ws \<Longrightarrow> length r < length s"
  by (metis append_eq_append_conv_if append_self_conv2 length_append less_add_same_cancel2
      length_greater_0_conv strip_one_SomeE)

lemma trim_left_None: "strip_one ws s = None \<Longrightarrow> trim_left ws s = s"
  by (simp add: trim_left.simps [of ws s])

lemma trim_left_Some:
  "strip_one ws s = Some r \<Longrightarrow> [] \<notin> set ws \<Longrightarrow> trim_left ws s = trim_left ws r"
  by (simp add: trim_left.simps [of ws s] strip_one_shorter)

text \<open>What trimming on the left does: it removes a prefix made of the given
  sequences, and what is left starts with none of them.\<close>

lemma trim_left_spec:
  assumes "[] \<notin> set ws"
  shows "\<exists>us. set us \<subseteq> set ws \<and> s = concat us @ trim_left ws s"
    and "strip_one ws (trim_left ws s) = None"
proof (induction "length s" arbitrary: s rule: less_induct)
  case less
  {
    fix r assume r: "strip_one ws s = Some r"
    then obtain w where w: "w \<in> set ws" "s = w @ r" by (elim strip_one_SomeE)
    from r assms have len: "length r < length s" by (rule strip_one_shorter)
    from less(1) [OF len] obtain us where us: "set us \<subseteq> set ws" "r = concat us @ trim_left ws r"
      by blast
    have "set (w # us) \<subseteq> set ws \<and> s = concat (w # us) @ trim_left ws s"
      using us w by (metis (no_types, lifting) append.assoc concat.simps(2) insert_subset
          list.simps(15) trim_left_Some [OF r assms])
    then have "\<exists>us. set us \<subseteq> set ws \<and> s = concat us @ trim_left ws s" by blast
    moreover have "strip_one ws (trim_left ws s) = None"
      using less(2) [OF len] by (simp add: trim_left_Some [OF r assms])
    ultimately have "(\<exists>us. set us \<subseteq> set ws \<and> s = concat us @ trim_left ws s)
      \<and> strip_one ws (trim_left ws s) = None" by blast
  } note step = this
  case 1
  show ?case
    by (cases "strip_one ws s") (use step in \<open>auto simp: trim_left_None intro: exI [of _ "[]"]\<close>)
  case 2
  show ?case
    by (cases "strip_one ws s") (use step in \<open>auto simp: trim_left_None\<close>)
qed

lemma trim_left_idem: "strip_one ws s = None \<Longrightarrow> trim_left ws s = s"
  by (rule trim_left_None)

lemma strip_one_prefix_None:
  "strip_one ws (p @ q) = None \<Longrightarrow> strip_one ws p = None"
  by (auto simp: strip_one_None_iff has_prefix_iff)

lemma trim_right_spec:
  assumes "[] \<notin> set ws"
  shows "\<exists>us. set us \<subseteq> set ws \<and> s = trim_right ws s @ concat us"
    and "strip_one (map rev ws) (rev (trim_right ws s)) = None"
proof -
  have ne: "[] \<notin> set (map rev ws)" using assms by auto
  from trim_left_spec(1) [OF ne, of "rev s"] obtain us
    where us: "set us \<subseteq> set (map rev ws)" "rev s = concat us @ trim_left (map rev ws) (rev s)"
    by blast
  from us(2) have "rev (rev s) = rev (concat us @ trim_left (map rev ws) (rev s))" by simp
  then have "s = trim_right ws s @ concat (map rev (rev us))"
    by (simp add: trim_right_def rev_concat)
  moreover have "set (map rev (rev us)) \<subseteq> set ws" using us(1) by auto
  ultimately show "\<exists>us. set us \<subseteq> set ws \<and> s = trim_right ws s @ concat us" by blast
  show "strip_one (map rev ws) (rev (trim_right ws s)) = None"
    using trim_left_spec(2) [OF ne] by (simp add: trim_right_def)
qed

lemma space_seqs_ne: "[] \<notin> set space_seqs"
  by (simp add: space_seqs_def)

text \<open>A trimmed string begins and ends with no space character.\<close>

definition trimmed :: "string \<Rightarrow> bool" where
  "trimmed s \<longleftrightarrow> strip_one space_seqs s = None \<and> strip_one (map rev space_seqs) (rev s) = None"

lemma trim_space_trimmed [simp]: "trimmed (trim_space s)"
proof -
  let ?l = "trim_left space_seqs s"
  obtain us where "?l = trim_right space_seqs ?l @ concat us"
    using trim_right_spec(1) [OF space_seqs_ne] by blast
  then have "strip_one space_seqs (trim_right space_seqs ?l @ concat us) = None"
    using trim_left_spec(2) [OF space_seqs_ne, of s] by simp
  then show ?thesis
    by (auto simp: trimmed_def trim_space_def trim_right_spec(2) [OF space_seqs_ne]
        dest: strip_one_prefix_None)
qed

lemma trim_space_id: "trimmed s \<Longrightarrow> trim_space s = s"
  by (simp add: trimmed_def trim_space_def trim_right_def trim_left_None)

lemma trim_space_idem [simp]: "trim_space (trim_space s) = trim_space s"
  by (rule trim_space_id) simp

lemma trim_space_infix: "\<exists>a b. s = a @ trim_space s @ b"
  using trim_left_spec(1) [OF space_seqs_ne, of s]
    trim_right_spec(1) [OF space_seqs_ne, of "trim_left space_seqs s"]
  unfolding trim_space_def by (metis append.assoc)

text \<open>Ordinary ASCII text, with no byte up to the space and none past 127, is not
  touched.\<close>

definition plain_byte :: "char \<Rightarrow> bool" where
  "plain_byte c \<longleftrightarrow> 32 < byte_of c \<and> byte_of c < 128"

lemma space_seqs_ends:
  "w \<in> set space_seqs \<Longrightarrow> \<not> plain_byte (hd w) \<and> \<not> plain_byte (last w)"
  by (auto simp: space_seqs_def plain_byte_def)

lemma trimmed_ends:
  assumes "s = [] \<or> plain_byte (hd s) \<and> plain_byte (last s)"
  shows "trimmed s"
proof -
  have "\<not> has_prefix s w" if "w \<in> set space_seqs" for w
  proof
    assume "has_prefix s w"
    then obtain r where "s = w @ r" by (auto simp: has_prefix_iff)
    moreover have "w \<noteq> []" using that space_seqs_ne by auto
    ultimately have "s \<noteq> []" "hd s = hd w" by simp_all
    then show False using assms space_seqs_ends [OF that] by auto
  qed
  moreover have "\<not> has_prefix (rev s) (rev w)" if "w \<in> set space_seqs" for w
  proof
    assume "has_prefix (rev s) (rev w)"
    then have "has_suffix s w" by (simp add: has_suffix_def)
    then obtain r where "s = r @ w" by (auto simp: has_suffix_iff)
    moreover have "w \<noteq> []" using that space_seqs_ne by auto
    ultimately have "s \<noteq> []" "last s = last w" by simp_all
    then show False using assms space_seqs_ends [OF that] by auto
  qed
  ultimately show ?thesis by (auto simp: trimmed_def strip_one_None_iff)
qed

lemma trimmed_plain: "\<forall>c\<in>set s. plain_byte c \<Longrightarrow> trimmed s"
  by (rule trimmed_ends) auto

lemma dropWhile_absent: "c \<notin> set s \<Longrightarrow> dropWhile (\<lambda>x. x = c) s = s"
  by (cases s) auto

lemma trim_byte_absent: "c \<notin> set s \<Longrightarrow> trim_byte c s = s"
  by (simp add: trim_byte_def dropWhile_absent)

section \<open>Decimal numbers\<close>

definition digit_char :: "nat \<Rightarrow> char" where
  "digit_char d = char_of (48 + d)"

definition digit_val :: "char \<Rightarrow> nat" where
  "digit_val c = byte_of c - 48"

text \<open>\<open>strconv.Itoa\<close> and \<open>strconv.FormatInt(n, 10)\<close>.\<close>

fun format_nat :: "nat \<Rightarrow> string" where
  "format_nat n = (if n < 10 then [digit_char n] else format_nat (n div 10) @ [digit_char (n mod 10)])"

declare format_nat.simps [simp del]

definition format_int :: "int \<Rightarrow> string" where
  "format_int n = (if n < 0 then CHR ''-'' # format_nat (nat (- n)) else format_nat (nat n))"

definition digits_val :: "string \<Rightarrow> nat" where
  "digits_val s = foldl (\<lambda>a c. 10 * a + digit_val c) 0 s"

text \<open>\<open>strconv.ParseInt(s, 10, 64)\<close>, which \<open>strconv.Atoi\<close> agrees with on a 64-bit
  platform: an optional sign, at least one digit, a value that fits in an
  \<open>int64\<close>; anything else is an error.\<close>

definition parse_nat :: "string \<Rightarrow> nat option" where
  "parse_nat s = (if s \<noteq> [] \<and> (\<forall>c\<in>set s. is_digit c) then Some (digits_val s) else None)"

definition parse_int :: "string \<Rightarrow> int option" where
  "parse_int s =
     (let (neg, ds) = (case s of [] \<Rightarrow> (False, [])
                        | c # r \<Rightarrow> if c = CHR ''-'' then (True, r)
                                   else if c = CHR ''+'' then (False, r) else (False, s))
      in case parse_nat ds of
           None \<Rightarrow> None
         | Some n \<Rightarrow> if neg then (if int n \<le> 2 ^ 63 then Some (- int n) else None)
                     else (if int n < 2 ^ 63 then Some (int n) else None))"

lemma digit_char_props:
  assumes "d < 10"
  shows "is_digit (digit_char d)" "digit_val (digit_char d) = d"
  using assms by (auto simp: is_digit_def digit_char_def digit_val_def)

lemma format_nat_digits: "c \<in> set (format_nat n) \<Longrightarrow> is_digit c"
proof (induction n rule: format_nat.induct)
  case (1 n)
  then show ?case
    by (cases "n < 10") (auto simp: format_nat.simps [of n] digit_char_props)
qed

lemma format_nat_not_Nil [simp]: "format_nat n \<noteq> []"
  by (subst format_nat.simps) simp

lemma digits_val_append: "digits_val (s @ [c]) = 10 * digits_val s + digit_val c"
  by (simp add: digits_val_def)

lemma digits_val_format [simp]: "digits_val (format_nat n) = n"
proof (induction n rule: format_nat.induct)
  case (1 n)
  show ?case
  proof (cases "n < 10")
    case True
    then show ?thesis by (simp add: format_nat.simps [of n] digits_val_def digit_char_props)
  next
    case False
    then show ?thesis
      using 1 by (simp add: format_nat.simps [of n] digits_val_append digit_char_props)
  qed
qed

lemma parse_nat_format [simp]: "parse_nat (format_nat n) = Some n"
  by (auto simp: parse_nat_def format_nat_digits)

lemma is_digit_not_sign: "is_digit c \<Longrightarrow> c \<noteq> CHR ''-'' \<and> c \<noteq> CHR ''+'' \<and> c \<noteq> CHR ''.'' \<and> c \<noteq> CHR '':''"
  by (auto simp: is_digit_def)

lemma parse_format_nat: "n < 2 ^ 63 \<Longrightarrow> parse_int (format_nat n) = Some (int n)"
proof -
  assume n: "n < 2 ^ 63"
  obtain c r where cr: "format_nat n = c # r"
    using format_nat_not_Nil by (cases "format_nat n") auto
  then have "is_digit c" using format_nat_digits [of c n] by simp
  with cr n parse_nat_format [of n] show ?thesis
    by (auto simp: parse_int_def dest: is_digit_not_sign)
qed

lemma parse_format_int:
  assumes "- (2 ^ 63) \<le> n" "n < 2 ^ 63"
  shows "parse_int (format_int n) = Some n"
proof (cases "n < 0")
  case True
  with assms show ?thesis by (simp add: parse_int_def format_int_def)
next
  case False
  then have "nat n < 2 ^ 63" using assms by (simp add: nat_less_iff)
  with False show ?thesis by (simp add: format_int_def parse_format_nat)
qed

lemma parse_int_bounds: "parse_int s = Some n \<Longrightarrow> - (2 ^ 63) \<le> n \<and> n < 2 ^ 63"
  by (auto simp: parse_int_def Let_def split: option.splits if_splits prod.splits list.splits)

text \<open>Evaluation on literals: trimming is decided by the bytes, not run.\<close>

lemma trim_space_ends: "s = [] \<or> plain_byte (hd s) \<and> plain_byte (last s) \<Longrightarrow> trim_space s = s"
  by (simp add: trim_space_id trimmed_ends)

lemma trim_space_Nil [simp]: "trim_space [] = []"
  by (simp add: trim_space_ends)

lemmas [go_eval] = byte_class_defs lower_char_Char to_lower_def equal_fold_def
  has_prefix_def has_suffix_def trim_prefix_def contains_byte_def cut_last_def
  trim_space_ends plain_byte_def trim_byte_def
  digit_val_def digits_val_def parse_nat_def parse_int_def

end
