(* ===== verification/Utf8.thy ===== *)
theory Utf8
  imports GoStrings
begin

text \<open>
  The part of Go's \<open>unicode/utf8\<close> that \<open>encoding/json\<close> rests on: splitting a byte string into
  runes the way \<open>DecodeRune\<close> does, with one \<^term>\<open>None\<close> for every byte that begins no
  well-formed sequence, encoding a rune, and the text in which every such byte is replaced by
  U+FFFD.
\<close>

text \<open>What a lead byte announces: how many bytes follow, and the range of the first of
  them (which excludes overlong forms, surrogates and anything past U+10FFFF).\<close>

definition lead_byte :: "nat \<Rightarrow> (nat \<times> nat \<times> nat) option" where
  "lead_byte c =
     (if c < 0xC2 then None
      else if c \<le> 0xDF then Some (1, 0x80, 0xBF)
      else if c = 0xE0 then Some (2, 0xA0, 0xBF)
      else if c = 0xED then Some (2, 0x80, 0x9F)
      else if c \<le> 0xEF then Some (2, 0x80, 0xBF)
      else if c = 0xF0 then Some (3, 0x90, 0xBF)
      else if c \<le> 0xF3 then Some (3, 0x80, 0xBF)
      else if c = 0xF4 then Some (3, 0x80, 0x8F)
      else None)"

definition tail_bytes :: "nat \<Rightarrow> nat \<Rightarrow> nat \<Rightarrow> string \<Rightarrow> bool" where
  "tail_bytes n lo hi s \<longleftrightarrow> n \<le> length s \<and> s \<noteq> [] \<and> lo \<le> byte_of (hd s) \<and> byte_of (hd s) \<le> hi
     \<and> (\<forall>c\<in>set (take n s). 0x80 \<le> byte_of c \<and> byte_of c \<le> 0xBF)"

text \<open>The bytes that follow the first one in the sequence the string begins with, if it
  begins with a well-formed one.\<close>

definition rune_tail :: "char \<Rightarrow> string \<Rightarrow> nat option" where
  "rune_tail c s =
     (if byte_of c < 0x80 then Some 0
      else (case lead_byte (byte_of c) of
          None \<Rightarrow> None
        | Some (n, lo, hi) \<Rightarrow> if tail_bytes n lo hi s then Some n else None))"

function runes :: "string \<Rightarrow> string option list" where
  "runes [] = []"
| "runes (c # s) =
     (case rune_tail c s of
        None \<Rightarrow> None # runes s
      | Some n \<Rightarrow> Some (c # take n s) # runes (drop n s))"
  by pat_completeness auto
termination
  by (relation "measure length") auto

declare runes.simps(2) [simp del]

definition bad_rune :: string where
  "bad_rune = [CHR 0xEF, CHR 0xBF, CHR 0xBD]"

definition rune_text :: "string option \<Rightarrow> string" where
  "rune_text r = (case r of None \<Rightarrow> bad_rune | Some w \<Rightarrow> w)"

definition valid_text :: "string \<Rightarrow> string" where
  "valid_text s = concat (map rune_text (runes s))"

definition utf8_valid :: "string \<Rightarrow> bool" where
  "utf8_valid s \<longleftrightarrow> None \<notin> set (runes s)"

text \<open>\<open>EncodeRune\<close>.\<close>

definition encode_rune :: "nat \<Rightarrow> string" where
  "encode_rune r =
     (if r < 0x80 then [char_of r]
      else if r < 0x800 then [char_of (0xC0 + r div 0x40), char_of (0x80 + r mod 0x40)]
      else if 0xD800 \<le> r \<and> r \<le> 0xDFFF \<or> 0x10FFFF < r then bad_rune
      else if r < 0x10000
        then [char_of (0xE0 + r div 0x1000), char_of (0x80 + r div 0x40 mod 0x40), char_of (0x80 + r mod 0x40)]
      else [char_of (0xF0 + r div 0x40000), char_of (0x80 + r div 0x1000 mod 0x40),
            char_of (0x80 + r div 0x40 mod 0x40), char_of (0x80 + r mod 0x40)])"

section \<open>Splitting and joining\<close>

lemma lead_byte_pos: "lead_byte c = Some (n, lo, hi) \<Longrightarrow> 0 < n"
  by (auto simp: lead_byte_def split: if_splits)

lemma rune_tail_take:
  assumes "rune_tail c s = Some n"
  shows "rune_tail c (take n s @ t) = Some n" and "n \<le> length s"
proof -
  show "n \<le> length s"
    using assms by (auto simp: rune_tail_def tail_bytes_def split: option.splits if_splits)
  show "rune_tail c (take n s @ t) = Some n"
  proof (cases "byte_of c < 0x80")
    case True
    with assms show ?thesis by (simp add: rune_tail_def)
  next
    case False
    with assms obtain lo hi where l: "lead_byte (byte_of c) = Some (n, lo, hi)" and t: "tail_bytes n lo hi s"
      by (auto simp: rune_tail_def split: option.splits if_splits)
    from lead_byte_pos [OF l] t have "tail_bytes n lo hi (take n s @ t)"
      by (auto simp: tail_bytes_def hd_append)
    with False l show ?thesis by (simp add: rune_tail_def)
  qed
qed

text \<open>The runes of a string: each is a well-formed sequence, whatever follows it.\<close>

definition is_rune :: "string \<Rightarrow> bool" where
  "is_rune w \<longleftrightarrow> (\<exists>c s. w = c # s \<and> rune_tail c s = Some (length s))"

lemma runes_rune: "is_rune w \<Longrightarrow> runes (w @ s) = Some w # runes s"
  by (auto simp: is_rune_def runes.simps(2) dest: rune_tail_take(1) [where t = s])

lemma runes_are_runes: "Some w \<in> set (runes s) \<Longrightarrow> is_rune w"
proof (induction s rule: runes.induct)
  case (2 c s)
  show ?case
  proof (cases "rune_tail c s")
    case None
    with 2 show ?thesis by (simp add: runes.simps(2))
  next
    case (Some n)
    then have "is_rune (c # take n s)"
      using rune_tail_take(1) [OF Some, of "[]"] rune_tail_take(2) [OF Some]
      by (simp add: is_rune_def min_def)
    with Some 2 show ?thesis by (auto simp: runes.simps(2))
  qed
qed simp

lemma is_rune_bad [simp]: "is_rune bad_rune"
  by (simp add: is_rune_def bad_rune_def rune_tail_def lead_byte_def tail_bytes_def)

lemma is_rune_ascii [simp]: "is_rune [c] \<longleftrightarrow> byte_of c < 0x80"
  by (auto simp: is_rune_def rune_tail_def tail_bytes_def lead_byte_def split: if_splits)

lemma is_rune_cases:
  assumes "is_rune w"
  obtains c where "w = [c]" "byte_of c < 0x80"
  | c t where "w = c # t" "t \<noteq> []" "0x80 \<le> byte_of c" "\<forall>x\<in>set w. 0x80 \<le> byte_of x"
proof -
  from assms obtain c t where w: "w = c # t" and r: "rune_tail c t = Some (length t)"
    by (auto simp: is_rune_def)
  show thesis
  proof (cases "byte_of c < 0x80")
    case True
    with r have "t = []" by (simp add: rune_tail_def)
    with w True show thesis by (auto intro: that(1))
  next
    case False
    with r have "t \<noteq> []" "\<forall>x\<in>set t. 0x80 \<le> byte_of x"
      by (auto simp: rune_tail_def tail_bytes_def split: option.splits if_splits)
    with w False show thesis by (intro that(2) [of c t]) auto
  qed
qed

lemma runes_induct [case_names Nil bad rune]:
  assumes "P []"
    and "\<And>c s. rune_tail c s = None \<Longrightarrow> P s \<Longrightarrow> P (c # s)"
    and "\<And>w s. is_rune w \<Longrightarrow> P s \<Longrightarrow> P (w @ s)"
  shows "P s"
proof (induction s rule: runes.induct)
  case (2 c s)
  show ?case
  proof (cases "rune_tail c s")
    case None
    with 2 assms(2) show ?thesis by blast
  next
    case (Some n)
    then have "runes (c # s) = Some (c # take n s) # runes (drop n s)" by (simp add: runes.simps(2))
    then have "is_rune (c # take n s)" using runes_are_runes by (metis list.set_intros(1))
    from assms(3) [OF this "2.IH"(2) [OF Some]] show ?thesis by simp
  qed
qed (rule assms(1))

lemma runes_bad: "rune_tail c s = None \<Longrightarrow> runes (c # s) = None # runes s"
  by (simp add: runes.simps(2))

lemma valid_text_simps [simp]:
  "valid_text [] = []"
  "is_rune w \<Longrightarrow> valid_text (w @ s) = w @ valid_text s"
  "rune_tail c s = None \<Longrightarrow> valid_text (c # s) = bad_rune @ valid_text s"
  by (simp_all add: valid_text_def runes_rune runes_bad rune_text_def)

lemma utf8_valid_simps [simp]:
  "utf8_valid []"
  "is_rune w \<Longrightarrow> utf8_valid (w @ s) \<longleftrightarrow> utf8_valid s"
  "rune_tail c s = None \<Longrightarrow> \<not> utf8_valid (c # s)"
  by (simp_all add: utf8_valid_def runes_rune runes_bad)

text \<open>Well-formed text is left as it is, and nothing else is.\<close>

lemma utf8_valid_text [simp]: "utf8_valid (valid_text s)"
  by (induction s rule: runes_induct) simp_all

lemma valid_text_id: "utf8_valid s \<Longrightarrow> valid_text s = s"
  by (induction s rule: runes_induct) simp_all

lemma valid_text_id_iff: "valid_text s = s \<longleftrightarrow> utf8_valid s"
  using valid_text_id utf8_valid_text by metis

lemma ascii_valid: "\<forall>c\<in>set s. byte_of c < 0x80 \<Longrightarrow> utf8_valid s"
proof (induction s)
  case (Cons c s)
  then have "is_rune [c]" by simp
  from utf8_valid_simps(2) [OF this, of s] Cons show ?case by simp
qed simp

end
