(* ===== verification/GoNet.thy ===== *)
theory GoNet
  imports GoStrings
begin

text \<open>
  \<open>net.SplitHostPort\<close> and \<open>net.JoinHostPort\<close> of Go's standard library, branch by
  branch, with the facts the address normalisation rests on: what a successful
  split says about its input, and that joining and splitting are inverse.
\<close>

datatype addr_err =
    MissingPort
  | TooManyColons
  | MissingCloseBracket
  | UnexpectedOpenBracket
  | UnexpectedCloseBracket

abbreviation colon :: char where "colon \<equiv> CHR '':''"
abbreviation obrack :: char where "obrack \<equiv> CHR ''[''"
abbreviation cbrack :: char where "cbrack \<equiv> CHR '']''"

text \<open>The two checks at the end of \<open>SplitHostPort\<close>: stray brackets in \<open>hostport[j:]\<close>
  and \<open>hostport[k:]\<close>.\<close>

definition bracket_check :: "string \<Rightarrow> string \<Rightarrow> 'a \<Rightarrow> addr_err + 'a" where
  "bracket_check from_j from_k r =
     (if obrack \<in> set from_j then Inl UnexpectedOpenBracket
      else if cbrack \<in> set from_k then Inl UnexpectedCloseBracket
      else Inr r)"

definition split_host_port :: "string \<Rightarrow> addr_err + string \<times> string" where
  "split_host_port s =
     (case cut_last colon s of
        None \<Rightarrow> Inl MissingPort
      | Some (front, port) \<Rightarrow>
          if has_prefix s [obrack] then
            (case cut_byte cbrack s of
               None \<Rightarrow> Inl MissingCloseBracket
             | Some (pre, post) \<Rightarrow>
                 if post = [] then Inl MissingPort
                 else if length pre + 1 = length front
                   then bracket_check (drop 1 s) post (drop 1 pre, port)
                 else if has_prefix post [colon] then Inl TooManyColons
                 else Inl MissingPort)
          else if contains_byte front colon then Inl TooManyColons
          else bracket_check s s (front, port))"

definition join_host_port :: "string \<Rightarrow> string \<Rightarrow> string" where
  "join_host_port host port =
     (if contains_byte host colon then obrack # host @ cbrack # colon # port
      else host @ colon # port)"

lemma bracket_check_Inr_iff:
  "bracket_check j k r = Inr x \<longleftrightarrow> obrack \<notin> set j \<and> cbrack \<notin> set k \<and> x = r"
  by (auto simp: bracket_check_def)

lemma split_host_port_Inr:
  assumes "split_host_port s = Inr (h, p)"
  shows "colon \<notin> set p \<and> obrack \<notin> set h \<and> cbrack \<notin> set h \<and> obrack \<notin> set p \<and> cbrack \<notin> set p
    \<and> (s = h @ colon # p \<and> colon \<notin> set h \<or> s = obrack # h @ cbrack # colon # p)"
proof -
  from assms obtain front port where bp: "cut_last colon s = Some (front, port)"
    by (auto simp: split_host_port_def split: option.splits)
  then have s: "s = front @ colon # port" and port: "colon \<notin> set port"
    by (simp_all add: cut_last_Some_iff)
  show ?thesis
  proof (cases "has_prefix s [obrack]")
    case True
    with assms bp obtain pre post where c: "cut_byte cbrack s = Some (pre, post)" "post \<noteq> []"
        "length pre + 1 = length front" and
        b: "bracket_check (drop 1 s) post (drop 1 pre, port) = Inr (h, p)"
      by (auto simp: split_host_port_def split: option.splits if_splits)
    have sp: "s = (pre @ [cbrack]) @ post" "cbrack \<notin> set pre"
      using c(1) by (auto simp: cut_byte_Some_iff)
    have "front = pre @ [cbrack]" and "post = colon # port"
      using s sp(1) c(3) by (metis append_eq_append_conv length_append_singleton Suc_eq_plus1)+
    moreover obtain pre' where "pre = obrack # pre'"
      using True sp(1) by (cases pre) (auto simp: has_prefix_Cons_iff)
    ultimately show ?thesis
      using b sp port by (auto simp: bracket_check_Inr_iff)
  next
    case False
    with assms bp have "colon \<notin> set front" "bracket_check s s (front, port) = Inr (h, p)"
      by (auto simp: split_host_port_def contains_byte_def split: if_splits)
    with s port show ?thesis by (auto simp: bracket_check_Inr_iff)
  qed
qed

lemma split_join_host_port:
  assumes "colon \<notin> set p" "obrack \<notin> set h" "cbrack \<notin> set h" "obrack \<notin> set p" "cbrack \<notin> set p"
  shows "split_host_port (join_host_port h p) = Inr (h, p)"
proof (cases "contains_byte h colon")
  case True
  let ?s = "obrack # h @ cbrack # colon # p"
  have "cut_last colon ?s = Some (obrack # h @ [cbrack], p)"
    using assms by (simp add: cut_last_Some_iff)
  moreover have "cut_byte cbrack ?s = Some (obrack # h, colon # p)"
    using assms by (simp add: cut_byte_Some_iff)
  ultimately show ?thesis
    using True assms
    by (simp add: split_host_port_def join_host_port_def bracket_check_def has_prefix_Cons_iff)
next
  case False
  have "cut_last colon (h @ colon # p) = Some (h, p)"
    using assms by (simp add: cut_last_Some_iff)
  moreover have "\<not> has_prefix (h @ colon # p) [obrack]"
    using assms by (cases h) (auto simp: has_prefix_Cons_iff)
  ultimately show ?thesis
    using False assms by (simp add: split_host_port_def join_host_port_def bracket_check_def)
qed

lemma split_join_split:
  "split_host_port s = Inr (h, p) \<Longrightarrow> split_host_port (join_host_port h p) = Inr (h, p)"
  by (blast dest: split_host_port_Inr intro: split_join_host_port)

text \<open>The join of a split is the input, but for brackets around a host that needs
  none.\<close>

lemma join_split:
  assumes "split_host_port s = Inr (h, p)"
  shows "join_host_port h p = s \<or> s = obrack # h @ cbrack # colon # p"
  using split_host_port_Inr [OF assms] by (auto simp: join_host_port_def contains_byte_def)

lemmas [go_eval] = bracket_check_def split_host_port_def join_host_port_def

end
