(* ===== verification/GoUrl.thy ===== *)
theory GoUrl
  imports GoNet
begin

text \<open>
  \<open>url.Parse\<close> of Go's standard library (the release \<open>go.mod\<close> names, 1.25.0), with
  the fields of \<open>url.URL\<close> the program reads: scheme, opaque part, host and path.
  The routes' backends are validated with it, and the reverse proxies of routes
  and of domain forwards are built from its result.
\<close>

datatype url_err =
    UrlControlChar
  | UrlMissingScheme
  | UrlFirstSegmentColon
  | UrlMissingBracket
  | UrlInvalidPort string
  | UrlEscape string
  | UrlInvalidHostChar char
  | UrlInvalidUserinfo

record url =
  u_scheme :: string
  u_opaque :: string
  u_host :: string
  u_path :: string

datatype enc_mode = EncPath | EncHost | EncZone | EncUserPassword | EncFragment

abbreviation slash :: char where "slash \<equiv> CHR ''/''"

definition is_hex :: "char \<Rightarrow> bool" where
  "is_hex c \<longleftrightarrow> is_digit c \<or> 97 \<le> byte_of c \<and> byte_of c \<le> 102 \<or> 65 \<le> byte_of c \<and> byte_of c \<le> 70"

definition unhex :: "char \<Rightarrow> nat" where
  "unhex c = (if is_digit c then byte_of c - 48
              else if 97 \<le> byte_of c then byte_of c - 97 + 10 else byte_of c - 65 + 10)"

text \<open>\<open>shouldEscape\<close> in the two host modes, the only ones \<open>unescape\<close> asks about.\<close>

definition host_should_escape :: "char \<Rightarrow> bool" where
  "host_should_escape c \<longleftrightarrow>
     \<not> (is_alnum c \<or> c \<in> set ''!$&()*+,;=:[]<>-_.~'' \<or> byte_of c = 39 \<or> byte_of c = 34)"

fun unescape :: "enc_mode \<Rightarrow> string \<Rightarrow> url_err + string" where
  "unescape m [] = Inr []"
| "unescape m (c # s) =
     (if c = CHR ''%'' then
        (case s of
           a # b # r \<Rightarrow>
             if \<not> (is_hex a \<and> is_hex b) then Inl (UrlEscape [c, a, b])
             else if m = EncHost \<and> unhex a < 8 \<and> [a, b] \<noteq> ''25'' then Inl (UrlEscape [c, a, b])
             else if m = EncZone \<and> [a, b] \<noteq> ''25'' \<and> 16 * unhex a + unhex b \<noteq> 32
                     \<and> host_should_escape (char_of (16 * unhex a + unhex b))
               then Inl (UrlEscape [c, a, b])
             else bind_res (unescape m r) (\<lambda>t. Inr (char_of (16 * unhex a + unhex b) # t))
         | _ \<Rightarrow> Inl (UrlEscape (c # s)))
      else if (m = EncHost \<or> m = EncZone) \<and> byte_of c < 128 \<and> host_should_escape c
        then Inl (UrlInvalidHostChar c)
      else bind_res (unescape m s) (\<lambda>t. Inr (c # t)))"

datatype scheme_scan = NoScheme | EmptyScheme | SchemeAt nat

fun scan_scheme :: "nat \<Rightarrow> string \<Rightarrow> scheme_scan" where
  "scan_scheme i [] = NoScheme"
| "scan_scheme i (c # cs) =
     (if is_upper_ascii c \<or> is_lower_ascii c then scan_scheme (Suc i) cs
      else if is_digit c \<or> c \<in> set ''+-.'' then (if i = 0 then NoScheme else scan_scheme (Suc i) cs)
      else if c = colon then (if i = 0 then EmptyScheme else SchemeAt i)
      else NoScheme)"

definition get_scheme :: "string \<Rightarrow> url_err + string \<times> string" where
  "get_scheme raw =
     (case scan_scheme 0 raw of
        NoScheme \<Rightarrow> Inr ([], raw)
      | EmptyScheme \<Rightarrow> Inl UrlMissingScheme
      | SchemeAt i \<Rightarrow> Inr (take i raw, drop (Suc i) raw))"

definition valid_optional_port :: "string \<Rightarrow> bool" where
  "valid_optional_port s \<longleftrightarrow> s = [] \<or> hd s = colon \<and> (\<forall>c\<in>set (tl s). is_digit c)"

text \<open>\<open>strings.Index(s, "%25")\<close> and the two slices.\<close>

fun cut_zone :: "string \<Rightarrow> (string \<times> string) option" where
  "cut_zone [] = None"
| "cut_zone (c # s) =
     (if has_prefix (c # s) ''%25'' then Some ([], c # s)
      else map_option (\<lambda>(a, b). (c # a, b)) (cut_zone s))"

definition parse_host :: "string \<Rightarrow> url_err + string" where
  "parse_host host =
     (if has_prefix host [obrack] then
        (case cut_last cbrack host of
           None \<Rightarrow> Inl UrlMissingBracket
         | Some (front, colonPort) \<Rightarrow>
             if \<not> valid_optional_port colonPort then Inl (UrlInvalidPort colonPort)
             else (case cut_zone front of
                     Some (h1, zone) \<Rightarrow>
                       bind_res (unescape EncHost h1) (\<lambda>host1.
                       bind_res (unescape EncZone zone) (\<lambda>host2.
                       bind_res (unescape EncHost (cbrack # colonPort)) (\<lambda>host3.
                         Inr (host1 @ host2 @ host3))))
                   | None \<Rightarrow> unescape EncHost host))
      else (case cut_last colon host of
              Some (_, p) \<Rightarrow>
                if \<not> valid_optional_port (colon # p) then Inl (UrlInvalidPort (colon # p))
                else unescape EncHost host
            | None \<Rightarrow> unescape EncHost host))"

definition userinfo_byte :: "char \<Rightarrow> bool" where
  "userinfo_byte c \<longleftrightarrow> is_alnum c \<or> c \<in> set ''-._:~!$&()*+,;=%@'' \<or> byte_of c = 39"

definition parse_authority :: "string \<Rightarrow> url_err + string" where
  "parse_authority authority =
     (case cut_last (CHR ''@'') authority of
        None \<Rightarrow> parse_host authority
      | Some (userinfo, h) \<Rightarrow>
          bind_res (parse_host h) (\<lambda>host.
          if \<not> (\<forall>c\<in>set userinfo. userinfo_byte c) then Inl UrlInvalidUserinfo
          else (case cut_byte colon userinfo of
                  None \<Rightarrow> bind_res (unescape EncUserPassword userinfo) (\<lambda>_. Inr host)
                | Some (un, pw) \<Rightarrow>
                    bind_res (unescape EncUserPassword un) (\<lambda>_.
                    bind_res (unescape EncUserPassword pw) (\<lambda>_. Inr host)))))"

definition ctl_byte :: "char \<Rightarrow> bool" where
  "ctl_byte c \<longleftrightarrow> byte_of c < 32 \<or> byte_of c = 127"

text \<open>\<open>parse(rawURL, false)\<close>: the URL before any fragment. Cutting the query at the
  first question mark covers the \<open>ForceQuery\<close> case too: there the only question
  mark is the last byte, and both ways leave the same rest.\<close>

definition before_query :: "string \<Rightarrow> string" where
  "before_query rest = (case cut_byte (CHR ''?'') rest of None \<Rightarrow> rest | Some (a, _) \<Rightarrow> a)"

definition split_authority :: "string \<Rightarrow> string \<times> string" where
  "split_authority a = (case cut_byte slash a of None \<Rightarrow> (a, []) | Some (x, y) \<Rightarrow> (x, slash # y))"

definition parse_rest :: "string \<Rightarrow> string \<Rightarrow> url_err + url" where
  "parse_rest scheme rest =
     (if \<not> has_prefix rest [slash] \<and> scheme \<noteq> [] then
        Inr \<lparr>u_scheme = scheme, u_opaque = rest, u_host = [], u_path = []\<rparr>
      else if \<not> has_prefix rest [slash] \<and> contains_byte (fst (split_authority rest)) colon then
        Inl UrlFirstSegmentColon
      else if (scheme \<noteq> [] \<or> \<not> has_prefix rest ''///'') \<and> has_prefix rest ''//'' then
        (case split_authority (drop 2 rest) of (authority, p) \<Rightarrow>
          bind_res (parse_authority authority) (\<lambda>host.
          bind_res (unescape EncPath p) (\<lambda>path.
            Inr \<lparr>u_scheme = scheme, u_opaque = [], u_host = host, u_path = path\<rparr>)))
      else
        bind_res (unescape EncPath rest) (\<lambda>path.
          Inr \<lparr>u_scheme = scheme, u_opaque = [], u_host = [], u_path = path\<rparr>))"

definition parse_no_fragment :: "string \<Rightarrow> url_err + url" where
  "parse_no_fragment raw =
     (if \<exists>c\<in>set raw. ctl_byte c then Inl UrlControlChar
      else if raw = ''*'' then Inr \<lparr>u_scheme = [], u_opaque = [], u_host = [], u_path = ''*''\<rparr>
      else bind_res (get_scheme raw) (\<lambda>(scheme, rest).
             parse_rest (to_lower scheme) (before_query rest)))"

definition url_parse :: "string \<Rightarrow> url_err + url" where
  "url_parse raw =
     (case cut_byte (CHR ''#'') raw of
        None \<Rightarrow> parse_no_fragment raw
      | Some (u, frag) \<Rightarrow>
          bind_res (parse_no_fragment u) (\<lambda>r.
          if frag = [] then Inr r
          else bind_res (unescape EncFragment frag) (\<lambda>_. Inr r)))"

text \<open>\<open>(*URL).Hostname\<close>: the host without a valid port and without brackets.\<close>

definition url_hostname :: "url \<Rightarrow> string" where
  "url_hostname u =
     (let h = (case cut_last colon (u_host u) of
                 Some (a, p) \<Rightarrow> if valid_optional_port (colon # p) then a else u_host u
               | None \<Rightarrow> u_host u)
      in if has_prefix h [obrack] \<and> has_suffix h [cbrack] \<and> 2 \<le> length h
         then butlast (drop 1 h) else h)"

section \<open>URLs built from a plain host and port\<close>

text \<open>Host bytes that need no escaping and end no URL component.\<close>

definition url_host_byte :: "char \<Rightarrow> bool" where
  "url_host_byte c \<longleftrightarrow> is_alnum c \<or> c \<in> set ''-_.~''"

lemma url_host_byte_plain:
  assumes "url_host_byte c \<or> c = colon"
  shows "\<not> host_should_escape c" "\<not> ctl_byte c"
    "c \<noteq> CHR ''%''" "c \<noteq> CHR ''?''" "c \<noteq> CHR ''#''" "c \<noteq> slash" "c \<noteq> CHR ''@''" "c \<noteq> obrack"
  using assms
  by (auto simp: url_host_byte_def host_should_escape_def ctl_byte_def byte_class_defs)

lemma not_url_host_byte [simp]:
  "\<not> url_host_byte obrack" "\<not> url_host_byte colon" "\<not> url_host_byte slash"
  "\<not> url_host_byte (CHR ''@'')" "\<not> url_host_byte (CHR ''#'')" "\<not> url_host_byte (CHR ''?'')"
  by (simp_all add: url_host_byte_def byte_class_defs)

lemma not_ctl_byte_sep [simp]: "\<not> ctl_byte colon" "\<not> ctl_byte slash"
  by (simp_all add: ctl_byte_def)

lemma host_bytes_exclude:
  "(\<forall>c\<in>S. url_host_byte c \<or> c = colon) \<Longrightarrow> \<not> url_host_byte x \<Longrightarrow> x \<noteq> colon \<Longrightarrow> x \<notin> S"
  by blast

lemma unescape_plain:
  "(\<forall>c\<in>set s. c \<noteq> CHR ''%'' \<and> \<not> host_should_escape c) \<Longrightarrow> unescape m s = Inr s"
  by (induction s) auto

lemma parse_host_plain:
  assumes h: "\<forall>c\<in>set h. url_host_byte c" and p: "\<forall>c\<in>set p. is_digit c"
  shows "parse_host (h @ colon # p) = Inr (h @ colon # p)"
proof -
  have p': "\<forall>c\<in>set p. url_host_byte c" using p by (auto simp: url_host_byte_def is_alnum_def)
  have "colon \<notin> set p" using p by (auto dest: is_digit_not_sign)
  then have cut: "cut_last colon (h @ colon # p) = Some (h, p)" by (simp add: cut_last_Some_iff)
  have nob: "\<not> has_prefix (h @ colon # p) [obrack]"
    using h by (cases h) (auto simp: has_prefix_Cons_iff)
  have "unescape EncHost (h @ colon # p) = Inr (h @ colon # p)"
  proof (rule unescape_plain, rule ballI)
    fix c assume "c \<in> set (h @ colon # p)"
    then have c: "url_host_byte c \<or> c = colon" using h p' by auto
    show "c \<noteq> CHR ''%'' \<and> \<not> host_should_escape c"
      using url_host_byte_plain(1,3) [OF c] by simp
  qed
  with cut nob p show ?thesis by (simp add: parse_host_def valid_optional_port_def)
qed

lemma scan_scheme_letters:
  assumes "\<forall>c\<in>set s. is_lower_ascii c" "0 < i + length s"
  shows "scan_scheme i (s @ colon # r) = SchemeAt (i + length s)"
  using assms by (induction s arbitrary: i) (auto simp: byte_class_defs)

text \<open>A URL made of a lower-case scheme and a plain \<open>host:port\<close> parses to exactly
  these parts.\<close>

lemma url_parse_plain:
  assumes sch: "sch \<noteq> []" "\<forall>c\<in>set sch. is_lower_ascii c"
    and h: "\<forall>c\<in>set h. url_host_byte c" and p: "\<forall>c\<in>set p. is_digit c"
  shows "url_parse (sch @ ''://'' @ h @ colon # p) =
    Inr \<lparr>u_scheme = sch, u_opaque = [], u_host = h @ colon # p, u_path = []\<rparr>"
proof -
  let ?hp = "h @ colon # p"
  let ?raw = "sch @ ''://'' @ ?hp"
  have p': "\<forall>c\<in>set p. url_host_byte c" using p by (auto simp: url_host_byte_def is_alnum_def)
  have low: "\<forall>c\<in>set sch. url_host_byte c"
    using sch by (auto simp: url_host_byte_def is_alnum_def)
  have hp: "\<forall>c\<in>set ?hp. url_host_byte c \<or> c = colon" using h p' by auto
  have raw: "\<forall>c\<in>set ?raw. c \<noteq> CHR ''#'' \<and> c \<noteq> CHR ''?'' \<and> \<not> ctl_byte c"
  proof
    fix c assume "c \<in> set ?raw"
    then have "url_host_byte c \<or> c = colon \<or> c = slash" using hp low by auto
    then show "c \<noteq> CHR ''#'' \<and> c \<noteq> CHR ''?'' \<and> \<not> ctl_byte c"
      using url_host_byte_plain(2) [of c] by (elim disjE) auto
  qed
  have lower: "to_lower sch = sch"
    using sch(2) by (auto simp: to_lower_def lower_char_def byte_class_defs intro!: map_idI)
  have rest: "before_query (''//'' @ ?hp) = ''//'' @ ?hp"
  proof -
    have "CHR ''?'' \<notin> set ?hp" by (rule host_bytes_exclude [OF hp]) simp_all
    then have "CHR ''?'' \<notin> set (''//'' @ ?hp)" by simp
    then have "cut_byte (CHR ''?'') (''//'' @ ?hp) = None" by (subst cut_byte_None_iff)
    then show ?thesis by (simp only: before_query_def option.simps)
  qed
  have "scan_scheme 0 ?raw = SchemeAt (length sch)"
    using scan_scheme_letters [of sch 0 "''//'' @ ?hp"] sch by simp
  then have gs: "get_scheme ?raw = Inr (sch, ''//'' @ ?hp)"
    by (simp add: get_scheme_def)
  have auth: "split_authority ?hp = (?hp, [])"
  proof -
    have "slash \<notin> set ?hp" by (rule host_bytes_exclude [OF hp]) simp_all
    then have "cut_byte slash ?hp = None" by (simp add: cut_byte_None_iff)
    then show ?thesis by (simp only: split_authority_def option.simps)
  qed
  have pa: "parse_authority ?hp = Inr ?hp"
  proof -
    have "CHR ''@'' \<notin> set ?hp" by (rule host_bytes_exclude [OF hp]) simp_all
    then have "cut_last (CHR ''@'') ?hp = None" by (simp add: cut_last_None_iff)
    then show ?thesis by (simp only: parse_authority_def option.simps parse_host_plain [OF h p])
  qed
  have "parse_rest sch (''//'' @ ?hp) =
      Inr \<lparr>u_scheme = sch, u_opaque = [], u_host = ?hp, u_path = []\<rparr>"
    using sch auth pa by (simp add: parse_rest_def has_prefix_def)
  then have "parse_no_fragment ?raw =
      Inr \<lparr>u_scheme = sch, u_opaque = [], u_host = ?hp, u_path = []\<rparr>"
    using raw gs rest lower sch by (auto simp: parse_no_fragment_def)
  moreover have "cut_byte (CHR ''#'') ?raw = None" using raw by (simp add: cut_byte_None_iff) blast
  ultimately show ?thesis by (simp only: url_parse_def option.simps)
qed

lemmas [go_eval] = is_hex_def unhex_def host_should_escape_def get_scheme_def valid_optional_port_def
  parse_host_def userinfo_byte_def parse_authority_def ctl_byte_def before_query_def
  split_authority_def parse_rest_def parse_no_fragment_def url_parse_def url_hostname_def

end
