(* ===== verification/Json.thy ===== *)
theory Json
  imports Utf8 GoUrl
begin

text \<open>
  JSON text as Go's \<open>encoding/json\<close> reads and writes it. Reading is its scanner, one step per
  byte with a stack of the open objects and arrays, which builds the value as it goes; writing
  is \<open>Marshal\<close> and \<open>MarshalIndent\<close> with their escaping. A string is the text it stands for, a
  number the literal as written.
\<close>

datatype json =
    JNull
  | JBool bool
  | JNum string
  | JStr string
  | JArr "json list"
  | JObj "(string \<times> json) list"

datatype json_err =
    InvalidCharacter
  | UnexpectedEnd
  | ExceededDepth
  | CannotUnmarshal string

abbreviation quote_char :: char where "quote_char \<equiv> CHR 0x22"
abbreviation backslash :: char where "backslash \<equiv> CHR 0x5C"
abbreviation line_feed :: char where "line_feed \<equiv> CHR 0x0A"

section \<open>String literals\<close>

text \<open>\<open>unquote\<close>: the text of a literal; the scanner has let through only the escapes it knows. A \<open>\u\<close> escape
  of a surrogate needs its other half right behind it, and bytes that are not UTF-8 become
  U+FFFD.\<close>

definition simple_escape :: "char \<Rightarrow> char" where
  "simple_escape e =
     (if e = CHR ''b'' then CHR 0x08 else if e = CHR ''f'' then CHR 0x0C
      else if e = CHR ''n'' then line_feed else if e = CHR ''r'' then CHR 0x0D
      else if e = CHR ''t'' then CHR 0x09 else e)"

definition escape_char :: "char \<Rightarrow> bool" where
  "escape_char e \<longleftrightarrow> e \<in> set ''bfnrt/'' \<or> e = backslash \<or> e = quote_char"

definition hex4 :: "string \<Rightarrow> nat" where
  "hex4 s = foldl (\<lambda>a c. 16 * a + unhex c) 0 (take 4 s)"

definition getu4 :: "string \<Rightarrow> nat option" where
  "getu4 s =
     (if take 2 s = [backslash, CHR ''u''] \<and> 6 \<le> length s \<and> (\<forall>c\<in>set (take 4 (drop 2 s)). is_hex c)
      then Some (hex4 (drop 2 s)) else None)"

definition is_surrogate :: "nat \<Rightarrow> bool" where
  "is_surrogate r \<longleftrightarrow> 0xD800 \<le> r \<and> r \<le> 0xDFFF"

definition surrogate_pair :: "nat \<Rightarrow> nat option \<Rightarrow> nat option" where
  "surrogate_pair r1 r2 =
     (case r2 of
        None \<Rightarrow> None
      | Some r \<Rightarrow> if r1 < 0xDC00 \<and> 0xDC00 \<le> r \<and> r \<le> 0xDFFF
                  then Some ((r1 - 0xD800) * 0x400 + (r - 0xDC00) + 0x10000) else None)"

function unquote :: "string \<Rightarrow> string" where
  "unquote [] = []"
| "unquote (c # s) =
     (if c = backslash then
        (case getu4 (c # s) of
           Some r \<Rightarrow>
             (if is_surrogate r then
                (case surrogate_pair r (getu4 (drop 5 s)) of
                   Some d \<Rightarrow> encode_rune d @ unquote (drop 11 s)
                 | None \<Rightarrow> bad_rune @ unquote (drop 5 s))
              else encode_rune r @ unquote (drop 5 s))
         | None \<Rightarrow> (case s of [] \<Rightarrow> [] | e # t \<Rightarrow> if escape_char e then simple_escape e # unquote t else []))
      else (case rune_tail c s of
          None \<Rightarrow> bad_rune @ unquote s
        | Some n \<Rightarrow> (c # take n s) @ unquote (drop n s)))"
  by pat_completeness auto
termination
  by (relation "measure length") auto

declare unquote.simps(2) [simp del]

text \<open>The literal of a text: HTML's special characters are escaped too, and U+2028 and
  U+2029.\<close>

definition low_hex :: "nat \<Rightarrow> char" where
  "low_hex n = (if n < 10 then char_of (48 + n) else char_of (87 + n))"

definition esc_ascii :: "char \<Rightarrow> string" where
  "esc_ascii c =
     (if c = backslash \<or> c = quote_char then [backslash, c]
      else if byte_of c = 8 then [backslash, CHR ''b'']
      else if byte_of c = 12 then [backslash, CHR ''f'']
      else if byte_of c = 10 then [backslash, CHR ''n'']
      else if byte_of c = 13 then [backslash, CHR ''r'']
      else if byte_of c = 9 then [backslash, CHR ''t'']
      else if byte_of c < 32 \<or> c \<in> set ''<>&''
        then [backslash, CHR ''u'', CHR ''0'', CHR ''0'', low_hex (byte_of c div 16), low_hex (byte_of c mod 16)]
      else [c])"

definition esc_rune :: "string option \<Rightarrow> string" where
  "esc_rune r =
     (case r of
        None \<Rightarrow> backslash # ''ufffd''
      | Some w \<Rightarrow>
          (if length w = 1 then esc_ascii (hd w)
           else if w = [CHR 0xE2, CHR 0x80, CHR 0xA8] then backslash # ''u2028''
           else if w = [CHR 0xE2, CHR 0x80, CHR 0xA9] then backslash # ''u2029''
           else w))"

definition escape :: "string \<Rightarrow> string" where
  "escape s = concat (map esc_rune (runes s))"

definition quote :: "string \<Rightarrow> string" where
  "quote s = quote_char # escape s @ [quote_char]"

section \<open>The scanner\<close>

datatype str_state = InText | AfterEscape | InHex nat

datatype num_state = NumSign | NumZero | NumInt | NumDot | NumFrac | NumE | NumESign | NumExp

text \<open>The open objects and arrays, innermost first, each with what it holds so far in
  reverse: an object before its next key, or with the key whose value comes next.\<close>

datatype frame =
    ArrayFrame "json list"
  | KeyFrame "(string \<times> json) list"
  | ValueFrame "(string \<times> json) list" string

datatype scan_phase =
    BeginValue
  | BeginValueOrEmpty
  | BeginString
  | BeginStringOrEmpty
  | AfterKey
  | EndValue
  | EndTop json
  | InString str_state string
  | InNumber num_state string
  | InLiteral string json

type_synonym scan = "scan_phase \<times> frame list"

definition is_space :: "char \<Rightarrow> bool" where
  "is_space c \<longleftrightarrow> byte_of c = 32 \<or> byte_of c = 9 \<or> byte_of c = 10 \<or> byte_of c = 13"

fun num_next :: "num_state \<Rightarrow> char \<Rightarrow> num_state option" where
  "num_next NumSign c = (if c = CHR ''0'' then Some NumZero else if is_digit c then Some NumInt else None)"
| "num_next NumZero c =
     (if c = CHR ''.'' then Some NumDot else if c = CHR ''e'' \<or> c = CHR ''E'' then Some NumE else None)"
| "num_next NumInt c =
     (if is_digit c then Some NumInt
      else if c = CHR ''.'' then Some NumDot else if c = CHR ''e'' \<or> c = CHR ''E'' then Some NumE else None)"
| "num_next NumDot c = (if is_digit c then Some NumFrac else None)"
| "num_next NumFrac c =
     (if is_digit c then Some NumFrac else if c = CHR ''e'' \<or> c = CHR ''E'' then Some NumE else None)"
| "num_next NumE c = (if c = CHR ''+'' \<or> c = CHR ''-'' then Some NumESign else if is_digit c then Some NumExp else None)"
| "num_next NumESign c = (if is_digit c then Some NumExp else None)"
| "num_next NumExp c = (if is_digit c then Some NumExp else None)"

definition num_final :: "num_state \<Rightarrow> bool" where
  "num_final n \<longleftrightarrow> n \<in> {NumZero, NumInt, NumFrac, NumExp}"

definition max_depth :: nat where
  "max_depth = 10000"

definition push_frame :: "scan_phase \<Rightarrow> frame \<Rightarrow> frame list \<Rightarrow> json_err + scan" where
  "push_frame p f st = (if length st < max_depth then Inr (p, f # st) else Inl ExceededDepth)"

text \<open>A value is complete: it goes to the innermost frame. A string where a key is due is
  the key.\<close>

fun complete_value :: "json \<Rightarrow> frame list \<Rightarrow> scan" where
  "complete_value v [] = (EndTop v, [])"
| "complete_value v (ArrayFrame vs # st) = (EndValue, ArrayFrame (v # vs) # st)"
| "complete_value v (ValueFrame kvs k # st) = (EndValue, KeyFrame ((k, v) # kvs) # st)"
| "complete_value v (KeyFrame kvs # st) =
     (AfterKey, ValueFrame kvs (case v of JStr k \<Rightarrow> k | _ \<Rightarrow> []) # st)"

definition begin_value :: "char \<Rightarrow> frame list \<Rightarrow> json_err + scan" where
  "begin_value c st =
     (if is_space c then Inr (BeginValue, st)
      else if c = CHR ''{'' then push_frame BeginStringOrEmpty (KeyFrame []) st
      else if c = CHR ''['' then push_frame BeginValueOrEmpty (ArrayFrame []) st
      else if c = quote_char then Inr (InString InText [], st)
      else if c = CHR ''-'' then Inr (InNumber NumSign [c], st)
      else if c = CHR ''0'' then Inr (InNumber NumZero [c], st)
      else if is_digit c then Inr (InNumber NumInt [c], st)
      else if c = CHR ''t'' then Inr (InLiteral ''rue'' (JBool True), st)
      else if c = CHR ''f'' then Inr (InLiteral ''alse'' (JBool False), st)
      else if c = CHR ''n'' then Inr (InLiteral ''ull'' JNull, st)
      else Inl InvalidCharacter)"

text \<open>After a complete value: white space, or what the innermost frame allows.\<close>

definition end_value :: "char \<Rightarrow> scan \<Rightarrow> json_err + scan" where
  "end_value c sc =
     (if is_space c then Inr sc
      else (case sc of
          (EndValue, ArrayFrame vs # st) \<Rightarrow>
            if c = CHR '','' then Inr (BeginValue, ArrayFrame vs # st)
            else if c = CHR '']'' then Inr (complete_value (JArr (rev vs)) st)
            else Inl InvalidCharacter
        | (EndValue, KeyFrame kvs # st) \<Rightarrow>
            if c = CHR '','' then Inr (BeginString, KeyFrame kvs # st)
            else if c = CHR ''}'' then Inr (complete_value (JObj (rev kvs)) st)
            else Inl InvalidCharacter
        | _ \<Rightarrow> Inl InvalidCharacter))"

definition in_string :: "str_state \<Rightarrow> string \<Rightarrow> char \<Rightarrow> frame list \<Rightarrow> json_err + scan" where
  "in_string q acc c st =
     (case q of
        InText \<Rightarrow>
          if c = quote_char then Inr (complete_value (JStr (unquote (rev acc))) st)
          else if c = backslash then Inr (InString AfterEscape (c # acc), st)
          else if byte_of c < 32 then Inl InvalidCharacter
          else Inr (InString InText (c # acc), st)
      | AfterEscape \<Rightarrow>
          if escape_char c then Inr (InString InText (c # acc), st)
          else if c = CHR ''u'' then Inr (InString (InHex 4) (c # acc), st)
          else Inl InvalidCharacter
      | InHex n \<Rightarrow>
          if is_hex c then Inr (InString (if n = 1 then InText else InHex (n - 1)) (c # acc), st)
          else Inl InvalidCharacter)"

fun scan_step :: "char \<Rightarrow> scan \<Rightarrow> json_err + scan" where
  "scan_step c (BeginValue, st) = begin_value c st"
| "scan_step c (BeginValueOrEmpty, st) =
     (if is_space c then Inr (BeginValueOrEmpty, st)
      else if c = CHR '']'' then end_value c (EndValue, st)
      else begin_value c st)"
| "scan_step c (BeginString, st) =
     (if is_space c then Inr (BeginString, st)
      else if c = quote_char then Inr (InString InText [], st) else Inl InvalidCharacter)"
| "scan_step c (BeginStringOrEmpty, st) =
     (if is_space c then Inr (BeginStringOrEmpty, st)
      else if c = CHR ''}'' then end_value c (EndValue, st)
      else if c = quote_char then Inr (InString InText [], st) else Inl InvalidCharacter)"
| "scan_step c (AfterKey, st) =
     (if is_space c then Inr (AfterKey, st)
      else if c = CHR '':'' then Inr (BeginValue, st) else Inl InvalidCharacter)"
| "scan_step c (EndValue, st) = end_value c (EndValue, st)"
| "scan_step c (EndTop v, st) = end_value c (EndTop v, st)"
| "scan_step c (InString q acc, st) = in_string q acc c st"
| "scan_step c (InNumber n acc, st) =
     (case num_next n c of
        Some n' \<Rightarrow> Inr (InNumber n' (c # acc), st)
      | None \<Rightarrow> if num_final n then end_value c (complete_value (JNum (rev acc)) st)
                else Inl InvalidCharacter)"
| "scan_step c (InLiteral [] v, st) = Inl InvalidCharacter"
| "scan_step c (InLiteral (x # xs) v, st) =
     (if c \<noteq> x then Inl InvalidCharacter
      else if xs = [] then Inr (complete_value v st) else Inr (InLiteral xs v, st))"

fun scan_all :: "string \<Rightarrow> scan \<Rightarrow> json_err + scan" where
  "scan_all [] sc = Inr sc"
| "scan_all (c # cs) sc = bind_res (scan_step c sc) (scan_all cs)"

definition scan_eof :: "scan \<Rightarrow> json_err + json" where
  "scan_eof sc =
     (case sc of
        (EndTop v, _) \<Rightarrow> Inr v
      | (InNumber n acc, []) \<Rightarrow> if num_final n then Inr (JNum (rev acc)) else Inl UnexpectedEnd
      | _ \<Rightarrow> Inl UnexpectedEnd)"

definition parse_json :: "string \<Rightarrow> json_err + json" where
  "parse_json data = bind_res (scan_all data (BeginValue, [])) scan_eof"

section \<open>The printer\<close>

text \<open>With \<open>ind\<close>, the layout of \<open>MarshalIndent(v, "", "  ")\<close> at nesting depth \<open>d\<close>; without it,
  that of \<open>Marshal\<close>.\<close>

definition new_line :: "bool \<Rightarrow> nat \<Rightarrow> string" where
  "new_line ind d = (if ind then line_feed # replicate (2 * d) (CHR '' '') else [])"

fun separate :: "string \<Rightarrow> string list \<Rightarrow> string" where
  "separate sep [] = []"
| "separate sep [x] = x"
| "separate sep (x # y # xs) = x @ sep @ separate sep (y # xs)"

definition bracket :: "bool \<Rightarrow> nat \<Rightarrow> char \<Rightarrow> char \<Rightarrow> string list \<Rightarrow> string" where
  "bracket ind d l r xs =
     (if xs = [] then [l, r]
      else l # new_line ind (Suc d) @ separate (CHR '','' # new_line ind (Suc d)) xs @ new_line ind d @ [r])"

fun print_json :: "bool \<Rightarrow> nat \<Rightarrow> json \<Rightarrow> string" where
  "print_json ind d JNull = ''null''"
| "print_json ind d (JBool b) = (if b then ''true'' else ''false'')"
| "print_json ind d (JNum l) = l"
| "print_json ind d (JStr s) = quote s"
| "print_json ind d (JArr vs) = bracket ind d (CHR ''['') (CHR '']'') (map (print_json ind (Suc d)) vs)"
| "print_json ind d (JObj kvs) =
     bracket ind d (CHR ''{'') (CHR ''}'')
       (map (\<lambda>(k, v). quote k @ (if ind then '': '' else '':'') @ print_json ind (Suc d) v) kvs)"

definition Marshal :: "json \<Rightarrow> string" where
  "Marshal v = print_json False 0 v"

definition MarshalIndent :: "json \<Rightarrow> string" where
  "MarshalIndent v = print_json True 0 v"

section \<open>Reading back a string literal\<close>

lemma low_hex_props:
  assumes "n < 16"
  shows "is_hex (low_hex n)" "unhex (low_hex n) = n" "32 \<le> byte_of (low_hex n)" "byte_of (low_hex n) < 128"
    "low_hex n \<noteq> quote_char" "low_hex n \<noteq> backslash"
proof -
  show "is_hex (low_hex n)" "unhex (low_hex n) = n" "32 \<le> byte_of (low_hex n)" "byte_of (low_hex n) < 128"
    using assms by (auto simp: low_hex_def is_hex_def unhex_def is_digit_def)
  have "48 \<le> byte_of (low_hex n)" "byte_of (low_hex n) \<noteq> 92" using assms by (auto simp: low_hex_def)
  then show "low_hex n \<noteq> quote_char" "low_hex n \<noteq> backslash" by auto
qed

lemma encode_rune_ascii: "byte_of c < 0x80 \<Longrightarrow> encode_rune (byte_of c) = [c]"
  by (simp add: encode_rune_def)

lemma unquote_plain:
  "c \<noteq> backslash \<Longrightarrow> byte_of c < 0x80 \<Longrightarrow> unquote (c # s) = c # unquote s"
  by (simp add: unquote.simps(2) rune_tail_def)

lemma unquote_rune:
  assumes "is_rune w" "length w \<noteq> 1"
  shows "unquote (w @ s) = w @ unquote s"
  using assms(1)
proof (cases rule: is_rune_cases)
  case (2 c t)
  then have "c \<noteq> backslash" by auto
  moreover from 2(1) assms(1) have "rune_tail c (t @ s) = Some (length t)"
    using rune_tail_take(1) [of c t "length t" s] by (simp add: is_rune_def)
  ultimately show ?thesis by (simp add: 2(1) unquote.simps(2))
qed (use assms in simp)

lemma unquote_simple:
  "escape_char e \<Longrightarrow> unquote (backslash # e # s) = simple_escape e # unquote s"
  by (auto simp: unquote.simps(2) getu4_def escape_char_def)

lemma unquote_u4:
  assumes "\<forall>x\<in>{a, b, c, d}. is_hex x" "\<not> is_surrogate (hex4 [a, b, c, d])"
  shows "unquote (backslash # CHR ''u'' # a # b # c # d # s) = encode_rune (hex4 [a, b, c, d]) @ unquote s"
  using assms by (simp add: unquote.simps(2) getu4_def hex4_def numeral_eq_Suc)

lemma unquote_esc_ascii:
  assumes "byte_of c < 0x80"
  shows "unquote (esc_ascii c @ s) = c # unquote s"
proof -
  consider "c = backslash \<or> c = quote_char" | "byte_of c \<in> {8, 9, 10, 12, 13}"
    | "byte_of c < 32 \<or> c \<in> set ''<>&''" "byte_of c \<notin> {8, 9, 10, 12, 13}" "c \<noteq> backslash" "c \<noteq> quote_char"
    | "32 \<le> byte_of c" "c \<notin> set ''<>&''" "byte_of c \<notin> {8, 9, 10, 12, 13}" "c \<noteq> backslash" "c \<noteq> quote_char"
    by force
  then show ?thesis
  proof cases
    case 1
    then show ?thesis by (auto simp: esc_ascii_def unquote_simple escape_char_def simple_escape_def)
  next
    case 2
    have "c = char_of n" if "byte_of c = n" for n using that by auto
    with 2 have "c \<in> {char_of (8::nat), char_of (9::nat), char_of (10::nat), char_of (12::nat), char_of (13::nat)}"
      by blast
    then have "c \<in> {CHR 0x08, CHR 0x09, CHR 0x0A, CHR 0x0C, CHR 0x0D}" by (simp add: char_of_def bit_0)
    then show ?thesis
      by (elim insertE emptyE) (simp_all add: esc_ascii_def unquote_simple escape_char_def simple_escape_def)
  next
    case 3
    let ?h = "low_hex (byte_of c div 16)" and ?l = "low_hex (byte_of c mod 16)"
    from assms have d: "byte_of c div 16 < 16" by simp
    have h: "hex4 [CHR ''0'', CHR ''0'', ?h, ?l] = byte_of c"
      using low_hex_props(2) [OF d] low_hex_props(2) [of "byte_of c mod 16"]
      by (simp add: hex4_def unhex_def is_digit_def)
    have "unquote (esc_ascii c @ s) = unquote (backslash # CHR ''u'' # CHR ''0'' # CHR ''0'' # ?h # ?l # s)"
      using 3 by (simp add: esc_ascii_def)
    also have "\<dots> = encode_rune (byte_of c) @ unquote s"
      by (subst unquote_u4) (use assms d h in \<open>simp_all add: low_hex_props is_surrogate_def
          is_hex_def [of "CHR ''0''"] is_digit_def [of "CHR ''0''"]\<close>)
    finally show ?thesis using assms by (simp add: encode_rune_ascii)
  next
    case 4
    then show ?thesis using assms by (simp add: esc_ascii_def unquote_plain)
  qed
qed

text \<open>The runes that occur in the split of a string.\<close>

definition rune_ok :: "string option \<Rightarrow> bool" where
  "rune_ok r \<longleftrightarrow> (case r of None \<Rightarrow> True | Some w \<Rightarrow> is_rune w)"

lemma runes_ok: "\<forall>r\<in>set (runes s). rune_ok r"
  using runes_are_runes by (auto simp: rune_ok_def split: option.splits)

lemma unquote_esc_rune:
  assumes "rune_ok r"
  shows "unquote (esc_rune r @ s) = rune_text r @ unquote s"
proof (cases r)
  case None
  have "unquote (backslash # CHR ''u'' # CHR ''f'' # CHR ''f'' # CHR ''f'' # CHR ''d'' # s) = bad_rune @ unquote s"
    by (subst unquote_u4) (simp_all add: hex4_def is_hex_def unhex_def is_digit_def is_surrogate_def
        encode_rune_def bad_rune_def char_of_def bit_0)
  with None show ?thesis by (simp add: esc_rune_def rune_text_def)
next
  case (Some w)
  with assms have w: "is_rune w" by (simp add: rune_ok_def)
  consider "length w = 1" | "w = [CHR 0xE2, CHR 0x80, CHR 0xA8]" | "w = [CHR 0xE2, CHR 0x80, CHR 0xA9]"
    | "length w \<noteq> 1" "w \<noteq> [CHR 0xE2, CHR 0x80, CHR 0xA8]" "w \<noteq> [CHR 0xE2, CHR 0x80, CHR 0xA9]" by blast
  then show ?thesis
  proof cases
    case 1
    then obtain c where "w = [c]" by (cases w) auto
    with w Some show ?thesis by (simp add: esc_rune_def rune_text_def unquote_esc_ascii)
  next
    case 2
    have "unquote (backslash # CHR ''u'' # CHR ''2'' # CHR ''0'' # CHR ''2'' # CHR ''8'' # s) = w @ unquote s"
      by (subst unquote_u4) (simp_all add: 2 hex4_def is_hex_def unhex_def is_digit_def is_surrogate_def encode_rune_def char_of_def bit_0)
    with 2 Some show ?thesis by (simp add: esc_rune_def rune_text_def)
  next
    case 3
    have "unquote (backslash # CHR ''u'' # CHR ''2'' # CHR ''0'' # CHR ''2'' # CHR ''9'' # s) = w @ unquote s"
      by (subst unquote_u4) (simp_all add: 3 hex4_def is_hex_def unhex_def is_digit_def is_surrogate_def encode_rune_def char_of_def bit_0)
    with 3 Some show ?thesis by (simp add: esc_rune_def rune_text_def)
  next
    case 4
    with w Some show ?thesis by (simp add: esc_rune_def rune_text_def unquote_rune)
  qed
qed

lemma unquote_escape: "unquote (escape s) = valid_text s"
proof -
  have "unquote (concat (map esc_rune rs)) = concat (map rune_text rs)" if "\<forall>r\<in>set rs. rune_ok r" for rs
    using that by (induction rs) (simp_all add: unquote_esc_rune)
  from this [OF runes_ok [of s]] show ?thesis by (simp add: escape_def valid_text_def)
qed

text \<open>The scanner runs through a literal.\<close>

lemma scan_append: "scan_all (s @ t) sc = bind_res (scan_all s sc) (scan_all t)"
  by (induction s arbitrary: sc) (simp_all add: bind_res_def split: sum.splits)

lemma scan_plain:
  assumes "\<forall>c\<in>set w. 32 \<le> byte_of c \<and> c \<noteq> quote_char \<and> c \<noteq> backslash"
  shows "scan_all w (InString InText acc, st) = Inr (InString InText (rev w @ acc), st)"
  using assms by (induction w arbitrary: acc) (simp_all add: in_string_def)

lemma scan_escape_char:
  "escape_char e \<Longrightarrow> scan_all [backslash, e] (InString InText acc, st) = Inr (InString InText (e # backslash # acc), st)"
  by (simp add: in_string_def)

lemma scan_u4:
  "\<forall>x\<in>{a, b, c, d}. is_hex x \<Longrightarrow>
     scan_all [backslash, CHR ''u'', a, b, c, d] (InString InText acc, st) =
       Inr (InString InText (d # c # b # a # CHR ''u'' # backslash # acc), st)"
  by (simp add: in_string_def escape_char_def)

lemma scan_esc_ascii:
  assumes "byte_of c < 0x80"
  shows "scan_all (esc_ascii c) (InString InText acc, st) = Inr (InString InText (rev (esc_ascii c) @ acc), st)"
proof -
  have "byte_of c div 16 < 16" "byte_of c mod 16 < 16" using assms by simp_all
  then have "scan_all [backslash, CHR ''u'', CHR ''0'', CHR ''0'', low_hex (byte_of c div 16), low_hex (byte_of c mod 16)]
      (InString InText acc, st) = Inr (InString InText (low_hex (byte_of c mod 16) # low_hex (byte_of c div 16) #
        CHR ''0'' # CHR ''0'' # CHR ''u'' # backslash # acc), st)"
    by (subst scan_u4) (simp_all add: low_hex_props is_hex_def [of "CHR ''0''"] is_digit_def [of "CHR ''0''"])
  then show ?thesis
    by (simp add: esc_ascii_def scan_escape_char escape_char_def scan_plain del: scan_all.simps)
qed

lemma scan_esc_rune:
  assumes "rune_ok r"
  shows "scan_all (esc_rune r) (InString InText acc, st) = Inr (InString InText (rev (esc_rune r) @ acc), st)"
proof (cases r)
  case None
  have "scan_all (backslash # ''ufffd'') (InString InText acc, st) =
      Inr (InString InText (rev (backslash # ''ufffd'') @ acc), st)"
    by (subst scan_u4) (simp_all add: is_hex_def)
  with None show ?thesis by (simp add: esc_rune_def del: scan_all.simps)
next
  case (Some w)
  with assms have w: "is_rune w" by (simp add: rune_ok_def)
  then show ?thesis
  proof (cases rule: is_rune_cases)
    case (1 c)
    with Some show ?thesis by (simp add: esc_rune_def scan_esc_ascii)
  next
    case (2 c t)
    have "scan_all w (InString InText acc, st) = Inr (InString InText (rev w @ acc), st)"
      using 2(4) by (intro scan_plain) auto
    moreover have "scan_all (backslash # ''u2028'') (InString InText acc, st) =
        Inr (InString InText (rev (backslash # ''u2028'') @ acc), st)"
      "scan_all (backslash # ''u2029'') (InString InText acc, st) =
        Inr (InString InText (rev (backslash # ''u2029'') @ acc), st)"
      by (subst scan_u4; simp add: is_hex_def is_digit_def)+
    moreover from 2 have "length w \<noteq> 1" by simp
    ultimately show ?thesis using Some by (simp add: esc_rune_def del: scan_all.simps)
  qed
qed

lemma scan_escape:
  "scan_all (escape s) (InString InText [], st) = Inr (InString InText (rev (escape s)), st)"
proof -
  have "scan_all (concat (map esc_rune rs)) (InString InText acc, st) =
      Inr (InString InText (rev (concat (map esc_rune rs)) @ acc), st)" if "\<forall>r\<in>set rs. rune_ok r" for rs acc
    using that by (induction rs arbitrary: acc) (simp_all add: scan_append scan_esc_rune)
  from this [OF runes_ok [of s], of "[]"] show ?thesis by (simp add: escape_def)
qed

lemma scan_quote_tail:
  "scan_all (escape s @ [quote_char]) (InString InText [], st) = Inr (complete_value (JStr (valid_text s)) st)"
  by (simp add: scan_append scan_escape in_string_def unquote_escape)

lemma scan_quote:
  "scan_all (quote s @ t) (BeginValue, st) = scan_all t (complete_value (JStr (valid_text s)) st)"
  "scan_all (quote s @ t) (BeginString, st) = scan_all t (complete_value (JStr (valid_text s)) st)"
  "scan_all (quote s @ t) (BeginStringOrEmpty, st) = scan_all t (complete_value (JStr (valid_text s)) st)"
proof -
  have "scan_all (quote s @ t) (p, st) = scan_all t (complete_value (JStr (valid_text s)) st)"
    if "scan_step quote_char (p, st) = Inr (InString InText [], st)" for p
  proof -
    have "scan_all (quote s @ t) (p, st) = scan_all ((escape s @ [quote_char]) @ t) (InString InText [], st)"
      by (simp add: quote_def that)
    then show ?thesis by (simp only: scan_append [of "escape s @ [quote_char]"] scan_quote_tail bind_res_simps)
  qed
  then show "scan_all (quote s @ t) (BeginValue, st) = scan_all t (complete_value (JStr (valid_text s)) st)"
    "scan_all (quote s @ t) (BeginString, st) = scan_all t (complete_value (JStr (valid_text s)) st)"
    "scan_all (quote s @ t) (BeginStringOrEmpty, st) = scan_all t (complete_value (JStr (valid_text s)) st)"
    by (simp_all add: begin_value_def is_space_def is_digit_def)
qed

section \<open>Reading back a value\<close>

text \<open>What becomes of a value on the way through its text: bytes that are not UTF-8 become
  U+FFFD. The lemmas are about values with integers for numbers, as the program writes
  them.\<close>

fun valid_json :: "json \<Rightarrow> json" where
  "valid_json (JStr s) = JStr (valid_text s)"
| "valid_json (JArr vs) = JArr (map valid_json vs)"
| "valid_json (JObj kvs) = JObj (map (\<lambda>(k, v). (valid_text k, valid_json v)) kvs)"
| "valid_json v = v"

fun json_ints :: "json \<Rightarrow> bool" where
  "json_ints (JNum l) \<longleftrightarrow> (\<exists>n. l = format_int n)"
| "json_ints (JArr vs) \<longleftrightarrow> (\<forall>v\<in>set vs. json_ints v)"
| "json_ints (JObj kvs) \<longleftrightarrow> (\<forall>(k, v)\<in>set kvs. json_ints v)"
| "json_ints v \<longleftrightarrow> True"

fun json_depth :: "json \<Rightarrow> nat" where
  "json_depth (JArr vs) = Suc (foldr max (map json_depth vs) 0)"
| "json_depth (JObj kvs) = Suc (foldr max (map (\<lambda>(k, v). json_depth v) kvs) 0)"
| "json_depth v = 0"

lemma foldr_max_le: "foldr max ns 0 \<le> (m::nat) \<longleftrightarrow> (\<forall>n\<in>set ns. n \<le> m)"
  by (induction ns) auto

text \<open>The innermost frame waits for a value, not for a key.\<close>

fun value_due :: "frame list \<Rightarrow> bool" where
  "value_due (KeyFrame kvs # st) \<longleftrightarrow> False"
| "value_due st \<longleftrightarrow> True"

definition delimiter :: "char \<Rightarrow> bool" where
  "delimiter c \<longleftrightarrow> is_space c \<or> c \<in> set '',]}''"

lemma scan_after_value: "value_due st \<Longrightarrow> scan_step c (complete_value v st) = end_value c (complete_value v st)"
  by (induction st rule: value_due.induct) simp_all

lemma delimiter_not_digit: "delimiter c \<Longrightarrow> \<not> is_digit c \<and> c \<notin> set ''.eE''"
  by (auto simp: delimiter_def is_space_def is_digit_def)

lemma scan_number_end:
  assumes "value_due st" "delimiter c" "n \<in> {NumZero, NumInt}"
  shows "scan_all (c # t) (InNumber n acc, st) = scan_all (c # t) (complete_value (JNum (rev acc)) st)"
  using assms delimiter_not_digit [OF assms(2)] by (auto simp: scan_after_value num_final_def)

lemma scan_digits:
  "\<forall>c\<in>set ds. is_digit c \<Longrightarrow> scan_all ds (InNumber NumInt acc, st) = Inr (InNumber NumInt (rev ds @ acc), st)"
  by (induction ds arbitrary: acc) simp_all

lemma format_nat_shape:
  "n = 0 \<and> format_nat n = ''0''
   \<or> (\<exists>c ds. format_nat n = c # ds \<and> is_digit c \<and> c \<noteq> CHR ''0'' \<and> (\<forall>x\<in>set ds. is_digit x))"
proof (induction n rule: format_nat.induct)
  case (1 n)
  consider "n = 0" | "0 < n" "n < 10" | "10 \<le> n" by linarith
  then show ?case
  proof cases
    case 1
    then show ?thesis by (simp add: format_nat.simps [of 0] digit_char_def char_of_def bit_0)
  next
    case 2
    have "digit_char n \<noteq> CHR ''0''"
    proof
      assume "digit_char n = CHR ''0''"
      then have "digit_val (digit_char n) = 0" by (simp add: digit_val_def)
      with 2 show False by (simp add: digit_char_props)
    qed
    with 2 show ?thesis by (simp add: format_nat.simps [of n] digit_char_props)
  next
    case 3
    with "1" obtain c ds where "format_nat (n div 10) = c # ds" "is_digit c" "c \<noteq> CHR ''0''" "\<forall>x\<in>set ds. is_digit x"
      by fastforce
    with 3 show ?thesis by (simp add: format_nat.simps [of n] digit_char_props)
  qed
qed

lemma scan_nat:
  assumes "p = BeginValue \<and> acc = [] \<or> p = InNumber NumSign acc"
  shows "\<exists>n\<in>{NumZero, NumInt}. scan_all (format_nat k) (p, st) = Inr (InNumber n (rev (format_nat k) @ acc), st)"
  using format_nat_shape [of k]
proof (elim disjE exE conjE)
  assume "format_nat k = ''0''"
  with assms show ?thesis by (auto simp: begin_value_def is_space_def)
next
  fix c ds
  assume c: "format_nat k = c # ds" "is_digit c" "c \<noteq> CHR ''0''" "\<forall>x\<in>set ds. is_digit x"
  then have "\<not> is_space c" "c \<notin> set ''{[-'' " "c \<noteq> quote_char" by (auto simp: is_digit_def is_space_def)
  with c assms have "scan_all (format_nat k) (p, st) = Inr (InNumber NumInt (rev (format_nat k) @ acc), st)"
    by (auto simp: begin_value_def scan_digits)
  then show ?thesis by blast
qed

lemma scan_int:
  assumes "value_due st" "delimiter c"
  shows "scan_all (format_int i @ c # t) (BeginValue, st) = scan_all (c # t) (complete_value (JNum (format_int i)) st)"
proof -
  have "\<exists>n\<in>{NumZero, NumInt}. scan_all (format_int i) (BeginValue, st) = Inr (InNumber n (rev (format_int i)), st)"
  proof (cases "i < 0")
    case True
    with scan_nat [of "InNumber NumSign ''-''" "''-''" "nat (- i)" st] show ?thesis
      by (simp add: format_int_def begin_value_def is_space_def)
  next
    case False
    with scan_nat [of BeginValue "[]" "nat i" st] show ?thesis by (simp add: format_int_def)
  qed
  then obtain n where "n \<in> {NumZero, NumInt}"
      "scan_all (format_int i) (BeginValue, st) = Inr (InNumber n (rev (format_int i)), st)" by blast
  then show ?thesis using scan_number_end [OF assms, of n] by (simp only: scan_append bind_res_simps rev_rev_ident)
qed

text \<open>White space between the tokens.\<close>

definition between :: "scan_phase \<Rightarrow> bool" where
  "between p \<longleftrightarrow> p \<in> {BeginValue, BeginValueOrEmpty, BeginString, BeginStringOrEmpty, AfterKey, EndValue}"

lemma scan_spaces:
  "between p \<Longrightarrow> \<forall>c\<in>set w. is_space c \<Longrightarrow> scan_all (w @ t) (p, st) = scan_all t (p, st)"
  by (induction w) (auto simp: between_def begin_value_def end_value_def)

lemma new_line_spaces: "\<forall>c\<in>set (new_line ind d). is_space c"
  by (auto simp: new_line_def is_space_def)

lemmas scan_new_line = scan_spaces [OF _ new_line_spaces]

lemma new_line_delimiter: "\<exists>c u. new_line ind d @ x # t = c # u \<and> (delimiter x \<longrightarrow> delimiter c)"
  by (cases ind) (simp_all add: new_line_def delimiter_def is_space_def)

lemma print_head:
  assumes "json_ints v"
  obtains c s where "print_json ind d v = c # s" "\<not> is_space c" "c \<noteq> CHR '']''"
proof -
  have "\<exists>c s. print_json ind d v = c # s \<and> \<not> is_space c \<and> c \<noteq> CHR '']''"
  proof (cases v)
    case (JNum l)
    with assms obtain i where l: "l = format_int i" by auto
    from format_nat_shape [of "nat i"] have "\<exists>c ds. format_nat (nat i) = c # ds \<and> is_digit c"
      by (auto simp: is_digit_def)
    then show ?thesis using JNum l by (auto simp: format_int_def is_digit_def is_space_def)
  qed (auto simp: quote_def bracket_def is_space_def)
  then show thesis using that by blast
qed

lemma begin_value_or_empty:
  "\<not> is_space c \<Longrightarrow> c \<noteq> CHR '']'' \<Longrightarrow> scan_all (c # s) (BeginValueOrEmpty, st) = scan_all (c # s) (BeginValue, st)"
  by simp

text \<open>A list of elements or members, each of which scans as a value in its place, up to the
  closing bracket.\<close>

lemma scan_elements:
  assumes "vs \<noteq> []"
    and "\<And>v c u acc. v \<in> set vs \<Longrightarrow> delimiter c \<Longrightarrow>
      scan_all (print_json ind (Suc d) v @ c # u) (BeginValue, ArrayFrame acc # st) =
        scan_all (c # u) (EndValue, ArrayFrame (valid_json v # acc) # st)"
  shows "scan_all (separate (CHR '','' # new_line ind (Suc d)) (map (print_json ind (Suc d)) vs) @ new_line ind d @ CHR '']'' # t)
      (BeginValue, ArrayFrame acc # st) = scan_all t (complete_value (JArr (rev acc @ map valid_json vs)) st)"
  using assms
proof (induction vs arbitrary: acc rule: induct_list012)
  case (2 v)
  obtain c u where cu: "new_line ind d @ CHR '']'' # t = c # u" "delimiter c"
    using new_line_delimiter [of ind d "CHR '']''" t] by (auto simp: delimiter_def)
  have "scan_all (c # u) (EndValue, ArrayFrame (valid_json v # acc) # st) =
      scan_all t (complete_value (JArr (rev (valid_json v # acc))) st)"
    unfolding cu(1) [symmetric]
    by (subst scan_new_line) (simp_all add: between_def end_value_def is_space_def)
  then show ?case using 2(2) [OF _ cu(2), of v u acc] by (simp add: cu(1))
next
  case (3 v w vs)
  let ?rest = "separate (CHR '','' # new_line ind (Suc d)) (map (print_json ind (Suc d)) (w # vs)) @ new_line ind d @ CHR '']'' # t"
  have "scan_all (print_json ind (Suc d) v @ CHR '','' # new_line ind (Suc d) @ ?rest) (BeginValue, ArrayFrame acc # st) =
      scan_all (CHR '','' # new_line ind (Suc d) @ ?rest) (EndValue, ArrayFrame (valid_json v # acc) # st)"
    by (rule "3.prems"(2)) (simp_all add: delimiter_def)
  also have "\<dots> = scan_all ?rest (BeginValue, ArrayFrame (valid_json v # acc) # st)"
    using scan_new_line [of BeginValue ind "Suc d" ?rest]
    by (simp add: end_value_def is_space_def between_def)
  also have "\<dots> = scan_all t (complete_value (JArr (rev (valid_json v # acc) @ map valid_json (w # vs))) st)"
    by (rule "3.IH"(2)) (use "3.prems"(2) in auto)
  finally show ?case by simp
qed simp

definition print_member :: "bool \<Rightarrow> nat \<Rightarrow> string \<times> json \<Rightarrow> string" where
  "print_member ind d = (\<lambda>(k, v). quote k @ (if ind then '': '' else '':'') @ print_json ind d v)"

definition valid_member :: "string \<times> json \<Rightarrow> string \<times> json" where
  "valid_member = (\<lambda>(k, v). (valid_text k, valid_json v))"

lemma scan_member:
  assumes "scan_all (print_json ind d v @ s) (BeginValue, ValueFrame acc (valid_text k) # st) = r"
    and "p = BeginString \<or> p = BeginStringOrEmpty"
  shows "scan_all (print_member ind d (k, v) @ s) (p, KeyFrame acc # st) = r"
proof -
  have "scan_all (quote k @ t) (p, KeyFrame acc # st) = scan_all t (AfterKey, ValueFrame acc (valid_text k) # st)" for t
    using assms(2) by (auto simp: scan_quote)
  with assms(1) show ?thesis
    by (cases ind) (simp_all add: print_member_def is_space_def begin_value_def)
qed

lemma scan_members:
  assumes "kvs \<noteq> []"
    and "\<And>kv c u p acc. kv \<in> set kvs \<Longrightarrow> delimiter c \<Longrightarrow> p = BeginString \<or> p = BeginStringOrEmpty \<Longrightarrow>
      scan_all (print_member ind (Suc d) kv @ c # u) (p, KeyFrame acc # st) =
        scan_all (c # u) (EndValue, KeyFrame (valid_member kv # acc) # st)"
    and "p = BeginString \<or> p = BeginStringOrEmpty"
  shows "scan_all (separate (CHR '','' # new_line ind (Suc d)) (map (print_member ind (Suc d)) kvs) @ new_line ind d @ CHR ''}'' # t)
      (p, KeyFrame acc # st) = scan_all t (complete_value (JObj (rev acc @ map valid_member kvs)) st)"
  using assms
proof (induction kvs arbitrary: acc p rule: induct_list012)
  case (2 v)
  obtain c u where cu: "new_line ind d @ CHR ''}'' # t = c # u" "delimiter c"
    using new_line_delimiter [of ind d "CHR ''}''" t] by (auto simp: delimiter_def)
  have "scan_all (c # u) (EndValue, KeyFrame (valid_member v # acc) # st) =
      scan_all t (complete_value (JObj (rev (valid_member v # acc))) st)"
    unfolding cu(1) [symmetric]
    by (subst scan_new_line) (simp_all add: between_def end_value_def is_space_def)
  then show ?case using 2(2) [OF _ cu(2) 2(3), of v u acc] by (simp add: cu(1))
next
  case (3 v w kvs)
  let ?rest = "separate (CHR '','' # new_line ind (Suc d)) (map (print_member ind (Suc d)) (w # kvs)) @ new_line ind d @ CHR ''}'' # t"
  have "scan_all (print_member ind (Suc d) v @ CHR '','' # new_line ind (Suc d) @ ?rest) (p, KeyFrame acc # st) =
      scan_all (CHR '','' # new_line ind (Suc d) @ ?rest) (EndValue, KeyFrame (valid_member v # acc) # st)"
    by (rule "3.prems"(2)) (use "3.prems"(3) in \<open>simp_all add: delimiter_def\<close>)
  also have "\<dots> = scan_all ?rest (BeginString, KeyFrame (valid_member v # acc) # st)"
    using scan_new_line [of BeginString ind "Suc d" ?rest]
    by (simp add: end_value_def is_space_def between_def)
  also have "\<dots> = scan_all t (complete_value (JObj (rev (valid_member v # acc) @ map valid_member (w # kvs))) st)"
    by (rule "3.IH"(2)) (use "3.prems"(2) in auto)
  finally show ?case by simp
qed simp

lemma print_json_obj:
  "print_json ind d (JObj kvs) = bracket ind d (CHR ''{'') (CHR ''}'') (map (print_member ind (Suc d)) kvs)"
  by (simp add: print_member_def)

lemma valid_json_obj: "valid_json (JObj kvs) = JObj (map valid_member kvs)"
  by (simp add: valid_member_def)

text \<open>An array and an object, given that each of their values is read back.\<close>

lemma scan_array:
  assumes element: "\<And>v c u acc. v \<in> set vs \<Longrightarrow> delimiter c \<Longrightarrow>
      scan_all (print_json ind (Suc d) v @ c # u) (BeginValue, ArrayFrame acc # st) =
      scan_all (c # u) (EndValue, ArrayFrame (valid_json v # acc) # st)"
    and ints: "json_ints (JArr vs)" and sp: "length st < max_depth"
  shows "scan_all (print_json ind d (JArr vs) @ t) (BeginValue, st) = scan_all t (complete_value (valid_json (JArr vs)) st)"
proof (cases vs)
  case Nil
  with sp show ?thesis
    by (simp add: bracket_def begin_value_def end_value_def push_frame_def is_space_def is_digit_def)
next
  case (Cons w ws)
  let ?body = "separate (CHR '','' # new_line ind (Suc d)) (map (print_json ind (Suc d)) vs) @ new_line ind d @ CHR '']'' # t"
  have "scan_all (print_json ind d (JArr vs) @ t) (BeginValue, st) =
      scan_all (new_line ind (Suc d) @ ?body) (BeginValueOrEmpty, ArrayFrame [] # st)"
    using Cons sp by (simp add: bracket_def begin_value_def push_frame_def is_space_def is_digit_def)
  also have "\<dots> = scan_all ?body (BeginValueOrEmpty, ArrayFrame [] # st)"
    by (rule scan_new_line) (simp add: between_def)
  also have "\<dots> = scan_all ?body (BeginValue, ArrayFrame [] # st)"
  proof -
    from ints Cons have "json_ints w" by simp
    then obtain c s where "print_json ind (Suc d) w = c # s" "\<not> is_space c" "c \<noteq> CHR '']''" by (rule print_head)
    moreover have "\<exists>u. ?body = print_json ind (Suc d) w @ u" using Cons by (cases ws) auto
    ultimately show ?thesis using begin_value_or_empty by force
  qed
  also have "\<dots> = scan_all t (complete_value (JArr (rev [] @ map valid_json vs)) st)"
    by (rule scan_elements) (use Cons in simp, rule element)
  finally show ?thesis by simp
qed

lemma scan_object:
  assumes member: "\<And>k v c u acc. (k, v) \<in> set kvs \<Longrightarrow> delimiter c \<Longrightarrow>
      scan_all (print_json ind (Suc d) v @ c # u) (BeginValue, ValueFrame acc (valid_text k) # st) =
      scan_all (c # u) (EndValue, KeyFrame (valid_member (k, v) # acc) # st)"
    and sp: "length st < max_depth"
  shows "scan_all (print_json ind d (JObj kvs) @ t) (BeginValue, st) = scan_all t (complete_value (valid_json (JObj kvs)) st)"
proof (cases kvs)
  case Nil
  with sp show ?thesis
    by (simp add: bracket_def begin_value_def end_value_def push_frame_def is_space_def is_digit_def)
next
  case (Cons w ws)
  let ?body = "separate (CHR '','' # new_line ind (Suc d)) (map (print_member ind (Suc d)) kvs) @ new_line ind d @ CHR ''}'' # t"
  have "scan_all (print_json ind d (JObj kvs) @ t) (BeginValue, st) =
      scan_all (new_line ind (Suc d) @ ?body) (BeginStringOrEmpty, KeyFrame [] # st)"
    unfolding print_json_obj
    using Cons sp by (simp add: bracket_def begin_value_def push_frame_def is_space_def is_digit_def)
  also have "\<dots> = scan_all ?body (BeginStringOrEmpty, KeyFrame [] # st)"
    by (rule scan_new_line) (simp add: between_def)
  also have "\<dots> = scan_all t (complete_value (JObj (rev [] @ map valid_member kvs)) st)"
  proof (rule scan_members)
    fix kv c u p acc
    assume kv: "kv \<in> set kvs" and c: "delimiter c" and p: "p = BeginString \<or> p = BeginStringOrEmpty"
    obtain k v where k: "kv = (k, v)" by (cases kv)
    show "scan_all (print_member ind (Suc d) kv @ c # u) (p, KeyFrame acc # st) =
        scan_all (c # u) (EndValue, KeyFrame (valid_member kv # acc) # st)"
      unfolding k by (rule scan_member [OF member p]) (use kv c k in simp_all)
  qed (use Cons in simp_all)
  finally show ?thesis by (simp only: valid_json_obj rev.simps append_Nil)
qed

theorem scan_print:
  assumes "json_ints v" "value_due st" "length st + json_depth v \<le> max_depth"
    and "(\<forall>l. v \<noteq> JNum l) \<or> (\<exists>c u. t = c # u \<and> delimiter c)"
  shows "scan_all (print_json ind d v @ t) (BeginValue, st) = scan_all t (complete_value (valid_json v) st)"
  using assms
proof (induction v arbitrary: d st t)
  case (JNum l)
  then show ?case by (auto simp: scan_int)
next
  case (JStr s)
  then show ?case by (simp add: scan_quote)
next
  case (JArr vs)
  show ?case
  proof (rule scan_array)
    fix v c u acc
    assume v: "v \<in> set vs" and c: "delimiter c"
    have "json_depth v \<le> foldr max (map json_depth vs) 0" using v foldr_max_le [of "map json_depth vs" "foldr max (map json_depth vs) 0"] by simp
    then show "scan_all (print_json ind (Suc d) v @ c # u) (BeginValue, ArrayFrame acc # st) =
        scan_all (c # u) (EndValue, ArrayFrame (valid_json v # acc) # st)"
      using JArr.IH [OF v, of "ArrayFrame acc # st" "c # u" "Suc d"] JArr.prems c v by simp
  qed (use JArr.prems in simp_all)
next
  case (JObj kvs)
  show ?case
  proof (rule scan_object)
    fix k v c u acc
    assume kv: "(k, v) \<in> set kvs" and c: "delimiter c"
    have "json_depth v \<le> foldr max (map (\<lambda>(k, v). json_depth v) kvs) 0"
      using kv foldr_max_le [of "map (\<lambda>(k, v). json_depth v) kvs" "foldr max (map (\<lambda>(k, v). json_depth v) kvs) 0"] by force
    then show "scan_all (print_json ind (Suc d) v @ c # u) (BeginValue, ValueFrame acc (valid_text k) # st) =
        scan_all (c # u) (EndValue, KeyFrame (valid_member (k, v) # acc) # st)"
      using JObj.IH [OF kv, of v "ValueFrame acc (valid_text k) # st" "c # u" "Suc d"] JObj.prems c kv
      by (auto simp: valid_member_def)
  qed (use JObj.prems in simp)
qed (simp_all add: begin_value_def is_space_def is_digit_def)

corollary parse_print:
  assumes "json_ints v" "json_depth v \<le> max_depth" "\<forall>l. v \<noteq> JNum l"
  shows "parse_json (print_json ind d v) = Inr (valid_json v)"
  using scan_print [of v "[]" "[]" ind d] assms by (simp add: parse_json_def scan_eof_def)

end
