(* ===== verification/Types.thy ===== *)
theory Types
  imports Json
begin

text \<open>
  The data model of \<open>config.go\<close>: the entries of the configuration with the fields
  of their Go structs, the configuration file, and one constructor per error the
  validation and the store return. Go's \<open>int\<close> fields are \<^typ>\<open>int\<close>: the code
  compares and copies them and never computes with them.
\<close>

record route =
  rt_prefix :: string
  rt_target :: string
  rt_strip :: bool
  rt_desc :: string
  rt_enabled :: bool
  rt_max :: int

record http_site =
  hs_host :: string
  hs_desc :: string
  hs_routes :: "route list"

record forward =
  fw_name :: string
  fw_proto :: string
  fw_listen :: string
  fw_target :: string
  fw_proxy_proto :: bool
  fw_desc :: string
  fw_enabled :: bool

record dnat_rule =
  dn_name :: string
  dn_proto :: string
  dn_port :: int
  dn_target :: string
  dn_snat :: bool
  dn_desc :: string
  dn_enabled :: bool

record port_forward =
  pf_port :: int
  pf_target :: string
  pf_manage :: bool
  pf_backend_tls :: bool
  pf_skip :: bool
  pf_proxy_proto :: bool
  pf_desc :: string
  pf_enabled :: bool

record domain =
  dm_host :: string
  dm_desc :: string
  dm_forwards :: "port_forward list"

record config_file =
  cf_sites :: "http_site list"
  cf_forwards :: "forward list"
  cf_dnat :: "dnat_rule list"
  cf_domains :: "domain list"

section \<open>Errors\<close>

datatype hostport_err =
    NotHostPort addr_err
  | MissingHost
  | InvalidPort string

datatype err =
    BadSiteHost
  | BadPrefix
  | ReservedPrefix string
  | BadBackend url_err
  | BackendScheme
  | BackendHostMissing
  | NegativeConcurrency
  | DuplicatePrefix string
  | BadDomainHost
  | NoForwards
  | PortOutOfRange int
  | DuplicatePort int
  | PortTarget int hostport_err
  | BadName
  | BadForwardProto
  | BadDnatProto
  | DnatPortOutOfRange
  | ListenRequired
  | BadListen hostport_err
  | InternalTarget hostport_err
  | SiteExists string
  | SiteMissing string
  | DomainExists string
  | DomainMissing string
  | ForwardExists string
  | ForwardMissing string
  | ListenInUse string string string
  | RuleExists string
  | RuleMissing string
  | PortInUse string int string
  | RouteCompile string string url_err
  | DomainCompile string int url_err
  | WriteFailed string
  | RenameFailed string
  | ReadFailed string
  | ConfigUnreadable json_err

end
