(* ===== verification/Proxy.thy ===== *)
theory Proxy
  imports Types
begin

text \<open>
  Construction of the reverse proxies (\<open>buildProxy\<close>, \<open>buildTerminateProxy\<close>) and the
  rewriting of a request by their \<open>Director\<close> functions, from \<open>proxy.go\<close>. A proxy is
  the data its closures capture; the director is a function of that data and of
  the request.
\<close>

section \<open>Joining paths\<close>

text \<open>\<open>b[1:]\<close> is only reached when \<open>b\<close> starts with a slash.\<close>

definition singleJoiningSlash :: "string \<Rightarrow> string \<Rightarrow> string" where
  "singleJoiningSlash a b =
     (let aslash = has_suffix a [slash]; bslash = has_prefix b [slash]
      in if aslash \<and> bslash then a @ drop 1 b
         else if \<not> aslash \<and> \<not> bslash then (if a = [] then b else a @ [slash] @ b)
         else a @ b)"

text \<open>Whatever slashes the two parts bring, exactly one stands between them; only an
  empty left part adds none.\<close>

lemma singleJoiningSlash_spec:
  assumes "\<not> has_suffix a [slash]" "\<not> has_prefix b [slash]"
  shows "singleJoiningSlash (a @ [slash]) (slash # b) = a @ slash # b"
    and "singleJoiningSlash (a @ [slash]) b = a @ slash # b"
    and "singleJoiningSlash a (slash # b) = a @ slash # b"
    and "a \<noteq> [] \<Longrightarrow> singleJoiningSlash a b = a @ slash # b"
    and "singleJoiningSlash [] b = b"
  using assms
  by (simp_all add: singleJoiningSlash_def has_suffix_iff has_prefix_Cons_iff)

lemma singleJoiningSlash_rooted:
  "has_prefix b [slash] \<Longrightarrow>
     singleJoiningSlash a b = (if has_suffix a [slash] then butlast a else a) @ b"
  by (auto simp: singleJoiningSlash_def has_prefix_Cons_iff has_suffix_iff)

section \<open>Requests\<close>

text \<open>The parts of \<open>http.Request\<close> the handlers and directors read or write. A header
  is a list of values under its canonical key; the query travels untouched.\<close>

type_synonym header = "(string \<times> string list) list"

record request =
  rq_method :: string
  rq_url_scheme :: string
  rq_url_host :: string
  rq_path :: string
  rq_raw_path :: string
  rq_query :: string
  rq_host :: string
  rq_header :: header
  rq_tls :: bool
  rq_remote :: string

definition header_set :: "string \<Rightarrow> string \<Rightarrow> header \<Rightarrow> header" where
  "header_set k v h = AList.update k [v] h"

definition header_get :: "string \<Rightarrow> header \<Rightarrow> string" where
  "header_get k h = (case map_of h k of Some (v # _) \<Rightarrow> v | _ \<Rightarrow> [])"

definition header_has :: "string \<Rightarrow> header \<Rightarrow> bool" where
  "header_has k h \<longleftrightarrow> map_of h k \<noteq> None"

lemma header_get_set [simp]:
  "header_get k (header_set k' v h) = (if k = k' then v else header_get k h)"
  by (simp add: header_get_def header_set_def update_conv')

lemma header_has_set [simp]: "header_has k (header_set k' v h) \<longleftrightarrow> k = k' \<or> header_has k h"
  by (simp add: header_has_def header_set_def update_conv')

lemma header_get_absent: "\<not> header_has k h \<Longrightarrow> header_get k h = []"
  by (simp add: header_has_def header_get_def)

text \<open>Go's server moves the \<open>Host\<close> header of an incoming request into
  \<open>Request.Host\<close> and removes it from the header map.\<close>

definition server_request :: "request \<Rightarrow> bool" where
  "server_request rq \<longleftrightarrow> \<not> header_has ''Host'' (rq_header rq)"

section \<open>The proxy of a path route\<close>

record transport =
  tr_max_conns :: int
  tr_max_idle :: int

record route_proxy =
  rp_target :: url
  rp_prefix :: string
  rp_strip :: bool
  rp_transport :: transport

definition buildProxy :: "route \<Rightarrow> url_err + route_proxy" where
  "buildProxy r =
     bind_res (url_parse (rt_target r)) (\<lambda>target.
     Inr \<lparr>rp_target = target, rp_prefix = slash # rt_prefix r, rp_strip = rt_strip r,
          rp_transport = (if rt_max r > 0 then \<lparr>tr_max_conns = rt_max r, tr_max_idle = rt_max r\<rparr>
                          else \<lparr>tr_max_conns = 0, tr_max_idle = 100\<rparr>)\<rparr>)"

definition route_path :: "route_proxy \<Rightarrow> string \<Rightarrow> string" where
  "route_path p path =
     (if rp_strip p then (let q = trim_prefix path (rp_prefix p) in if q = [] then [slash] else q)
      else path)"

definition route_director :: "route_proxy \<Rightarrow> request \<Rightarrow> request" where
  "route_director p req0 =
     (let req1 = req0\<lparr>rq_url_scheme := u_scheme (rp_target p), rq_url_host := u_host (rp_target p)\<rparr>;
          path = route_path p (rq_path req1);
          req2 = req1\<lparr>rq_path := singleJoiningSlash (u_path (rp_target p)) path, rq_raw_path := []\<rparr>;
          req3 = req2\<lparr>rq_host := u_host (rp_target p)\<rparr>;
          h1 = (if header_has ''X-Forwarded-Host'' (rq_header req3) then rq_header req3
                else header_set ''X-Forwarded-Host'' (header_get ''Host'' (rq_header req3)) (rq_header req3));
          h2 = header_set ''X-Forwarded-Prefix'' (rp_prefix p) h1;
          h3 = header_set ''X-Forwarded-Proto'' (if rq_tls req3 then ''https'' else ''http'') h2
      in req3\<lparr>rq_header := h3\<rparr>)"

section \<open>The proxy of a terminate-mode domain forward\<close>

text \<open>\<open>tp_tls\<close> is the transport's TLS configuration when the backend speaks TLS:
  whether verification is skipped, and the server name to verify otherwise.\<close>

record term_proxy =
  tp_target :: url
  tp_max_idle :: int
  tp_tls :: "(bool \<times> string) option"

definition buildTerminateProxy :: "string \<Rightarrow> port_forward \<Rightarrow> url_err + term_proxy" where
  "buildTerminateProxy host f =
     (let scheme = (if pf_backend_tls f then ''https'' else ''http'')
      in bind_res (url_parse (scheme @ ''://'' @ pf_target f)) (\<lambda>target.
         Inr \<lparr>tp_target = target, tp_max_idle = 100,
              tp_tls = (if pf_backend_tls f
                        then Some (pf_skip f, if \<not> pf_skip f then url_hostname target else [])
                        else None)\<rparr>))"

definition terminate_director :: "term_proxy \<Rightarrow> request \<Rightarrow> request" where
  "terminate_director p req0 =
     (let req1 = req0\<lparr>rq_url_scheme := u_scheme (tp_target p), rq_url_host := u_host (tp_target p),
            rq_path := singleJoiningSlash (u_path (tp_target p)) (rq_path req0), rq_raw_path := []\<rparr>;
          h1 = (if header_has ''X-Forwarded-Host'' (rq_header req1) then rq_header req1
                else header_set ''X-Forwarded-Host'' (rq_host req1) (rq_header req1));
          h2 = header_set ''X-Forwarded-Proto'' ''https'' h1
      in req1\<lparr>rq_header := h2\<rparr>)"

text \<open>What both proxies answer when the backend cannot be reached.\<close>

definition bad_gateway :: "url \<Rightarrow> string \<Rightarrow> nat \<times> string" where
  "bad_gateway target e =
     (502, ''502 Bad Gateway: backend '' @ u_host target @ '' is unreachable ('' @ e @ '')'')"

lemma buildProxy_Inr_iff:
  "(\<exists>p. buildProxy r = Inr p) \<longleftrightarrow> (\<exists>u. url_parse (rt_target r) = Inr u)"
  by (auto simp: buildProxy_def res_iffs)

lemma buildTerminateProxy_Inr_iff:
  "(\<exists>p. buildTerminateProxy host f = Inr p) \<longleftrightarrow>
     (\<exists>u. url_parse ((if pf_backend_tls f then ''https'' else ''http'') @ ''://'' @ pf_target f) = Inr u)"
  by (auto simp: buildTerminateProxy_def Let_def res_iffs)

lemma buildTerminateProxy_target:
  "buildTerminateProxy host f = Inr p \<Longrightarrow>
     url_parse ((if pf_backend_tls f then ''https'' else ''http'') @ ''://'' @ pf_target f) = Inr (tp_target p)"
  by (auto simp: buildTerminateProxy_def Let_def res_iffs)

text \<open>A target made of a plain host name or IPv4 address and a decimal port always
  yields a proxy.\<close>

definition plain_target :: "string \<Rightarrow> bool" where
  "plain_target t \<longleftrightarrow> (case cut_last colon t of
       None \<Rightarrow> False
     | Some (h, p) \<Rightarrow> (\<forall>c\<in>set h. url_host_byte c) \<and> (\<forall>c\<in>set p. is_digit c))"

lemma scheme_http_lower:
  "\<forall>c\<in>set ''http''. is_lower_ascii c" "\<forall>c\<in>set ''https''. is_lower_ascii c"
  by (simp_all add: is_lower_ascii_def)

lemma plain_target_parse:
  assumes "plain_target t"
  shows "url_parse (''http://'' @ t) = Inr \<lparr>u_scheme = ''http'', u_opaque = [], u_host = t, u_path = []\<rparr>"
    and "url_parse (''https://'' @ t) = Inr \<lparr>u_scheme = ''https'', u_opaque = [], u_host = t, u_path = []\<rparr>"
proof -
  from assms obtain h p where "t = h @ colon # p" "\<forall>c\<in>set h. url_host_byte c" "\<forall>c\<in>set p. is_digit c"
    by (auto simp: plain_target_def cut_last_Some_iff split: option.splits)
  then show "url_parse (''http://'' @ t) = Inr \<lparr>u_scheme = ''http'', u_opaque = [], u_host = t, u_path = []\<rparr>"
    and "url_parse (''https://'' @ t) = Inr \<lparr>u_scheme = ''https'', u_opaque = [], u_host = t, u_path = []\<rparr>"
    using url_parse_plain [of "''http''" h p] url_parse_plain [of "''https''" h p] scheme_http_lower
    by simp_all
qed

lemma plain_target_builds: "plain_target (pf_target f) \<Longrightarrow> \<exists>p. buildTerminateProxy host f = Inr p"
  using plain_target_parse [of "pf_target f"] by (simp add: buildTerminateProxy_Inr_iff)

section \<open>What the directors do to a request\<close>

lemma route_director_frame:
  "rq_method (route_director p rq) = rq_method rq"
  "rq_query (route_director p rq) = rq_query rq"
  "rq_tls (route_director p rq) = rq_tls rq"
  "rq_url_scheme (route_director p rq) = u_scheme (rp_target p)"
  "rq_url_host (route_director p rq) = u_host (rp_target p)"
  "rq_host (route_director p rq) = u_host (rp_target p)"
  "rq_raw_path (route_director p rq) = []"
  "rq_path (route_director p rq) = singleJoiningSlash (u_path (rp_target p)) (route_path p (rq_path rq))"
  by (simp_all add: route_director_def Let_def)

lemma terminate_director_frame:
  "rq_method (terminate_director p rq) = rq_method rq"
  "rq_query (terminate_director p rq) = rq_query rq"
  "rq_host (terminate_director p rq) = rq_host rq"
  "rq_url_scheme (terminate_director p rq) = u_scheme (tp_target p)"
  "rq_url_host (terminate_director p rq) = u_host (tp_target p)"
  "rq_path (terminate_director p rq) = singleJoiningSlash (u_path (tp_target p)) (rq_path rq)"
  by (simp_all add: terminate_director_def Let_def)

lemma route_director_headers:
  "header_get ''X-Forwarded-Prefix'' (rq_header (route_director p rq)) = rp_prefix p"
  "header_get ''X-Forwarded-Proto'' (rq_header (route_director p rq)) = (if rq_tls rq then ''https'' else ''http'')"
  by (simp_all add: route_director_def Let_def)

lemma route_director_forwarded_host:
  assumes "server_request rq"
  shows "header_get ''X-Forwarded-Host'' (rq_header (route_director p rq)) =
    header_get ''X-Forwarded-Host'' (rq_header rq)"
  using assms by (simp add: route_director_def Let_def server_request_def header_get_absent)

lemma terminate_director_headers:
  "header_get ''X-Forwarded-Proto'' (rq_header (terminate_director p rq)) = ''https''"
  "header_get ''X-Forwarded-Host'' (rq_header (terminate_director p rq)) =
     (if header_has ''X-Forwarded-Host'' (rq_header rq) then header_get ''X-Forwarded-Host'' (rq_header rq)
      else rq_host rq)"
  by (simp_all add: terminate_director_def Let_def)

lemmas [model_eval] = singleJoiningSlash_def header_set_def header_get_def header_has_def
  server_request_def buildProxy_def route_path_def route_director_def buildTerminateProxy_def
  terminate_director_def

end
