(* ===== verification/Table.thy ===== *)
theory Table
  imports Types
begin

text \<open>
  The slices of the configuration store are tables: entries with a key, edited
  by \<open>Upsert\<close> (an empty old key adds, another one replaces) and \<open>Delete\<close>
  operations. The loops those operations share are defined here once; the locale
  \<open>keyed_table\<close> states the contract of a table's edit and removal, and derives
  that keys stay unique and that the edits are the updates of a finite map. Its
  extension \<open>slotted_table\<close> adds the second uniqueness the code enforces for
  listeners: no two entries share a slot (protocol and listen address, protocol and
  public port). The tables of the store interpret them in the theory \<open>Store\<close>.
\<close>

section \<open>The shared loops\<close>

text \<open>The body of an \<open>Upsert\<close> once the entry is valid: scan for an entry with the
  same key, then append or replace.\<close>

definition upsert_entry ::
  "('a \<Rightarrow> string) \<Rightarrow> (string \<Rightarrow> string \<Rightarrow> bool) \<Rightarrow> (string \<Rightarrow> err) \<Rightarrow> (string \<Rightarrow> err)
     \<Rightarrow> string \<Rightarrow> 'a \<Rightarrow> 'a list \<Rightarrow> err + 'a list" where
  "upsert_entry key same exists_err missing_err old x xs =
     (let idx = last_idx (\<lambda>e. same (key e) (key x)) xs
      in if old = [] then
           (if idx \<ge> 0 then Inl (exists_err (key x)) else Inr (xs @ [x]))
         else if \<not> same old (key x) \<and> idx \<ge> 0 then Inl (exists_err (key x))
         else (case replace_first (\<lambda>e. same (key e) old) x xs of
                 None \<Rightarrow> Inl (missing_err old)
               | Some ys \<Rightarrow> Inr ys))"

definition delete_entry ::
  "('a \<Rightarrow> string) \<Rightarrow> (string \<Rightarrow> string \<Rightarrow> bool) \<Rightarrow> (string \<Rightarrow> err) \<Rightarrow> string \<Rightarrow> 'a list \<Rightarrow> err + 'a list" where
  "delete_entry key same missing_err k xs =
     (case remove_where (\<lambda>e. same (key e) k) xs of None \<Rightarrow> Inl (missing_err k) | Some ys \<Rightarrow> Inr ys)"

section \<open>Tables as finite maps\<close>

definition key_set :: "('a \<Rightarrow> string) \<Rightarrow> 'a list \<Rightarrow> string set" where
  "key_set ck xs = ck ` set xs"

definition unique_keys :: "('a \<Rightarrow> string) \<Rightarrow> 'a list \<Rightarrow> bool" where
  "unique_keys ck xs \<longleftrightarrow> distinct (map ck xs)"

definition table_map :: "('a \<Rightarrow> string) \<Rightarrow> 'a list \<Rightarrow> (string \<rightharpoonup> 'a)" where
  "table_map ck xs = map_of (map (\<lambda>x. (ck x, x)) xs)"

lemma key_set_iff: "k \<in> key_set ck xs \<longleftrightarrow> (\<exists>x\<in>set xs. ck x = k)"
  by (auto simp: key_set_def)

lemma table_map_Nil [simp]: "table_map ck [] = Map.empty"
  by (simp add: table_map_def)

lemma table_map_Cons [simp]: "table_map ck (x # xs) = (table_map ck xs)(ck x \<mapsto> x)"
  by (simp add: table_map_def)

lemma table_map_append: "table_map ck (xs @ ys) = table_map ck ys ++ table_map ck xs"
  by (simp add: table_map_def)

lemma dom_table_map: "dom (table_map ck xs) = key_set ck xs"
  by (simp add: table_map_def key_set_def dom_map_of_conv_image_fst image_image)

lemma table_map_None_iff: "table_map ck xs k = None \<longleftrightarrow> k \<notin> key_set ck xs"
  by (metis domIff dom_table_map)

lemma table_map_Some:
  "table_map ck xs k = Some x \<Longrightarrow> x \<in> set xs \<and> ck x = k"
  by (induction xs) (auto split: if_splits)

lemma table_map_Some_iff:
  assumes "unique_keys ck xs"
  shows "table_map ck xs k = Some x \<longleftrightarrow> x \<in> set xs \<and> ck x = k"
proof
  assume "x \<in> set xs \<and> ck x = k"
  with assms show "table_map ck xs k = Some x"
    by (auto simp: table_map_def unique_keys_def comp_def intro!: map_of_is_SomeI)
qed (rule table_map_Some)

lemma table_map_filter:
  "table_map ck (filter (\<lambda>x. ck x \<noteq> k) xs) = (table_map ck xs)(k := None)"
  by (induction xs) auto

lemma unique_keys_mid:
  "unique_keys ck (us @ x # vs) \<longleftrightarrow>
     ck x \<notin> key_set ck us \<and> ck x \<notin> key_set ck vs \<and> unique_keys ck (us @ vs)"
  by (auto simp: unique_keys_def key_set_def)

lemma table_map_mid:
  assumes "unique_keys ck (us @ x # vs)"
  shows "table_map ck (us @ x # vs) = (table_map ck (us @ vs))(ck x \<mapsto> x)"
    and "table_map ck (us @ vs) (ck x) = None"
proof -
  have no: "ck x \<notin> dom (table_map ck us)" "ck x \<notin> dom (table_map ck vs)"
    using assms by (simp_all add: unique_keys_mid dom_table_map)
  show "table_map ck (us @ x # vs) = (table_map ck (us @ vs))(ck x \<mapsto> x)"
    using no by (auto simp: table_map_append map_add_def fun_eq_iff split: option.splits)
  show "table_map ck (us @ vs) (ck x) = None"
    using no by (auto simp: table_map_append map_add_def split: option.splits)
qed

section \<open>The contract of a table\<close>

locale keyed_table =
  fixes ck :: "'a \<Rightarrow> string"
    and norm :: "string \<Rightarrow> string"
    and edit :: "string \<Rightarrow> 'a \<Rightarrow> 'a list \<Rightarrow> err + 'a list"
    and remove :: "string \<Rightarrow> 'a list \<Rightarrow> err + 'a list"
  assumes edit_add: "edit [] x xs = Inr ys \<Longrightarrow> ys = xs @ [x] \<and> ck x \<notin> key_set ck xs"
    and edit_update: "old \<noteq> [] \<Longrightarrow> edit old x xs = Inr ys \<Longrightarrow>
      (\<exists>us e vs. xs = us @ e # vs \<and> ys = us @ x # vs \<and> ck e = norm old)
      \<and> (ck x = norm old \<or> ck x \<notin> key_set ck xs)"
    and remove_ok: "remove k xs = Inr ys \<Longrightarrow>
      ys = filter (\<lambda>x. ck x \<noteq> norm k) xs \<and> norm k \<in> key_set ck xs"
    and remove_missing: "norm k \<notin> key_set ck xs \<Longrightarrow> \<exists>e. remove k xs = Inl e"
begin

lemma edit_unique: "unique_keys ck xs \<Longrightarrow> edit old x xs = Inr ys \<Longrightarrow> unique_keys ck ys"
proof (cases "old = []")
  case True
  assume "unique_keys ck xs" "edit old x xs = Inr ys"
  with True edit_add [of x xs ys] show ?thesis
    by (auto simp: unique_keys_def key_set_iff)
next
  case False
  assume u: "unique_keys ck xs" and e: "edit old x xs = Inr ys"
  from edit_update [OF False e] obtain us e vs
    where p: "xs = us @ e # vs" "ys = us @ x # vs" "ck e = norm old"
      and d: "ck x = norm old \<or> ck x \<notin> key_set ck xs" by blast
  from u p(1) have "ck e \<notin> key_set ck us" "ck e \<notin> key_set ck vs" "unique_keys ck (us @ vs)"
    by (simp_all add: unique_keys_mid)
  with p d show ?thesis by (auto simp: unique_keys_mid key_set_iff)
qed

text \<open>An accepted edit is a map update; an update with a new key drops the old one.\<close>

lemma edit_map:
  assumes u: "unique_keys ck xs" and e: "edit old x xs = Inr ys"
  shows "table_map ck ys =
    (if old = [] then table_map ck xs else (table_map ck xs)(norm old := None))(ck x \<mapsto> x)"
proof (cases "old = []")
  case True
  from e True have ys: "ys = xs @ [x]" and new: "ck x \<notin> key_set ck xs"
    using edit_add by blast+
  from u new have "unique_keys ck (xs @ x # [])"
    by (auto simp: unique_keys_def key_set_iff)
  then have "table_map ck (xs @ x # []) = (table_map ck (xs @ []))(ck x \<mapsto> x)"
    by (rule table_map_mid)
  with ys True show ?thesis by simp
next
  case False
  from edit_update [OF False e] obtain us e vs
    where p: "xs = us @ e # vs" "ys = us @ x # vs" "ck e = norm old" by blast
  have uy: "unique_keys ck (us @ x # vs)"
    using edit_unique [OF u e] p(2) by simp
  have ux: "unique_keys ck (us @ e # vs)" using u p(1) by simp
  have rest: "(table_map ck xs)(norm old := None) = table_map ck (us @ vs)"
    using table_map_mid [OF ux] p by auto
  have "table_map ck ys = (table_map ck (us @ vs))(ck x \<mapsto> x)"
    using table_map_mid(1) [OF uy] p(2) by simp
  with rest False show ?thesis by simp
qed

lemma edit_present: "unique_keys ck xs \<Longrightarrow> edit old x xs = Inr ys \<Longrightarrow> table_map ck ys (ck x) = Some x"
  by (simp add: edit_map)

lemma edit_needs_old: "old \<noteq> [] \<Longrightarrow> edit old x xs = Inr ys \<Longrightarrow> norm old \<in> key_set ck xs"
  by (drule edit_update, assumption) (auto simp: key_set_iff)

lemma edit_entries: "edit old x xs = Inr ys \<Longrightarrow> set ys \<subseteq> insert x (set xs)"
  by (cases "old = []") (auto dest: edit_add edit_update)

lemma remove_unique: "unique_keys ck xs \<Longrightarrow> remove k xs = Inr ys \<Longrightarrow> unique_keys ck ys"
  by (drule remove_ok) (simp add: unique_keys_def distinct_map_filter_key)

lemma remove_map: "remove k xs = Inr ys \<Longrightarrow> table_map ck ys = (table_map ck xs)(norm k := None)"
  by (drule remove_ok) (simp add: table_map_filter)

lemma remove_entries: "remove k xs = Inr ys \<Longrightarrow> set ys \<subseteq> set xs"
  by (drule remove_ok) auto

lemma add_then_remove:
  assumes "unique_keys ck xs" "edit [] x xs = Inr ys" "remove k ys = Inr zs" "norm k = ck x"
  shows "zs = xs"
proof -
  from assms(2) have "ys = xs @ [x]" "ck x \<notin> key_set ck xs" using edit_add by blast+
  moreover have "zs = filter (\<lambda>x. ck x \<noteq> norm k) ys" using remove_ok [OF assms(3)] by simp
  ultimately show ?thesis
    using assms(4) by (auto simp: key_set_iff filter_empty_conv intro!: filter_True)
qed

end

locale slotted_table = keyed_table ck norm edit remove
  for ck :: "'a \<Rightarrow> string" and norm edit remove +
  fixes slot :: "'a \<Rightarrow> 'b"
  assumes edit_slot: "edit old x xs = Inr ys \<Longrightarrow> e \<in> set xs \<Longrightarrow> slot e = slot x \<Longrightarrow> ck e = ck x"
begin

lemma edit_slots:
  assumes u: "unique_keys ck xs" and d: "distinct (map slot xs)" and e: "edit old x xs = Inr ys"
  shows "distinct (map slot ys)"
proof (cases "old = []")
  case True
  with e have ys: "ys = xs @ [x]" and new: "ck x \<notin> key_set ck xs" using edit_add by blast+
  have "slot x \<noteq> slot b" if "b \<in> set xs" for b
    using edit_slot [OF e that] new that by (auto simp: key_set_iff)
  with d ys show ?thesis by auto
next
  case False
  from edit_update [OF False e] obtain us a vs
    where p: "xs = us @ a # vs" "ys = us @ x # vs" "ck a = norm old"
      and k: "ck x = norm old \<or> ck x \<notin> key_set ck xs" by blast
  have "slot x \<noteq> slot b" if "b \<in> set us \<union> set vs" for b
  proof
    assume "slot x = slot b"
    with edit_slot [OF e, of b] that p(1) have "ck b = ck x" by auto
    with k that p(1) have "ck b = ck a" using p(3) by (auto simp: key_set_iff)
    with u p(1) that show False by (auto simp: unique_keys_mid key_set_iff)
  qed
  with d p show ?thesis by (auto simp: distinct_map_append_mid)
qed

lemma remove_slots: "distinct (map slot xs) \<Longrightarrow> remove k xs = Inr ys \<Longrightarrow> distinct (map slot ys)"
  by (drule remove_ok) (simp add: distinct_map_filter_key)

end

section \<open>The shared loops meet the contract\<close>

lemma upsert_entry_contract:
  assumes same: "\<And>a b. same a b \<longleftrightarrow> norm a = norm b"
  shows "upsert_entry key same xe me [] x xs = Inr ys \<Longrightarrow>
      ys = xs @ [x] \<and> norm (key x) \<notin> key_set (\<lambda>x. norm (key x)) xs"
    and "old \<noteq> [] \<Longrightarrow> upsert_entry key same xe me old x xs = Inr ys \<Longrightarrow>
      (\<exists>us e vs. xs = us @ e # vs \<and> ys = us @ x # vs \<and> norm (key e) = norm old)
      \<and> (norm (key x) = norm old \<or> norm (key x) \<notin> key_set (\<lambda>x. norm (key x)) xs)"
proof -
  have idx: "last_idx (\<lambda>e. same (key e) (key x)) xs \<ge> 0 \<longleftrightarrow> norm (key x) \<in> key_set (\<lambda>x. norm (key x)) xs"
    by (auto simp: last_idx_nonneg same key_set_iff)
  show "upsert_entry key same xe me [] x xs = Inr ys \<Longrightarrow>
      ys = xs @ [x] \<and> norm (key x) \<notin> key_set (\<lambda>x. norm (key x)) xs"
    by (auto simp: upsert_entry_def Let_def idx split: if_splits)
  assume o: "old \<noteq> []" and e: "upsert_entry key same xe me old x xs = Inr ys"
  then have r: "replace_first (\<lambda>e. same (key e) old) x xs = Some ys"
    and d: "same old (key x) \<or> norm (key x) \<notin> key_set (\<lambda>x. norm (key x)) xs"
    by (auto simp: upsert_entry_def Let_def idx split: if_splits option.splits)
  from r obtain us a vs where "xs = us @ a # vs" "ys = us @ x # vs" "same (key a) old"
    by (rule replace_first_SomeE)
  with d show "(\<exists>us e vs. xs = us @ e # vs \<and> ys = us @ x # vs \<and> norm (key e) = norm old)
      \<and> (norm (key x) = norm old \<or> norm (key x) \<notin> key_set (\<lambda>x. norm (key x)) xs)"
    by (auto simp: same)
qed

lemma delete_entry_contract:
  assumes same: "\<And>a b. same a b \<longleftrightarrow> norm a = norm b"
  shows "delete_entry key same me k xs = Inr ys \<Longrightarrow>
      ys = filter (\<lambda>x. norm (key x) \<noteq> norm k) xs \<and> norm k \<in> key_set (\<lambda>x. norm (key x)) xs"
    and "norm k \<notin> key_set (\<lambda>x. norm (key x)) xs \<Longrightarrow> delete_entry key same me k xs = Inl (me k)"
  by (auto simp: delete_entry_def remove_where_def same key_set_iff split: if_splits)

lemma upsert_entry_update_succeeds:
  assumes same: "\<And>a b. same a b \<longleftrightarrow> norm a = norm b"
    and "old \<noteq> []" "norm old \<in> key_set (\<lambda>x. norm (key x)) xs"
    and "norm (key x) = norm old \<or> norm (key x) \<notin> key_set (\<lambda>x. norm (key x)) xs"
  shows "\<exists>ys. upsert_entry key same xe me old x xs = Inr ys"
proof -
  obtain ys where ys: "replace_first (\<lambda>e. same (key e) old) x xs = Some ys"
    using assms(3) replace_first_None_iff [of "\<lambda>e. same (key e) old" x xs]
    by (cases "replace_first (\<lambda>e. same (key e) old) x xs") (auto simp: same key_set_iff)
  have "last_idx (\<lambda>e. same (key e) (key x)) xs \<ge> 0 \<longleftrightarrow> norm (key x) \<in> key_set (\<lambda>x. norm (key x)) xs"
    by (auto simp: last_idx_nonneg same key_set_iff)
  then show ?thesis
    using assms(2,4) ys by (auto simp: upsert_entry_def same)
qed

end
