(* ===== verification/Compile.thy ===== *)
theory Compile
  imports Proxy Table
begin

text \<open>
  The routing tables the store derives from the configuration
  (\<open>recompileLocked\<close>) and the lookups on them (\<open>MatchSite\<close>, \<open>IsHTTPHost\<close>,
  \<open>MatchDomain\<close>, \<open>IsTerminateHost\<close>, \<open>DomainPorts\<close>). A Go map the code ranges over
  is an association list with distinct keys; no result depends on its order.
  A route's limiter is a freshly made channel: its identity is a number no other
  channel has, drawn from a counter.
\<close>

record limiter =
  lim_id :: nat
  lim_cap :: int

record compiled_route =
  cr_route :: route
  cr_proxy :: route_proxy
  cr_limiter :: "limiter option"

record compiled_pf =
  cp_host :: string
  cp_fwd :: port_forward
  cp_proxy :: "term_proxy option"

type_synonym site_table = "(string \<times> compiled_route list) list"
type_synonym domain_table = "(int \<times> (string \<times> compiled_pf) list) list"

section \<open>Compiling the HTTP sites\<close>

fun compile_routes :: "nat \<Rightarrow> string \<Rightarrow> route list \<Rightarrow> err + nat \<times> compiled_route list" where
  "compile_routes n host [] = Inr (n, [])"
| "compile_routes n host (r # rs) =
     (if \<not> rt_enabled r then compile_routes n host rs
      else bind_res (wrap_err (RouteCompile host (rt_prefix r)) (buildProxy r)) (\<lambda>p.
           let (n', lim) = (if rt_max r > 0 then (Suc n, Some \<lparr>lim_id = n, lim_cap = rt_max r\<rparr>)
                            else (n, None))
           in bind_res (compile_routes n' host rs) (\<lambda>(m, crs).
              Inr (m, \<lparr>cr_route = r, cr_proxy = p, cr_limiter = lim\<rparr> # crs))))"

text \<open>\<open>sort.SliceStable\<close> by decreasing prefix length.\<close>

definition prefix_len :: "compiled_route \<Rightarrow> nat" where
  "prefix_len c = length (rt_prefix (cr_route c))"

definition sort_longest :: "compiled_route list \<Rightarrow> compiled_route list" where
  "sort_longest crs = sort_key (\<lambda>c. - int (prefix_len c)) crs"

fun compile_sites :: "nat \<Rightarrow> http_site list \<Rightarrow> site_table \<Rightarrow> err + nat \<times> site_table" where
  "compile_sites n [] acc = Inr (n, acc)"
| "compile_sites n (st # sts) acc =
     bind_res (compile_routes n (hs_host st) (hs_routes st)) (\<lambda>(m, crs).
     compile_sites m sts (AList.update (to_lower (hs_host st)) (sort_longest crs) acc))"

section \<open>Compiling the domains\<close>

definition plain_forward :: "string \<Rightarrow> port_forward" where
  "plain_forward t = \<lparr>pf_port = 0, pf_target = t, pf_manage = False, pf_backend_tls = False,
     pf_skip = False, pf_proxy_proto = False, pf_desc = [], pf_enabled = False\<rparr>"

definition compile_pf :: "string \<Rightarrow> port_forward \<Rightarrow> err + compiled_pf" where
  "compile_pf host f =
     (if pf_port f = 80 then
        bind_res (wrap_err (DomainCompile host 80) (buildTerminateProxy host (plain_forward (pf_target f)))) (\<lambda>p.
        Inr \<lparr>cp_host = host, cp_fwd = f, cp_proxy = Some p\<rparr>)
      else if pf_manage f then
        bind_res (wrap_err (DomainCompile host (pf_port f)) (buildTerminateProxy host f)) (\<lambda>p.
        Inr \<lparr>cp_host = host, cp_fwd = f, cp_proxy = Some p\<rparr>)
      else Inr \<lparr>cp_host = host, cp_fwd = f, cp_proxy = None\<rparr>)"

definition port_table :: "domain_table \<Rightarrow> int \<Rightarrow> (string \<times> compiled_pf) list" where
  "port_table tb p = (case map_of tb p of None \<Rightarrow> [] | Some m \<Rightarrow> m)"

definition table_put :: "domain_table \<Rightarrow> int \<Rightarrow> string \<Rightarrow> compiled_pf \<Rightarrow> domain_table" where
  "table_put tb p h cp = AList.update p (AList.update h cp (port_table tb p)) tb"

fun compile_pfs :: "string \<Rightarrow> port_forward list \<Rightarrow> domain_table \<Rightarrow> err + domain_table" where
  "compile_pfs host [] tb = Inr tb"
| "compile_pfs host (f # fs) tb =
     (if \<not> pf_enabled f then compile_pfs host fs tb
      else bind_res (compile_pf host f) (\<lambda>cp.
           compile_pfs host fs (table_put tb (pf_port f) (to_lower host) cp)))"

fun compile_domains :: "domain list \<Rightarrow> domain_table \<Rightarrow> err + domain_table" where
  "compile_domains [] tb = Inr tb"
| "compile_domains (d # ds) tb =
     bind_res (compile_pfs (dm_host d) (dm_forwards d) tb) (compile_domains ds)"

section \<open>Lookups\<close>

definition route_matches :: "string \<Rightarrow> compiled_route \<Rightarrow> bool" where
  "route_matches path c \<longleftrightarrow>
     (let p = slash # rt_prefix (cr_route c) in path = p \<or> has_prefix path (p @ [slash]))"

definition match_site :: "site_table \<Rightarrow> string \<Rightarrow> string \<Rightarrow> compiled_route option" where
  "match_site tab host path =
     find (route_matches path) (case map_of tab (to_lower host) of None \<Rightarrow> [] | Some rs \<Rightarrow> rs)"

definition is_http_host :: "site_table \<Rightarrow> string \<Rightarrow> bool" where
  "is_http_host tab host \<longleftrightarrow> map_of tab (to_lower host) \<noteq> None"

definition match_domain :: "domain_table \<Rightarrow> string \<Rightarrow> int \<Rightarrow> compiled_pf option" where
  "match_domain tb host port =
     (case map_of tb port of None \<Rightarrow> None | Some m \<Rightarrow> map_of m (to_lower host))"

definition is_terminate_host :: "domain_table \<Rightarrow> string \<Rightarrow> bool" where
  "is_terminate_host tb host \<longleftrightarrow>
     (\<exists>pm\<in>set tb. case map_of (snd pm) (to_lower host) of None \<Rightarrow> False | Some cp \<Rightarrow> pf_manage (cp_fwd cp))"

definition domain_ports :: "domain_table \<Rightarrow> int list" where
  "domain_ports tb = sort (map fst tb)"

section \<open>The compiled routes of a site\<close>

lemma compile_routes_spec:
  "compile_routes n host rs = Inr (m, crs) \<Longrightarrow>
     map cr_route crs = filter rt_enabled rs \<and> n \<le> m
     \<and> (\<forall>c\<in>set crs. buildProxy (cr_route c) = Inr (cr_proxy c))"
proof (induction rs arbitrary: n m crs)
  case (Cons r rs)
  show ?case
  proof (cases "rt_enabled r")
    case False
    with Cons show ?thesis by simp
  next
    case True
    with Cons.prems obtain p n' lim crs' where p: "buildProxy r = Inr p" and
        rest: "compile_routes n' host rs = Inr (m, crs')" and n': "n \<le> n'" and
        crs: "crs = \<lparr>cr_route = r, cr_proxy = p, cr_limiter = lim\<rparr> # crs'"
      by (auto simp: res_iffs Let_def split: prod.splits if_splits)
    from Cons.IH [OF rest] n' True p crs show ?thesis by simp
  qed
qed simp

lemma compile_routes_limiters:
  "compile_routes n host rs = Inr (m, crs) \<Longrightarrow> c \<in> set crs \<Longrightarrow>
     (case cr_limiter c of
        None \<Rightarrow> rt_max (cr_route c) \<le> 0
      | Some l \<Rightarrow> lim_cap l = rt_max (cr_route c) \<and> 0 < lim_cap l \<and> n \<le> lim_id l \<and> lim_id l < m)"
proof (induction rs arbitrary: n m crs)
  case (Cons r rs)
  show ?case
  proof (cases "rt_enabled r")
    case False
    with Cons show ?thesis by simp
  next
    case True
    with Cons.prems obtain p n' lim crs' where
        rest: "compile_routes n' host rs = Inr (m, crs')" and
        crs: "crs = \<lparr>cr_route = r, cr_proxy = p, cr_limiter = lim\<rparr> # crs'" and
        lim: "(n', lim) = (if rt_max r > 0 then (Suc n, Some \<lparr>lim_id = n, lim_cap = rt_max r\<rparr>) else (n, None))"
      by (auto simp: res_iffs Let_def split: prod.splits if_splits)
    have nm: "n' \<le> m" "n \<le> n'" using compile_routes_spec [OF rest] lim by (auto split: if_splits)
    show ?thesis
    proof (cases "c \<in> set crs'")
      case True
      with Cons.IH [OF rest True] nm show ?thesis by (auto split: option.splits)
    next
      case False
      with Cons.prems(2) crs lim nm show ?thesis by (auto split: option.splits if_splits)
    qed
  qed
qed simp

lemma compile_routes_total:
  "(\<forall>r\<in>set rs. rt_enabled r \<longrightarrow> (\<exists>u. url_parse (rt_target r) = Inr u)) \<Longrightarrow>
     \<exists>m crs. compile_routes n host rs = Inr (m, crs)"
proof (induction rs arbitrary: n)
  case (Cons r rs)
  show ?case
  proof (cases "rt_enabled r")
    case False
    with Cons show ?thesis by simp
  next
    case True
    then obtain p where p: "buildProxy r = Inr p" using Cons.prems buildProxy_Inr_iff by auto
    have "\<exists>m crs. compile_routes k host rs = Inr (m, crs)" for k
      using Cons by simp
    then obtain m crs m' crs' where "compile_routes n host rs = Inr (m, crs)"
        "compile_routes (Suc n) host rs = Inr (m', crs')" by blast
    with p True show ?thesis by simp
  qed
qed simp

lemma set_sort_longest [simp]: "set (sort_longest crs) = set crs"
  by (simp add: sort_longest_def)

lemma sort_longest_sorted: "sorted (map (\<lambda>c. - int (prefix_len c)) (sort_longest crs))"
  by (simp add: sort_longest_def)

text \<open>The first match in a list sorted by decreasing length is a longest match.\<close>

lemma find_longest:
  assumes "sorted (map (\<lambda>c. - int (prefix_len c)) cs)" "find P cs = Some c"
  shows "c \<in> set cs \<and> P c \<and> (\<forall>d\<in>set cs. P d \<longrightarrow> prefix_len d \<le> prefix_len c)"
  using assms
proof (induction cs)
  case (Cons a cs)
  then show ?case by (cases "P a") auto
qed simp

text \<open>Two matching prefixes of different length are distinct initial segments of the
  path, and prefixes without a slash cannot both match.\<close>

lemma route_matches_iff:
  "route_matches path c \<longleftrightarrow>
     (\<exists>rest. path = slash # rt_prefix (cr_route c) @ rest \<and> (rest = [] \<or> has_prefix rest [slash]))"
  by (auto simp: route_matches_def Let_def has_prefix_iff)

lemma route_matches_slashless:
  assumes "route_matches path c" "route_matches path d"
    and "slash \<notin> set (rt_prefix (cr_route c))" "slash \<notin> set (rt_prefix (cr_route d))"
  shows "rt_prefix (cr_route c) = rt_prefix (cr_route d)"
proof -
  have first: "fst (split_authority (tl path)) = rt_prefix (cr_route e)"
    if "route_matches path e" "slash \<notin> set (rt_prefix (cr_route e))" for e
  proof -
    from that(1) obtain rest where "path = slash # rt_prefix (cr_route e) @ rest"
        "rest = [] \<or> has_prefix rest [slash]" by (auto simp: route_matches_iff)
    then show ?thesis
      using that(2) by (auto simp: split_authority_def cut_byte_append has_prefix_Cons_iff
          cut_byte_None_iff [THEN iffD2])
  qed
  from first [OF assms(1,3)] first [OF assms(2,4)] show ?thesis by simp
qed

section \<open>The table of sites\<close>

lemma compile_sites_keys:
  "compile_sites n sts acc = Inr (m, tab) \<Longrightarrow>
     map_of tab k \<noteq> None \<longleftrightarrow> map_of acc k \<noteq> None \<or> k \<in> key_set (\<lambda>s. to_lower (hs_host s)) sts"
proof (induction sts arbitrary: n acc)
  case (Cons st sts)
  then obtain m' crs where
      "compile_sites m' sts (AList.update (to_lower (hs_host st)) (sort_longest crs) acc) = Inr (m, tab)"
    by (auto simp: res_iffs)
  from Cons.IH [OF this] show ?case by (auto simp: update_conv' key_set_iff)
qed (auto simp: key_set_iff)

lemma compile_sites_other:
  "compile_sites n sts acc = Inr (m, tab) \<Longrightarrow> k \<notin> key_set (\<lambda>s. to_lower (hs_host s)) sts \<Longrightarrow>
     map_of tab k = map_of acc k"
proof (induction sts arbitrary: n acc)
  case (Cons st sts)
  then obtain m' crs where
      c: "compile_sites m' sts (AList.update (to_lower (hs_host st)) (sort_longest crs) acc) = Inr (m, tab)"
    by (auto simp: res_iffs)
  have "k \<notin> key_set (\<lambda>s. to_lower (hs_host s)) sts" "k \<noteq> to_lower (hs_host st)"
    using Cons.prems(2) by (auto simp: key_set_iff)
  with Cons.IH [OF c] show ?case by (simp add: update_conv')
qed simp

text \<open>With unique hosts, a site's entry is its own compiled route list.\<close>

lemma compile_sites_entry:
  assumes "compile_sites n sts acc = Inr (m, tab)"
    and "unique_keys (\<lambda>s. to_lower (hs_host s)) sts" and "st \<in> set sts"
  shows "\<exists>n' m' crs. compile_routes n' (hs_host st) (hs_routes st) = Inr (m', crs)
    \<and> map_of tab (to_lower (hs_host st)) = Some (sort_longest crs)"
  using assms
proof (induction sts arbitrary: n acc)
  case (Cons s sts)
  from Cons.prems(1) obtain m' crs where
      r: "compile_routes n (hs_host s) (hs_routes s) = Inr (m', crs)" and
      c: "compile_sites m' sts (AList.update (to_lower (hs_host s)) (sort_longest crs) acc) = Inr (m, tab)"
    by (auto simp: res_iffs)
  have u: "unique_keys (\<lambda>s. to_lower (hs_host s)) sts"
    "to_lower (hs_host s) \<notin> key_set (\<lambda>s. to_lower (hs_host s)) sts"
    using Cons.prems(2) by (auto simp: unique_keys_def key_set_def)
  show ?case
  proof (cases "st = s")
    case True
    with r compile_sites_other [OF c u(2)] show ?thesis by (auto simp: update_conv')
  next
    case False
    with Cons.IH [OF c u(1)] Cons.prems(3) show ?thesis by simp
  qed
qed simp

lemma compile_sites_total:
  "(\<forall>s\<in>set sts. \<forall>r\<in>set (hs_routes s). rt_enabled r \<longrightarrow> (\<exists>u. url_parse (rt_target r) = Inr u)) \<Longrightarrow>
     \<exists>m tab. compile_sites n sts acc = Inr (m, tab)"
proof (induction sts arbitrary: n acc)
  case (Cons s sts)
  obtain m crs where "compile_routes n (hs_host s) (hs_routes s) = Inr (m, crs)"
    using compile_routes_total Cons.prems by fastforce
  with Cons show ?case by simp
qed simp

section \<open>The table of domains\<close>

lemma match_domain_put:
  "match_domain (table_put tb p h cp) k q =
     (if q = p \<and> to_lower k = h then Some cp else match_domain tb k q)"
  by (auto simp: match_domain_def table_put_def port_table_def update_conv' split: option.splits)

definition pf_hits :: "string \<Rightarrow> int \<Rightarrow> string \<Rightarrow> port_forward \<Rightarrow> bool" where
  "pf_hits k q host f \<longleftrightarrow> pf_enabled f \<and> pf_port f = q \<and> to_lower host = to_lower k"

lemma compile_pfs_match:
  "compile_pfs host fs tb = Inr tb' \<Longrightarrow> distinct (map pf_port fs) \<Longrightarrow>
     match_domain tb' k q = Some cp \<longleftrightarrow>
       (\<exists>f\<in>set fs. pf_hits k q host f \<and> compile_pf host f = Inr cp)
       \<or> (\<forall>f\<in>set fs. \<not> pf_hits k q host f) \<and> match_domain tb k q = Some cp"
proof (induction fs arbitrary: tb)
  case (Cons f fs)
  show ?case
  proof (cases "pf_enabled f")
    case False
    with Cons show ?thesis by (auto simp: pf_hits_def)
  next
    case True
    with Cons.prems obtain c where c: "compile_pf host f = Inr c" and
        rest: "compile_pfs host fs (table_put tb (pf_port f) (to_lower host) c) = Inr tb'"
      by (auto simp: res_iffs)
    have d: "distinct (map pf_port fs)" "\<forall>g\<in>set fs. pf_port g \<noteq> pf_port f"
      using Cons.prems(2) distinct_map_Cons_neq [OF Cons.prems(2)] by auto
    have hit: "pf_hits k q host f \<Longrightarrow> \<forall>g\<in>set fs. \<not> pf_hits k q host g"
      using d(2) by (auto simp: pf_hits_def)
    have put: "match_domain (table_put tb (pf_port f) (to_lower host) c) k q =
        (if pf_hits k q host f then Some c else match_domain tb k q)"
      using True by (auto simp: match_domain_put pf_hits_def)
    show ?thesis
    proof (cases "pf_hits k q host f")
      case True
      with Cons.IH [OF rest d(1)] put hit c show ?thesis by auto
    next
      case False
      with Cons.IH [OF rest d(1)] put show ?thesis by simp
    qed
  qed
qed simp

lemma compile_domains_match:
  "compile_domains ds tb = Inr tb' \<Longrightarrow> unique_keys (\<lambda>d. to_lower (dm_host d)) ds \<Longrightarrow>
     \<forall>d\<in>set ds. distinct (map pf_port (dm_forwards d)) \<Longrightarrow>
     match_domain tb' k q = Some cp \<longleftrightarrow>
       (\<exists>d\<in>set ds. \<exists>f\<in>set (dm_forwards d). pf_hits k q (dm_host d) f \<and> compile_pf (dm_host d) f = Inr cp)
       \<or> (\<forall>d\<in>set ds. \<forall>f\<in>set (dm_forwards d). \<not> pf_hits k q (dm_host d) f) \<and> match_domain tb k q = Some cp"
proof (induction ds arbitrary: tb)
  case (Cons d ds)
  then obtain tb1 where c: "compile_pfs (dm_host d) (dm_forwards d) tb = Inr tb1"
      and rest: "compile_domains ds tb1 = Inr tb'" by (auto simp: res_iffs)
  have u: "unique_keys (\<lambda>d. to_lower (dm_host d)) ds" "\<forall>e\<in>set ds. to_lower (dm_host e) \<noteq> to_lower (dm_host d)"
    using Cons.prems(2) distinct_map_Cons_neq [OF Cons.prems(2) [unfolded unique_keys_def]]
    by (auto simp: unique_keys_def)
  have hit: "f \<in> set (dm_forwards d) \<Longrightarrow> pf_hits k q (dm_host d) f \<Longrightarrow>
      \<forall>e\<in>set ds. \<forall>g\<in>set (dm_forwards e). \<not> pf_hits k q (dm_host e) g" for f
    using u(2) by (auto simp: pf_hits_def)
  have ports: "distinct (map pf_port (dm_forwards d))" "\<forall>e\<in>set ds. distinct (map pf_port (dm_forwards e))"
    using Cons.prems(3) by auto
  have "match_domain tb1 k q = Some cp \<longleftrightarrow>
      (\<exists>f\<in>set (dm_forwards d). pf_hits k q (dm_host d) f \<and> compile_pf (dm_host d) f = Inr cp)
      \<or> (\<forall>f\<in>set (dm_forwards d). \<not> pf_hits k q (dm_host d) f) \<and> match_domain tb k q = Some cp"
    by (rule compile_pfs_match [OF c ports(1)])
  with Cons.IH [OF rest u(1) ports(2)] hit show ?case
    by (simp only: list.set ball_simps bex_simps) blast
qed simp

lemma compile_domains_total:
  "(\<forall>d\<in>set ds. \<forall>f\<in>set (dm_forwards d). pf_enabled f \<longrightarrow> (\<exists>cp. compile_pf (dm_host d) f = Inr cp)) \<Longrightarrow>
     \<exists>tb'. compile_domains ds tb = Inr tb'"
proof (induction ds arbitrary: tb)
  case (Cons d ds)
  have "(\<forall>f\<in>set fs. pf_enabled f \<longrightarrow> (\<exists>cp. compile_pf host f = Inr cp)) \<Longrightarrow>
      \<exists>tb1. compile_pfs host fs tb = Inr tb1" for host fs tb
    by (induction fs arbitrary: tb) auto
  then obtain tb1 where "compile_pfs (dm_host d) (dm_forwards d) tb = Inr tb1"
    using Cons.prems by (meson list.set_intros(1))
  with Cons show ?case by simp
qed simp

text \<open>The keys of the domain table are distinct, and every one has an entry.\<close>

definition table_ok :: "domain_table \<Rightarrow> bool" where
  "table_ok tb \<longleftrightarrow> distinct (map fst tb) \<and> (\<forall>(p, m)\<in>set tb. m \<noteq> [] \<and> distinct (map fst m))"

lemma update_not_Nil: "AList.update k v al \<noteq> []"
  by (cases al) auto

lemma set_update_subset: "set (AList.update k v al) \<subseteq> insert (k, v) (set al)"
  by (induction al) auto

lemma port_table_ok: "table_ok tb \<Longrightarrow> distinct (map fst (port_table tb p))"
  by (auto simp: table_ok_def port_table_def split: option.splits dest!: map_of_SomeD)

lemma table_ok_put:
  assumes "table_ok tb"
  shows "table_ok (table_put tb p h cp)"
proof -
  have new: "distinct (map fst (AList.update h cp (port_table tb p)))"
    by (rule distinct_update) (rule port_table_ok [OF assms])
  have "distinct (map fst (table_put tb p h cp))"
    using assms by (auto simp: table_put_def table_ok_def intro: distinct_update)
  moreover have "m \<noteq> [] \<and> distinct (map fst m)" if "(q, m) \<in> set (table_put tb p h cp)" for q m
    using subsetD [OF set_update_subset that [unfolded table_put_def]] new assms
    by (auto simp: table_ok_def update_not_Nil)
  ultimately show ?thesis by (auto simp: table_ok_def)
qed

lemma compile_pfs_ok: "compile_pfs host fs tb = Inr tb' \<Longrightarrow> table_ok tb \<Longrightarrow> table_ok tb'"
  by (induction fs arbitrary: tb) (auto simp: res_iffs table_ok_put split: if_splits)

lemma compile_domains_ok: "compile_domains ds tb = Inr tb' \<Longrightarrow> table_ok tb \<Longrightarrow> table_ok tb'"
  by (induction ds arbitrary: tb) (auto simp: res_iffs dest: compile_pfs_ok)

lemma table_ok_Nil [simp]: "table_ok []"
  by (simp add: table_ok_def)

lemma keys_put: "fst ` set (table_put tb p h cp) = insert p (fst ` set tb)"
  by (auto simp: table_put_def dom_update [simplified])

lemma compile_pfs_ports:
  "compile_pfs host fs tb = Inr tb' \<Longrightarrow>
     fst ` set tb' = fst ` set tb \<union> {pf_port f | f. f \<in> set fs \<and> pf_enabled f}"
proof (induction fs arbitrary: tb)
  case (Cons f fs)
  show ?case
  proof (cases "pf_enabled f")
    case False
    with Cons show ?thesis by auto
  next
    case True
    with Cons.prems obtain c where "compile_pfs host fs (table_put tb (pf_port f) (to_lower host) c) = Inr tb'"
      by (auto simp: res_iffs)
    from Cons.IH [OF this] True show ?thesis by (auto simp: keys_put)
  qed
qed simp

lemma compile_domains_ports:
  "compile_domains ds tb = Inr tb' \<Longrightarrow>
     fst ` set tb' = fst ` set tb \<union> {pf_port f | d f. d \<in> set ds \<and> f \<in> set (dm_forwards d) \<and> pf_enabled f}"
proof (induction ds arbitrary: tb)
  case (Cons d ds)
  then obtain tb1 where c: "compile_pfs (dm_host d) (dm_forwards d) tb = Inr tb1"
      and rest: "compile_domains ds tb1 = Inr tb'" by (auto simp: res_iffs)
  show ?case
    unfolding Cons.IH [OF rest] compile_pfs_ports [OF c] by auto
qed simp

text \<open>\<open>IsTerminateHost\<close> ranges over the ports; it holds exactly when a lookup on some
  port gives a managed forward.\<close>

lemma is_terminate_host_iff:
  assumes "table_ok tb"
  shows "is_terminate_host tb host \<longleftrightarrow>
    (\<exists>port cp. match_domain tb host port = Some cp \<and> pf_manage (cp_fwd cp))"
proof -
  have hit: "match_domain tb host port = Some cp \<longleftrightarrow>
      (\<exists>m. (port, m) \<in> set tb \<and> map_of m (to_lower host) = Some cp)" for port cp
  proof -
    have "match_domain tb host port = Some cp \<longleftrightarrow>
        (\<exists>m. map_of tb port = Some m \<and> map_of m (to_lower host) = Some cp)"
      by (cases "map_of tb port") (simp_all add: match_domain_def)
    moreover have "distinct (map fst tb)" using assms by (simp add: table_ok_def)
    ultimately show ?thesis by (simp only: map_of_eq_Some_iff)
  qed
  have one: "(case map_of m (to_lower host) of None \<Rightarrow> False | Some cp \<Rightarrow> pf_manage (cp_fwd cp)) \<longleftrightarrow>
      (\<exists>cp. map_of m (to_lower host) = Some cp \<and> pf_manage (cp_fwd cp))" for m :: "(string \<times> compiled_pf) list"
    by (cases "map_of m (to_lower host)") simp_all
  have "is_terminate_host tb host \<longleftrightarrow>
      (\<exists>pm\<in>set tb. \<exists>cp. map_of (snd pm) (to_lower host) = Some cp \<and> pf_manage (cp_fwd cp))"
    unfolding is_terminate_host_def one ..
  also have "\<dots> \<longleftrightarrow> (\<exists>port cp m. (port, m) \<in> set tb \<and> map_of m (to_lower host) = Some cp \<and> pf_manage (cp_fwd cp))"
    by (metis prod.collapse snd_conv)
  finally show ?thesis unfolding hit by blast
qed

lemma domain_ports_sorted: "sorted (domain_ports tb)"
  by (simp add: domain_ports_def)

lemma domain_ports_distinct: "table_ok tb \<Longrightarrow> distinct (domain_ports tb)"
  by (simp add: domain_ports_def table_ok_def)

lemma set_domain_ports: "set (domain_ports tb) = fst ` set tb"
  by (simp add: domain_ports_def)

lemma match_domain_port: "match_domain tb host port = Some cp \<Longrightarrow> port \<in> set (domain_ports tb)"
  by (force simp: match_domain_def set_domain_ports split: option.splits dest: map_of_SomeD)

lemmas [model_eval] = prefix_len_def sort_longest_def plain_forward_def compile_pf_def port_table_def
  table_put_def route_matches_def match_site_def is_http_host_def match_domain_def
  is_terminate_host_def domain_ports_def

end
