(* ===== verification/Patterns.thy ===== *)
theory Patterns
  imports GoStrings
begin

text \<open>
  The two regular expressions of \<open>config.go\<close>, written as regular expressions and
  matched by derivatives. The matcher is proved correct against the language of
  an expression, and each pattern is then characterised without regular
  expressions: what a name or path prefix looks like, and what a host name looks
  like label by label.
\<close>

section \<open>Regular expressions over bytes\<close>

datatype re = RZero | ROne | RCls "char \<Rightarrow> bool" | RSeq re re | RAlt re re | RStar re

inductive_set star_of :: "string set \<Rightarrow> string set" for A where
  star_nil [intro]: "[] \<in> star_of A"
| star_step [intro]: "u \<in> A \<Longrightarrow> v \<in> star_of A \<Longrightarrow> u @ v \<in> star_of A"

fun lang :: "re \<Rightarrow> string set" where
  "lang RZero = {}"
| "lang ROne = {[]}"
| "lang (RCls p) = {[c] | c. p c}"
| "lang (RSeq r q) = {u @ v | u v. u \<in> lang r \<and> v \<in> lang q}"
| "lang (RAlt r q) = lang r \<union> lang q"
| "lang (RStar r) = star_of (lang r)"

fun nullable :: "re \<Rightarrow> bool" where
  "nullable RZero = False"
| "nullable ROne = True"
| "nullable (RCls p) = False"
| "nullable (RSeq r q) = (nullable r \<and> nullable q)"
| "nullable (RAlt r q) = (nullable r \<or> nullable q)"
| "nullable (RStar r) = True"

fun deriv :: "char \<Rightarrow> re \<Rightarrow> re" where
  "deriv c RZero = RZero"
| "deriv c ROne = RZero"
| "deriv c (RCls p) = (if p c then ROne else RZero)"
| "deriv c (RSeq r q) =
     (if nullable r then RAlt (RSeq (deriv c r) q) (deriv c q) else RSeq (deriv c r) q)"
| "deriv c (RAlt r q) = RAlt (deriv c r) (deriv c q)"
| "deriv c (RStar r) = RSeq (deriv c r) (RStar r)"

text \<open>\<open>MatchString\<close> for a pattern anchored with \<open>^\<close> and \<open>$\<close>.\<close>

definition re_match :: "re \<Rightarrow> string \<Rightarrow> bool" where
  "re_match r s = nullable (foldl (\<lambda>q c. deriv c q) r s)"

lemma nullable_iff: "nullable r \<longleftrightarrow> [] \<in> lang r"
  by (induction r) auto

lemma star_of_Cons_iff:
  "c # s \<in> star_of A \<longleftrightarrow> (\<exists>u v. s = u @ v \<and> c # u \<in> A \<and> v \<in> star_of A)"
proof
  have "t \<in> star_of A \<Longrightarrow> t = c # s \<Longrightarrow> \<exists>u v. s = u @ v \<and> c # u \<in> A \<and> v \<in> star_of A" for t
    by (induction rule: star_of.induct) (auto simp: append_eq_Cons_conv)
  then show "c # s \<in> star_of A \<Longrightarrow> \<exists>u v. s = u @ v \<and> c # u \<in> A \<and> v \<in> star_of A" by blast
next
  assume "\<exists>u v. s = u @ v \<and> c # u \<in> A \<and> v \<in> star_of A"
  then obtain u v where "s = u @ v" "c # u \<in> A" "v \<in> star_of A" by blast
  then show "c # s \<in> star_of A" using star_of.star_step [of "c # u" A v] by simp
qed

lemma lang_deriv: "s \<in> lang (deriv c r) \<longleftrightarrow> c # s \<in> lang r"
proof (induction r arbitrary: s)
  case (RSeq r q)
  show ?case
    by (cases "nullable r")
      (auto simp: RSeq nullable_iff Cons_eq_append_conv)
next
  case (RStar r)
  show ?case by (auto simp: RStar star_of_Cons_iff)
qed auto

theorem re_match_iff: "re_match r s \<longleftrightarrow> s \<in> lang r"
proof (induction s arbitrary: r)
  case Nil
  then show ?case by (simp add: re_match_def nullable_iff)
next
  case (Cons c s)
  then show ?case by (simp add: re_match_def lang_deriv)
qed

lemma lang_Seq_iff:
  "s \<in> lang (RSeq r q) \<longleftrightarrow> (\<exists>u v. s = u @ v \<and> u \<in> lang r \<and> v \<in> lang q)"
  by auto

lemma lang_plus_iff:
  "s \<in> lang (RSeq r (RSeq q (RStar q))) \<longleftrightarrow>
     (\<exists>u v w. s = u @ v @ w \<and> u \<in> lang r \<and> v \<in> lang q \<and> w \<in> star_of (lang q))"
  by (simp only: lang_Seq_iff lang.simps(6)) blast

lemma star_of_chars:
  assumes "A = {[c] | c. p c}"
  shows "s \<in> star_of A \<longleftrightarrow> (\<forall>c\<in>set s. p c)"
proof (induction s)
  case (Cons c s)
  then show ?case using assms by (auto simp: star_of_Cons_iff)
qed auto

section \<open>Names and path prefixes\<close>

definition name_byte :: "char \<Rightarrow> bool" where
  "name_byte c \<longleftrightarrow> is_alnum c \<or> c = CHR ''_'' \<or> c = CHR ''-''"

text \<open>\<open>^[A-Za-z0-9][A-Za-z0-9_-]*$\<close>\<close>

definition prefixPattern :: re where
  "prefixPattern = RSeq (RCls is_alnum) (RStar (RCls name_byte))"

definition name_ok :: "string \<Rightarrow> bool" where
  "name_ok s \<longleftrightarrow> s \<noteq> [] \<and> is_alnum (hd s) \<and> (\<forall>c\<in>set s. name_byte c)"

lemma prefixPattern_iff: "re_match prefixPattern s \<longleftrightarrow> name_ok s"
proof -
  have "re_match prefixPattern s \<longleftrightarrow>
      (\<exists>u v. s = u @ v \<and> u \<in> {[c] | c. is_alnum c} \<and> (\<forall>d\<in>set v. name_byte d))"
    unfolding re_match_iff prefixPattern_def lang_Seq_iff lang.simps(3,6)
      star_of_chars [where p = name_byte, OF refl] ..
  also have "\<dots> \<longleftrightarrow> (\<exists>c v. s = [c] @ v \<and> is_alnum c \<and> (\<forall>d\<in>set v. name_byte d))"
    by blast
  also have "\<dots> \<longleftrightarrow> name_ok s"
    by (cases s) (auto simp: name_ok_def name_byte_def)
  finally show ?thesis .
qed

lemma is_alnum_plain: "is_alnum c \<Longrightarrow> plain_byte c"
  by (auto simp: plain_byte_def byte_class_defs)

lemma name_byte_plain: "name_byte c \<Longrightarrow> plain_byte c"
  by (auto simp: name_byte_def is_alnum_plain) (simp_all add: plain_byte_def)

lemma name_ok_trimmed: "name_ok s \<Longrightarrow> trimmed s"
  by (auto simp: name_ok_def intro!: trimmed_plain name_byte_plain)

lemma name_byte_no_slash: "\<not> name_byte (CHR ''/'')"
  by (simp add: name_byte_def byte_class_defs)

section \<open>Host names\<close>

abbreviation dot :: char where "dot \<equiv> CHR ''.''"

definition label_byte :: "char \<Rightarrow> bool" where
  "label_byte c \<longleftrightarrow> is_alnum c \<or> c = CHR ''-''"

text \<open>One label: \<open>[A-Za-z0-9]([A-Za-z0-9-]*[A-Za-z0-9])?\<close>\<close>

definition label_re :: re where
  "label_re = RSeq (RCls is_alnum)
     (RAlt (RSeq (RStar (RCls label_byte)) (RCls is_alnum)) ROne)"

text \<open>\<open>^label(\.label)+$\<close>\<close>

definition hostPattern :: re where
  "hostPattern =
     (let more = RSeq (RCls (\<lambda>c. c = dot)) label_re
      in RSeq label_re (RSeq more (RStar more)))"

definition label_ok :: "string \<Rightarrow> bool" where
  "label_ok l \<longleftrightarrow> l \<noteq> [] \<and> is_alnum (hd l) \<and> is_alnum (last l) \<and> (\<forall>c\<in>set l. label_byte c)"

definition host_ok :: "string \<Rightarrow> bool" where
  "host_ok s \<longleftrightarrow> 2 \<le> length (split_byte dot s) \<and> (\<forall>l\<in>set (split_byte dot s). label_ok l)"

lemma label_re_iff: "s \<in> lang label_re \<longleftrightarrow> label_ok s"
proof
  assume "s \<in> lang label_re"
  then consider c where "s = [c]" "is_alnum c"
    | c m d where "s = c # m @ [d]" "is_alnum c" "is_alnum d" "\<forall>x\<in>set m. label_byte x"
    by (auto simp: label_re_def star_of_chars)
  then show "label_ok s" by cases (auto simp: label_ok_def label_byte_def)
next
  assume ok: "label_ok s"
  then obtain c t where s: "s = c # t" by (cases s) (auto simp: label_ok_def)
  show "s \<in> lang label_re"
  proof (cases t rule: rev_cases)
    case Nil
    with ok s show ?thesis by (auto simp: label_re_def label_ok_def)
  next
    case (snoc m d)
    with ok s have "m \<in> star_of (lang (RCls label_byte))" "[d] \<in> lang (RCls is_alnum)"
      "[c] \<in> lang (RCls is_alnum)"
      by (auto simp: label_ok_def star_of_chars)
    then have "[c] @ (m @ [d]) \<in> lang label_re"
      unfolding label_re_def lang_Seq_iff lang.simps(5,6) Un_iff by blast
    with s snoc show ?thesis by simp
  qed
qed

lemma label_ok_no_dot: "label_ok l \<Longrightarrow> dot \<notin> set l"
  by (auto simp: label_ok_def label_byte_def byte_class_defs)

lemma split_byte_join:
  "\<forall>l\<in>set (l0 # ls). c \<notin> set l \<Longrightarrow> split_byte c (l0 @ concat (map ((#) c) ls)) = l0 # ls"
proof (induction ls arbitrary: l0)
  case Nil
  then show ?case by (simp add: split_byte_no_sep)
next
  case (Cons l ls)
  then show ?case by (simp add: split_byte_append)
qed

lemma join_split_byte: "split_byte c s = l0 # ls \<Longrightarrow> s = l0 @ concat (map ((#) c) ls)"
proof (induction s arbitrary: l0 ls)
  case (Cons x s)
  obtain y ys where y: "split_byte c s = y # ys" by (cases "split_byte c s") auto
  then have s: "s = y @ concat (map ((#) c) ys)" by (rule Cons.IH)
  show ?case
  proof (cases "x = c")
    case True
    with Cons.prems y have "l0 = []" "ls = y # ys" by auto
    with True show ?thesis by (subst s) simp
  next
    case False
    with Cons.prems y have "l0 = x # y" "ls = ys" by auto
    then show ?thesis by (subst s) simp
  qed
qed auto

lemma star_of_labels:
  "t \<in> star_of {dot # l | l. label_ok l} \<longleftrightarrow>
     (\<exists>ls. t = concat (map ((#) dot) ls) \<and> (\<forall>l\<in>set ls. label_ok l))"
proof
  assume "t \<in> star_of {dot # l | l. label_ok l}"
  then show "\<exists>ls. t = concat (map ((#) dot) ls) \<and> (\<forall>l\<in>set ls. label_ok l)"
  proof induction
    case star_nil
    show ?case by (intro exI [of _ "[]"]) simp
  next
    case (star_step u v)
    then obtain l ls where "u = dot # l" "label_ok l" "v = concat (map ((#) dot) ls)"
      "\<forall>l\<in>set ls. label_ok l" by blast
    then show ?case by (intro exI [of _ "l # ls"]) simp
  qed
next
  assume "\<exists>ls. t = concat (map ((#) dot) ls) \<and> (\<forall>l\<in>set ls. label_ok l)"
  then obtain ls where "t = concat (map ((#) dot) ls)" "\<forall>l\<in>set ls. label_ok l" by blast
  then show "t \<in> star_of {dot # l | l. label_ok l}"
  proof (induction ls arbitrary: t)
    case (Cons l ls)
    then have "(dot # l) @ concat (map ((#) dot) ls) \<in> star_of {dot # l | l. label_ok l}"
      by (intro star_of.star_step) auto
    with Cons.prems show ?case by simp
  qed auto
qed

lemma hostPattern_lang:
  "s \<in> lang hostPattern \<longleftrightarrow>
     (\<exists>l0 l1 ls. s = l0 @ concat (map ((#) dot) (l1 # ls)) \<and> (\<forall>l\<in>set (l0 # l1 # ls). label_ok l))"
proof -
  have more: "lang (RSeq (RCls (\<lambda>c. c = dot)) label_re) = {dot # l | l. label_ok l}"
    using label_re_iff by auto
  have "s \<in> lang hostPattern \<longleftrightarrow> (\<exists>u v w. s = u @ v @ w \<and> label_ok u
      \<and> v \<in> {dot # l | l. label_ok l} \<and> w \<in> star_of {dot # l | l. label_ok l})"
    unfolding hostPattern_def Let_def lang_plus_iff more label_re_iff ..
  also have "\<dots> \<longleftrightarrow> (\<exists>l0 l1 ls. s = l0 @ (dot # l1) @ concat (map ((#) dot) ls)
      \<and> label_ok l0 \<and> label_ok l1 \<and> (\<forall>l\<in>set ls. label_ok l))"
    unfolding star_of_labels by blast
  finally show ?thesis by simp
qed

theorem hostPattern_iff: "re_match hostPattern s \<longleftrightarrow> host_ok s"
proof
  assume "re_match hostPattern s"
  then obtain l0 l1 ls where s: "s = l0 @ concat (map ((#) dot) (l1 # ls))"
    and ok: "\<forall>l\<in>set (l0 # l1 # ls). label_ok l"
    unfolding re_match_iff hostPattern_lang by blast
  have "split_byte dot s = l0 # l1 # ls"
    unfolding s by (rule split_byte_join) (use ok in \<open>auto dest: label_ok_no_dot\<close>)
  with ok show "host_ok s" by (simp add: host_ok_def)
next
  assume ok: "host_ok s"
  then obtain l0 l1 ls where sp: "split_byte dot s = l0 # l1 # ls"
    by (cases "split_byte dot s"; cases "tl (split_byte dot s)") (auto simp: host_ok_def)
  with ok join_split_byte [OF sp] show "re_match hostPattern s"
    unfolding re_match_iff hostPattern_lang by (auto simp: host_ok_def)
qed

lemma host_ok_bytes:
  assumes "host_ok s" "c \<in> set s"
  shows "is_alnum c \<or> c = CHR ''-'' \<or> c = dot"
proof -
  obtain l0 ls where sp: "split_byte dot s = l0 # ls" by (cases "split_byte dot s") auto
  with assms(1) have "\<forall>l\<in>set (l0 # ls). label_ok l" by (simp add: host_ok_def)
  then show ?thesis
    using assms(2) join_split_byte [OF sp] by (auto simp: label_ok_def label_byte_def split: if_splits)
qed

lemma host_ok_not_Nil: "host_ok s \<Longrightarrow> s \<noteq> []"
  by (auto simp: host_ok_def label_ok_def)

lemma host_ok_trimmed: "host_ok s \<Longrightarrow> trimmed s"
  using host_ok_bytes is_alnum_plain
  by (intro trimmed_plain ballI) (fastforce simp: plain_byte_def)

lemmas [go_eval] = prefixPattern_iff hostPattern_iff name_ok_def name_byte_def
  host_ok_def label_ok_def label_byte_def

end
