(* ===== verification/Validate.thy ===== *)
theory Validate
  imports Types Patterns
begin

text \<open>
  Validation and normalisation of the configuration's entries (\<open>validateSite\<close>,
  \<open>validate\<close>, \<open>validateDomain\<close>, \<open>validateForward\<close>, \<open>validateDNAT\<close>,
  \<open>normalizeListen\<close>, \<open>normalizeHostPort\<close> of \<open>config.go\<close>). Each function returns the
  normalised entry, or the error of the first check that fails. The lemmas say
  what an accepted entry looks like and that accepting it again changes nothing.
\<close>

section \<open>Addresses\<close>

definition normalizeHostPort :: "string \<Rightarrow> bool \<Rightarrow> hostport_err + string" where
  "normalizeHostPort s allowEmptyHost =
     bind_res (wrap_err NotHostPort (split_host_port s)) (\<lambda>(host, port).
     if host = [] \<and> \<not> allowEmptyHost then Inl MissingHost
     else (case parse_int port of
             None \<Rightarrow> Inl (InvalidPort port)
           | Some p \<Rightarrow> if p < 1 \<or> p > 65535 then Inl (InvalidPort port)
                       else Inr (join_host_port host port)))"

definition normalizeListen :: "string \<Rightarrow> err + string" where
  "normalizeListen s0 =
     (let s = trim_space s0
      in if s = [] then Inl ListenRequired
         else let s' = (if \<not> contains_byte s colon then colon # s else s)
              in wrap_err BadListen (normalizeHostPort s' True))"

section \<open>HTTP sites\<close>

text \<open>The prefixes kept for the program itself.\<close>

definition reserved :: "string set" where
  "reserved = {''_admin'', ''_healthz''}"

definition validate_route :: "route \<Rightarrow> err + unit" where
  "validate_route r =
     bind_res (guard_res (re_match prefixPattern (rt_prefix r)) BadPrefix) (\<lambda>_.
     bind_res (guard_res (rt_prefix r \<notin> reserved) (ReservedPrefix (rt_prefix r))) (\<lambda>_.
     bind_res (wrap_err BadBackend (url_parse (rt_target r))) (\<lambda>u.
     bind_res (guard_res (u_scheme u = ''http'' \<or> u_scheme u = ''https'') BackendScheme) (\<lambda>_.
     bind_res (guard_res (u_host u \<noteq> []) BackendHostMissing) (\<lambda>_.
     guard_res (rt_max r \<ge> 0) NegativeConcurrency)))))"

definition normalize_route :: "route \<Rightarrow> route" where
  "normalize_route r = r\<lparr>rt_prefix := trim_byte slash (trim_space (rt_prefix r)),
     rt_target := trim_space (rt_target r), rt_desc := trim_space (rt_desc r)\<rparr>"

definition site_route_step :: "string list \<Rightarrow> route \<Rightarrow> err + string list \<times> route" where
  "site_route_step seen r0 =
     (let r = normalize_route r0
      in bind_res (validate_route r) (\<lambda>_.
         bind_res (guard_res (rt_prefix r \<notin> set seen) (DuplicatePrefix (rt_prefix r))) (\<lambda>_.
         Inr (rt_prefix r # seen, r))))"

definition validateSite :: "http_site \<Rightarrow> err + http_site" where
  "validateSite site =
     (let host = trim_space (to_lower (hs_host site))
      in bind_res (guard_res (re_match hostPattern host) BadSiteHost) (\<lambda>_.
         bind_res (each_res site_route_step [] (hs_routes site)) (\<lambda>routes.
         Inr \<lparr>hs_host = host, hs_desc = trim_space (hs_desc site), hs_routes = routes\<rparr>)))"

section \<open>Domains\<close>

definition domain_forward_step :: "int list \<Rightarrow> port_forward \<Rightarrow> err + int list \<times> port_forward" where
  "domain_forward_step seen f0 =
     (let f1 = f0\<lparr>pf_desc := trim_space (pf_desc f0)\<rparr>
      in bind_res (guard_res (1 \<le> pf_port f1 \<and> pf_port f1 \<le> 65535) (PortOutOfRange (pf_port f1))) (\<lambda>_.
         let f2 = (if pf_port f1 = 80
                   then f1\<lparr>pf_manage := False, pf_backend_tls := False, pf_skip := False\<rparr> else f1)
         in bind_res (guard_res (pf_port f2 \<notin> set seen) (DuplicatePort (pf_port f2))) (\<lambda>_.
            bind_res (wrap_err (PortTarget (pf_port f2))
                        (normalizeHostPort (trim_space (pf_target f2)) False)) (\<lambda>target.
            let f3 = f2\<lparr>pf_target := target\<rparr>;
                f4 = (if \<not> pf_manage f3 then f3\<lparr>pf_backend_tls := False, pf_skip := False\<rparr> else f3)
            in Inr (pf_port f2 # seen, f4)))))"

definition validateDomain :: "domain \<Rightarrow> err + domain" where
  "validateDomain d =
     (let host = trim_space (to_lower (dm_host d))
      in bind_res (guard_res (re_match hostPattern host) BadDomainHost) (\<lambda>_.
         bind_res (guard_res (dm_forwards d \<noteq> []) NoForwards) (\<lambda>_.
         bind_res (each_res domain_forward_step [] (dm_forwards d)) (\<lambda>fs.
         Inr \<lparr>dm_host = host, dm_desc = trim_space (dm_desc d), dm_forwards = fs\<rparr>))))"

section \<open>Port forwards and DNAT rules\<close>

definition validateForward :: "forward \<Rightarrow> err + forward" where
  "validateForward f =
     (let name = trim_space (fw_name f);
          proto0 = to_lower (trim_space (fw_proto f));
          proto = (if proto0 = [] then ''tcp'' else proto0)
      in bind_res (guard_res (re_match prefixPattern name) BadName) (\<lambda>_.
         bind_res (guard_res (proto = ''tcp'' \<or> proto = ''udp'' \<or> proto = ''tcp+udp'') BadForwardProto) (\<lambda>_.
         bind_res (normalizeListen (fw_listen f)) (\<lambda>listen.
         bind_res (wrap_err InternalTarget (normalizeHostPort (trim_space (fw_target f)) False)) (\<lambda>target.
         Inr (f\<lparr>fw_name := name, fw_proto := proto, fw_listen := listen, fw_target := target,
               fw_desc := trim_space (fw_desc f)\<rparr>))))))"

definition validateDNAT :: "dnat_rule \<Rightarrow> err + dnat_rule" where
  "validateDNAT d =
     (let name = trim_space (dn_name d);
          proto = to_lower (trim_space (dn_proto d))
      in bind_res (guard_res (re_match prefixPattern name) BadName) (\<lambda>_.
         bind_res (guard_res (proto = ''tcp'' \<or> proto = ''udp'') BadDnatProto) (\<lambda>_.
         bind_res (guard_res (1 \<le> dn_port d \<and> dn_port d \<le> 65535) DnatPortOutOfRange) (\<lambda>_.
         bind_res (wrap_err InternalTarget (normalizeHostPort (trim_space (dn_target d)) False)) (\<lambda>target.
         Inr (d\<lparr>dn_name := name, dn_proto := proto, dn_target := target,
               dn_desc := trim_space (dn_desc d)\<rparr>))))))"

section \<open>What an accepted address looks like\<close>

text \<open>The canonical \<open>host:port\<close> form: \<open>net.SplitHostPort\<close> takes it apart, the port
  is a number from 1 to 65535, and joining the parts gives the address back.\<close>

definition canonical_addr :: "bool \<Rightarrow> string \<Rightarrow> bool" where
  "canonical_addr allowEmpty a \<longleftrightarrow>
     (case split_host_port a of
        Inl _ \<Rightarrow> False
      | Inr (h, p) \<Rightarrow> (h \<noteq> [] \<or> allowEmpty) \<and> join_host_port h p = a
          \<and> (case parse_int p of None \<Rightarrow> False | Some n \<Rightarrow> 1 \<le> n \<and> n \<le> 65535))"

lemma normalizeHostPort_Inr_iff:
  "normalizeHostPort s e = Inr a \<longleftrightarrow>
     (\<exists>h p n. split_host_port s = Inr (h, p) \<and> (h \<noteq> [] \<or> e) \<and> parse_int p = Some n
        \<and> 1 \<le> n \<and> n \<le> 65535 \<and> a = join_host_port h p)"
proof (cases "split_host_port s")
  case (Inl e)
  then show ?thesis by (simp add: normalizeHostPort_def)
next
  case (Inr hp)
  then show ?thesis
    by (cases hp; cases "parse_int (snd hp)") (auto simp: normalizeHostPort_def)
qed

lemma normalizeHostPort_canonical:
  assumes "normalizeHostPort s e = Inr a"
  shows "canonical_addr e a"
proof -
  from assms obtain h p n where "split_host_port s = Inr (h, p)" "h \<noteq> [] \<or> e"
      "parse_int p = Some n" "1 \<le> n" "n \<le> 65535" "a = join_host_port h p"
    unfolding normalizeHostPort_Inr_iff by blast
  then show ?thesis by (simp add: canonical_addr_def split_join_split)
qed

lemma canonical_normalize_id: "canonical_addr e a \<Longrightarrow> normalizeHostPort a e = Inr a"
  by (auto simp: normalizeHostPort_Inr_iff canonical_addr_def split: sum.splits option.splits)

lemma canonical_addr_colon: "canonical_addr e a \<Longrightarrow> contains_byte a colon \<and> a \<noteq> []"
  by (auto simp: canonical_addr_def join_host_port_def contains_byte_def
      split: sum.splits prod.splits if_splits)

lemma normalizeHostPort_idem:
  "normalizeHostPort s e = Inr a \<Longrightarrow> normalizeHostPort a e = Inr a"
  by (blast intro: canonical_normalize_id normalizeHostPort_canonical)

text \<open>Input without brackets and without a needed rewrite is kept as it is.\<close>

lemma normalizeHostPort_unchanged:
  assumes "normalizeHostPort s e = Inr a" "obrack \<notin> set s"
  shows "a = s"
proof -
  from assms(1) obtain h p where sp: "split_host_port s = Inr (h, p)" "a = join_host_port h p"
    by (auto simp: normalizeHostPort_Inr_iff)
  show ?thesis using join_split [OF sp(1)] sp(2) assms(2) by auto
qed

lemma normalizeListen_canonical: "normalizeListen s = Inr a \<Longrightarrow> canonical_addr True a"
  by (auto simp: normalizeListen_def Let_def res_iffs split: if_splits
      dest: normalizeHostPort_canonical)

lemma canonical_listen_id:
  "canonical_addr True a \<Longrightarrow> trimmed a \<Longrightarrow> normalizeListen a = Inr a"
  by (auto simp: normalizeListen_def Let_def trim_space_id canonical_normalize_id
      dest: canonical_addr_colon)

text \<open>A bare port number listens on all interfaces.\<close>

lemma normalizeListen_bare_port:
  assumes "1 \<le> n" "n \<le> 65535"
  shows "normalizeListen (format_nat n) = Inr (colon # format_nat n)"
proof -
  have dig: "\<forall>c\<in>set (format_nat n). is_digit c" by (auto dest: format_nat_digits)
  then have "\<forall>c\<in>set (format_nat n). plain_byte c"
    by (auto simp: is_digit_def plain_byte_def)
  then have tr: "trim_space (format_nat n) = format_nat n"
    by (intro trim_space_id trimmed_plain)
  have no: "colon \<notin> set (format_nat n)" "obrack \<notin> set (format_nat n)" "cbrack \<notin> set (format_nat n)"
    using dig by (auto simp: is_digit_def)
  have "split_host_port (join_host_port [] (format_nat n)) = Inr ([], format_nat n)"
    by (rule split_join_host_port) (use no in auto)
  then have "normalizeHostPort (colon # format_nat n) True = Inr (colon # format_nat n)"
    using assms by (simp add: normalizeHostPort_Inr_iff join_host_port_def contains_byte_def
        parse_format_nat)
  then show ?thesis
    using no tr by (simp add: normalizeListen_def contains_byte_def)
qed

section \<open>What an accepted entry looks like\<close>

definition lower_host :: "string \<Rightarrow> bool" where
  "lower_host h \<longleftrightarrow> host_ok h \<and> to_lower h = h"

definition backend_ok :: "string \<Rightarrow> bool" where
  "backend_ok t \<longleftrightarrow> (case url_parse t of
       Inl _ \<Rightarrow> False
     | Inr u \<Rightarrow> (u_scheme u = ''http'' \<or> u_scheme u = ''https'') \<and> u_host u \<noteq> [])"

definition route_wf :: "route \<Rightarrow> bool" where
  "route_wf r \<longleftrightarrow> name_ok (rt_prefix r) \<and> rt_prefix r \<notin> reserved \<and> trimmed (rt_target r)
     \<and> backend_ok (rt_target r) \<and> trimmed (rt_desc r) \<and> 0 \<le> rt_max r"

definition site_wf :: "http_site \<Rightarrow> bool" where
  "site_wf s \<longleftrightarrow> lower_host (hs_host s) \<and> trimmed (hs_desc s)
     \<and> (\<forall>r\<in>set (hs_routes s). route_wf r) \<and> distinct (map rt_prefix (hs_routes s))"

definition port_forward_wf :: "port_forward \<Rightarrow> bool" where
  "port_forward_wf f \<longleftrightarrow> 1 \<le> pf_port f \<and> pf_port f \<le> 65535 \<and> canonical_addr False (pf_target f)
     \<and> trimmed (pf_desc f) \<and> (pf_port f = 80 \<longrightarrow> \<not> pf_manage f)
     \<and> (\<not> pf_manage f \<longrightarrow> \<not> pf_backend_tls f \<and> \<not> pf_skip f)"

definition domain_wf :: "domain \<Rightarrow> bool" where
  "domain_wf d \<longleftrightarrow> lower_host (dm_host d) \<and> trimmed (dm_desc d) \<and> dm_forwards d \<noteq> []
     \<and> (\<forall>f\<in>set (dm_forwards d). port_forward_wf f) \<and> distinct (map pf_port (dm_forwards d))"

definition forward_wf :: "forward \<Rightarrow> bool" where
  "forward_wf f \<longleftrightarrow> name_ok (fw_name f)
     \<and> (fw_proto f = ''tcp'' \<or> fw_proto f = ''udp'' \<or> fw_proto f = ''tcp+udp'')
     \<and> canonical_addr True (fw_listen f) \<and> canonical_addr False (fw_target f) \<and> trimmed (fw_desc f)"

definition dnat_wf :: "dnat_rule \<Rightarrow> bool" where
  "dnat_wf d \<longleftrightarrow> name_ok (dn_name d) \<and> (dn_proto d = ''tcp'' \<or> dn_proto d = ''udp'')
     \<and> 1 \<le> dn_port d \<and> dn_port d \<le> 65535 \<and> canonical_addr False (dn_target d) \<and> trimmed (dn_desc d)"

lemma trim_to_lower_lower: "to_lower (trim_space (to_lower s)) = trim_space (to_lower s)"
proof -
  obtain a b where ab: "to_lower s = a @ trim_space (to_lower s) @ b"
    using trim_space_infix by blast
  have "c \<in> set (to_lower s) \<Longrightarrow> lower_char c = c" for c
    by (auto simp: to_lower_def)
  then have "c \<in> set (trim_space (to_lower s)) \<Longrightarrow> lower_char c = c" for c
    by (subst (asm) ab) simp
  then show ?thesis by (simp add: to_lower_def [of "trim_space _"] map_idI)
qed

lemma validate_route_Inr_iff:
  "validate_route r = Inr u \<longleftrightarrow> name_ok (rt_prefix r) \<and> rt_prefix r \<notin> reserved
     \<and> backend_ok (rt_target r) \<and> 0 \<le> rt_max r"
  by (auto simp: validate_route_def res_iffs prefixPattern_iff backend_ok_def split: sum.splits)

lemma site_route_step_Inr_iff:
  "site_route_step seen r = Inr (seen', r') \<longleftrightarrow>
     r' = normalize_route r \<and> seen' = rt_prefix r' # seen \<and> rt_prefix r' \<notin> set seen
     \<and> name_ok (rt_prefix r') \<and> rt_prefix r' \<notin> reserved \<and> backend_ok (rt_target r') \<and> 0 \<le> rt_max r'"
  by (auto simp: site_route_step_def Let_def res_iffs validate_route_Inr_iff)

lemma normalize_route_trimmed [simp]:
  "trimmed (rt_target (normalize_route r))" "trimmed (rt_desc (normalize_route r))"
  by (simp_all add: normalize_route_def)

lemma normalize_route_wf_id: "route_wf r \<Longrightarrow> normalize_route r = r"
proof -
  assume wf: "route_wf r"
  then have "name_ok (rt_prefix r)" by (simp add: route_wf_def)
  then have "trim_space (rt_prefix r) = rt_prefix r" "slash \<notin> set (rt_prefix r)"
    using name_ok_trimmed trim_space_id name_byte_no_slash by (auto simp: name_ok_def)
  with wf show ?thesis
    by (simp add: normalize_route_def route_wf_def trim_space_id trim_byte_absent)
qed

lemma site_routes_spec:
  "each_res site_route_step seen rs = Inr rs' \<Longrightarrow>
     (\<forall>r\<in>set rs'. route_wf r) \<and> distinct (map rt_prefix rs') \<and> set (map rt_prefix rs') \<inter> set seen = {}"
proof (induction rs arbitrary: seen rs')
  case (Cons r rs)
  then obtain seen' r' rs'' where
      step: "site_route_step seen r = Inr (seen', r')" and
      rest: "each_res site_route_step seen' rs = Inr rs''" and rs': "rs' = r' # rs''"
    by (auto simp: each_res_Cons_Inr simp del: each_res.simps)
  from Cons.IH [OF rest] step rs' show ?case
    by (auto simp: site_route_step_Inr_iff route_wf_def)
qed auto

lemma site_routes_map: "each_res site_route_step seen rs = Inr rs' \<Longrightarrow> rs' = map normalize_route rs"
  by (induction rs arbitrary: seen rs')
    (auto simp: each_res_Cons_Inr site_route_step_Inr_iff simp del: each_res.simps(2))

lemma site_routes_id:
  "(\<forall>r\<in>set rs. route_wf r) \<Longrightarrow> distinct (map rt_prefix rs) \<Longrightarrow> set (map rt_prefix rs) \<inter> set seen = {}
     \<Longrightarrow> each_res site_route_step seen rs = Inr rs"
proof (induction rs arbitrary: seen)
  case (Cons r rs)
  have "site_route_step seen r = Inr (rt_prefix r # seen, r)"
    using Cons.prems by (auto simp: site_route_step_Inr_iff normalize_route_wf_id route_wf_def)
  then show ?case using Cons by simp
qed auto

lemma validateSite_wf: "validateSite s = Inr s' \<Longrightarrow> site_wf s'"
  by (auto simp: validateSite_def Let_def res_iffs hostPattern_iff site_wf_def lower_host_def
      trim_to_lower_lower dest!: site_routes_spec)

lemma site_wf_validate: "site_wf s \<Longrightarrow> validateSite s = Inr s"
  by (simp add: validateSite_def site_wf_def lower_host_def hostPattern_iff trim_space_id
      host_ok_trimmed site_routes_id)

lemma domain_forward_step_Inr:
  "domain_forward_step seen f = Inr (seen', f') \<Longrightarrow>
     port_forward_wf f' \<and> seen' = pf_port f' # seen \<and> pf_port f' \<notin> set seen \<and> pf_port f' = pf_port f
     \<and> pf_enabled f' = pf_enabled f \<and> pf_proxy_proto f' = pf_proxy_proto f
     \<and> pf_manage f' = (pf_manage f \<and> pf_port f \<noteq> 80)"
  by (cases "pf_port f = 80"; cases "pf_manage f")
    (auto simp: domain_forward_step_def Let_def res_iffs port_forward_wf_def
      normalizeHostPort_canonical)

lemma domain_forward_step_id:
  "port_forward_wf f \<Longrightarrow> trimmed (pf_target f) \<Longrightarrow> pf_port f \<notin> set seen \<Longrightarrow>
     domain_forward_step seen f = Inr (pf_port f # seen, f)"
  by (auto simp: domain_forward_step_def Let_def port_forward_wf_def canonical_normalize_id trim_space_id)

lemma domain_forwards_spec:
  "each_res domain_forward_step seen fs = Inr fs' \<Longrightarrow>
     (\<forall>f\<in>set fs'. port_forward_wf f) \<and> distinct (map pf_port fs') \<and> set (map pf_port fs') \<inter> set seen = {}
     \<and> length fs' = length fs"
proof (induction fs arbitrary: seen fs')
  case (Cons f fs)
  then obtain seen' f' fs'' where
      step: "domain_forward_step seen f = Inr (seen', f')" and
      rest: "each_res domain_forward_step seen' fs = Inr fs''" and fs': "fs' = f' # fs''"
    by (auto simp: each_res_Cons_Inr simp del: each_res.simps)
  from Cons.IH [OF rest] domain_forward_step_Inr [OF step] fs' show ?case by auto
qed auto

lemma domain_forwards_id:
  "(\<forall>f\<in>set fs. port_forward_wf f \<and> trimmed (pf_target f)) \<Longrightarrow> distinct (map pf_port fs) \<Longrightarrow>
     set (map pf_port fs) \<inter> set seen = {} \<Longrightarrow> each_res domain_forward_step seen fs = Inr fs"
  by (induction fs arbitrary: seen) (auto simp: domain_forward_step_id)

lemma validateDomain_wf: "validateDomain d = Inr d' \<Longrightarrow> domain_wf d'"
  by (auto simp: validateDomain_def Let_def res_iffs hostPattern_iff domain_wf_def lower_host_def
      trim_to_lower_lower dest!: domain_forwards_spec)

lemma domain_wf_validate:
  "domain_wf d \<Longrightarrow> \<forall>f\<in>set (dm_forwards d). trimmed (pf_target f) \<Longrightarrow> validateDomain d = Inr d"
  by (simp add: validateDomain_def domain_wf_def lower_host_def hostPattern_iff trim_space_id
      host_ok_trimmed domain_forwards_id)

lemma validateForward_wf: "validateForward f = Inr f' \<Longrightarrow> forward_wf f'"
  by (auto simp: validateForward_def Let_def res_iffs prefixPattern_iff forward_wf_def
      normalizeListen_canonical normalizeHostPort_canonical split: if_splits)

lemma proto_norm_id:
  "p = ''tcp'' \<or> p = ''udp'' \<or> p = ''tcp+udp'' \<Longrightarrow> to_lower (trim_space p) = p"
  by (elim disjE) (simp_all add: to_lower_def lower_char_def byte_class_defs
      trim_space_id trimmed_plain plain_byte_def)

lemma forward_wf_validate:
  "forward_wf f \<Longrightarrow> trimmed (fw_listen f) \<Longrightarrow> trimmed (fw_target f) \<Longrightarrow> validateForward f = Inr f"
  using proto_norm_id [of "fw_proto f"]
  by (auto simp: validateForward_def Let_def prefixPattern_iff forward_wf_def trim_space_id
      name_ok_trimmed canonical_listen_id canonical_normalize_id)

lemma validateDNAT_wf: "validateDNAT d = Inr d' \<Longrightarrow> dnat_wf d'"
  by (auto simp: validateDNAT_def Let_def res_iffs prefixPattern_iff dnat_wf_def
      normalizeHostPort_canonical)

lemma dnat_wf_validate: "dnat_wf d \<Longrightarrow> trimmed (dn_target d) \<Longrightarrow> validateDNAT d = Inr d"
  using proto_norm_id [of "dn_proto d"]
  by (auto simp: validateDNAT_def Let_def prefixPattern_iff dnat_wf_def trim_space_id
      name_ok_trimmed canonical_normalize_id)

lemmas [model_eval] = normalizeHostPort_def normalizeListen_def reserved_def validate_route_def
  normalize_route_def site_route_step_def validateSite_def domain_forward_step_def validateDomain_def
  validateForward_def validateDNAT_def

end
