(* ===== verification/Store.thy ===== *)
theory Store
  imports Compile Validate
begin

text \<open>
  The configuration store of \<open>config.go\<close>: its state, persisting, recompiling, and the
  eight operations that change it, each the whole method with its checks in the
  code's order. A method runs under the store's lock, so a call is one step. An
  operation returns its error, the new state (which changes even where some errors
  are returned) and the notifications it fires after unlocking. What the file
  system answers is an input; the file holds the configuration last written.
\<close>

record store =
  st_sites :: "http_site list"
  st_forwards :: "forward list"
  st_dnat :: "dnat_rule list"
  st_domains :: "domain list"
  st_csites :: site_table
  st_cdom :: domain_table
  st_chans :: nat
  st_on_forward :: bool
  st_on_dnat :: bool
  st_on_domain :: bool
  st_file :: "config_file option"

datatype notification = NotifyForwards "forward list" | NotifyDNAT "dnat_rule list" | NotifyDomain

datatype io_result = IoOk | IoWriteError string | IoRenameError string

type_synonym outcome = "err option \<times> store \<times> notification list"

definition config_of :: "store \<Rightarrow> config_file" where
  "config_of s = \<lparr>cf_sites = st_sites s, cf_forwards = st_forwards s, cf_dnat = st_dnat s,
     cf_domains = st_domains s\<rparr>"

section \<open>Persisting and recompiling\<close>

text \<open>The new file appears by the rename: a failed write or rename leaves the old one.\<close>

definition persistLocked :: "io_result \<Rightarrow> store \<Rightarrow> err option \<times> store" where
  "persistLocked io s =
     (case io of
        IoWriteError e \<Rightarrow> (Some (WriteFailed e), s)
      | IoRenameError e \<Rightarrow> (Some (RenameFailed e), s)
      | IoOk \<Rightarrow> (None, s\<lparr>st_file := Some (config_of s)\<rparr>))"

text \<open>The table of sites is installed before the domains are compiled.\<close>

definition recompileLocked :: "store \<Rightarrow> err option \<times> store" where
  "recompileLocked s =
     (case compile_sites (st_chans s) (st_sites s) [] of
        Inl e \<Rightarrow> (Some e, s)
      | Inr (n, tab) \<Rightarrow>
          (let s1 = s\<lparr>st_csites := tab, st_chans := n\<rparr>
           in case compile_domains (st_domains s) [] of
                Inl e \<Rightarrow> (Some e, s1)
              | Inr tb \<Rightarrow> (None, s1\<lparr>st_cdom := tb\<rparr>)))"

definition commitLocked :: "io_result \<Rightarrow> store \<Rightarrow> err option \<times> store" where
  "commitLocked io s =
     (case recompileLocked s of
        (Some e, s1) \<Rightarrow> (Some e, s1)
      | (None, s1) \<Rightarrow> persistLocked io s1)"

definition fireForwards :: "store \<Rightarrow> notification list" where
  "fireForwards s = (if st_on_forward s then [NotifyForwards (st_forwards s)] else [])"

definition fireDNAT :: "store \<Rightarrow> notification list" where
  "fireDNAT s = (if st_on_dnat s then [NotifyDNAT (st_dnat s)] else [])"

definition fireDomain :: "store \<Rightarrow> notification list" where
  "fireDomain s = (if st_on_domain s then [NotifyDomain] else [])"

text \<open>What the pages and \<open>main\<close> read: copies of the four lists.\<close>

definition ListSites :: "store \<Rightarrow> http_site list" where
  "ListSites s = st_sites s"

definition ListDomains :: "store \<Rightarrow> domain list" where
  "ListDomains s = st_domains s"

definition ListForwards :: "store \<Rightarrow> forward list" where
  "ListForwards s = st_forwards s"

definition ListDNAT :: "store \<Rightarrow> dnat_rule list" where
  "ListDNAT s = st_dnat s"

lemmas list_defs [simp] = ListSites_def ListDomains_def ListForwards_def ListDNAT_def

definition SetForwardListener :: "store \<Rightarrow> store" where
  "SetForwardListener s = s\<lparr>st_on_forward := True\<rparr>"

definition SetDNATListener :: "store \<Rightarrow> store" where
  "SetDNATListener s = s\<lparr>st_on_dnat := True\<rparr>"

definition SetDomainListener :: "store \<Rightarrow> store" where
  "SetDomainListener s = s\<lparr>st_on_domain := True\<rparr>"

text \<open>After the commit or persist: an error returns at once, success fires.\<close>

definition finish :: "(store \<Rightarrow> notification list) \<Rightarrow> err option \<times> store \<Rightarrow> outcome" where
  "finish fire r = (case r of (Some e, s) \<Rightarrow> (Some e, s, []) | (None, s) \<Rightarrow> (None, s, fire s))"

section \<open>Sites and domains\<close>

definition edit_sites :: "string \<Rightarrow> http_site \<Rightarrow> http_site list \<Rightarrow> err + http_site list" where
  "edit_sites = upsert_entry hs_host equal_fold SiteExists SiteMissing"

definition remove_sites :: "string \<Rightarrow> http_site list \<Rightarrow> err + http_site list" where
  "remove_sites = delete_entry hs_host equal_fold SiteMissing"

definition UpsertSite :: "io_result \<Rightarrow> string \<Rightarrow> http_site \<Rightarrow> store \<Rightarrow> outcome" where
  "UpsertSite io oldHost site0 s =
     (case validateSite site0 of
        Inl e \<Rightarrow> (Some e, s, [])
      | Inr site \<Rightarrow>
          (case edit_sites oldHost site (st_sites s) of
             Inl e \<Rightarrow> (Some e, s, [])
           | Inr xs \<Rightarrow> finish (\<lambda>_. []) (commitLocked io (s\<lparr>st_sites := xs\<rparr>))))"

definition DeleteSite :: "io_result \<Rightarrow> string \<Rightarrow> store \<Rightarrow> outcome" where
  "DeleteSite io host s =
     (case remove_sites host (st_sites s) of
        Inl e \<Rightarrow> (Some e, s, [])
      | Inr xs \<Rightarrow> finish (\<lambda>_. []) (commitLocked io (s\<lparr>st_sites := xs\<rparr>)))"

definition edit_domains :: "string \<Rightarrow> domain \<Rightarrow> domain list \<Rightarrow> err + domain list" where
  "edit_domains = upsert_entry dm_host equal_fold DomainExists DomainMissing"

definition remove_domains :: "string \<Rightarrow> domain list \<Rightarrow> err + domain list" where
  "remove_domains = delete_entry dm_host equal_fold DomainMissing"

definition UpsertDomain :: "io_result \<Rightarrow> string \<Rightarrow> domain \<Rightarrow> store \<Rightarrow> outcome" where
  "UpsertDomain io oldHost d0 s =
     (case validateDomain d0 of
        Inl e \<Rightarrow> (Some e, s, [])
      | Inr d \<Rightarrow>
          (case edit_domains oldHost d (st_domains s) of
             Inl e \<Rightarrow> (Some e, s, [])
           | Inr xs \<Rightarrow> finish fireDomain (commitLocked io (s\<lparr>st_domains := xs\<rparr>))))"

definition DeleteDomain :: "io_result \<Rightarrow> string \<Rightarrow> store \<Rightarrow> outcome" where
  "DeleteDomain io host s =
     (case remove_domains host (st_domains s) of
        Inl e \<Rightarrow> (Some e, s, [])
      | Inr xs \<Rightarrow> finish fireDomain (commitLocked io (s\<lparr>st_domains := xs\<rparr>)))"

section \<open>Port forwards and DNAT rules\<close>

text \<open>Before the key is looked at, no other entry may hold the same listener.\<close>

definition edit_forwards :: "string \<Rightarrow> forward \<Rightarrow> forward list \<Rightarrow> err + forward list" where
  "edit_forwards oldName f xs =
     (case find (\<lambda>e. fw_name e \<noteq> fw_name f \<and> fw_proto e = fw_proto f \<and> fw_listen e = fw_listen f) xs of
        Some e \<Rightarrow> Inl (ListenInUse (fw_proto f) (fw_listen f) (fw_name e))
      | None \<Rightarrow> upsert_entry fw_name (=) ForwardExists ForwardMissing oldName f xs)"

definition remove_forwards :: "string \<Rightarrow> forward list \<Rightarrow> err + forward list" where
  "remove_forwards = delete_entry fw_name (=) ForwardMissing"

definition UpsertForward :: "io_result \<Rightarrow> string \<Rightarrow> forward \<Rightarrow> store \<Rightarrow> outcome" where
  "UpsertForward io oldName f0 s =
     (case validateForward f0 of
        Inl e \<Rightarrow> (Some e, s, [])
      | Inr f \<Rightarrow>
          (case edit_forwards oldName f (st_forwards s) of
             Inl e \<Rightarrow> (Some e, s, [])
           | Inr xs \<Rightarrow> finish fireForwards (persistLocked io (s\<lparr>st_forwards := xs\<rparr>))))"

definition DeleteForward :: "io_result \<Rightarrow> string \<Rightarrow> store \<Rightarrow> outcome" where
  "DeleteForward io name s =
     (case remove_forwards name (st_forwards s) of
        Inl e \<Rightarrow> (Some e, s, [])
      | Inr xs \<Rightarrow> finish fireForwards (persistLocked io (s\<lparr>st_forwards := xs\<rparr>)))"

definition edit_dnat :: "string \<Rightarrow> dnat_rule \<Rightarrow> dnat_rule list \<Rightarrow> err + dnat_rule list" where
  "edit_dnat oldName d xs =
     (case find (\<lambda>e. dn_name e \<noteq> dn_name d \<and> dn_proto e = dn_proto d \<and> dn_port e = dn_port d) xs of
        Some e \<Rightarrow> Inl (PortInUse (dn_proto d) (dn_port d) (dn_name e))
      | None \<Rightarrow> upsert_entry dn_name (=) RuleExists RuleMissing oldName d xs)"

definition remove_dnat :: "string \<Rightarrow> dnat_rule list \<Rightarrow> err + dnat_rule list" where
  "remove_dnat = delete_entry dn_name (=) RuleMissing"

definition UpsertDNAT :: "io_result \<Rightarrow> string \<Rightarrow> dnat_rule \<Rightarrow> store \<Rightarrow> outcome" where
  "UpsertDNAT io oldName d0 s =
     (case validateDNAT d0 of
        Inl e \<Rightarrow> (Some e, s, [])
      | Inr d \<Rightarrow>
          (case edit_dnat oldName d (st_dnat s) of
             Inl e \<Rightarrow> (Some e, s, [])
           | Inr xs \<Rightarrow> finish fireDNAT (persistLocked io (s\<lparr>st_dnat := xs\<rparr>))))"

definition DeleteDNAT :: "io_result \<Rightarrow> string \<Rightarrow> store \<Rightarrow> outcome" where
  "DeleteDNAT io name s =
     (case remove_dnat name (st_dnat s) of
        Inl e \<Rightarrow> (Some e, s, [])
      | Inr xs \<Rightarrow> finish fireDNAT (persistLocked io (s\<lparr>st_dnat := xs\<rparr>)))"

section \<open>Lookups\<close>

definition MatchSite :: "store \<Rightarrow> string \<Rightarrow> string \<Rightarrow> compiled_route option" where
  "MatchSite s host path = match_site (st_csites s) host path"

definition IsHTTPHost :: "store \<Rightarrow> string \<Rightarrow> bool" where
  "IsHTTPHost s host = is_http_host (st_csites s) host"

definition MatchDomain :: "store \<Rightarrow> string \<Rightarrow> int \<Rightarrow> compiled_pf option" where
  "MatchDomain s host port = match_domain (st_cdom s) host port"

definition IsTerminateHost :: "store \<Rightarrow> string \<Rightarrow> bool" where
  "IsTerminateHost s host = is_terminate_host (st_cdom s) host"

definition DomainPorts :: "store \<Rightarrow> int list" where
  "DomainPorts s = domain_ports (st_cdom s)"

section \<open>Operations as a datatype\<close>

datatype store_op =
    OpUpsertSite string http_site
  | OpDeleteSite string
  | OpUpsertDomain string domain
  | OpDeleteDomain string
  | OpUpsertForward string forward
  | OpDeleteForward string
  | OpUpsertDNAT string dnat_rule
  | OpDeleteDNAT string

fun run_op :: "io_result \<Rightarrow> store_op \<Rightarrow> store \<Rightarrow> outcome" where
  "run_op io (OpUpsertSite old x) s = UpsertSite io old x s"
| "run_op io (OpDeleteSite k) s = DeleteSite io k s"
| "run_op io (OpUpsertDomain old x) s = UpsertDomain io old x s"
| "run_op io (OpDeleteDomain k) s = DeleteDomain io k s"
| "run_op io (OpUpsertForward old x) s = UpsertForward io old x s"
| "run_op io (OpDeleteForward k) s = DeleteForward io k s"
| "run_op io (OpUpsertDNAT old x) s = UpsertDNAT io old x s"
| "run_op io (OpDeleteDNAT k) s = DeleteDNAT io k s"

lemmas op_defs = UpsertSite_def DeleteSite_def UpsertDomain_def DeleteDomain_def
  UpsertForward_def DeleteForward_def UpsertDNAT_def DeleteDNAT_def

section \<open>The four tables meet the contract\<close>

definition site_key :: "http_site \<Rightarrow> string" where
  "site_key x = to_lower (hs_host x)"

definition domain_key :: "domain \<Rightarrow> string" where
  "domain_key x = to_lower (dm_host x)"

definition forward_slot :: "forward \<Rightarrow> string \<times> string" where
  "forward_slot f = (fw_proto f, fw_listen f)"

definition dnat_slot :: "dnat_rule \<Rightarrow> string \<times> int" where
  "dnat_slot d = (dn_proto d, dn_port d)"

interpretation sites: keyed_table site_key to_lower edit_sites remove_sites
proof unfold_locales
  note c = upsert_entry_contract [where norm = to_lower and key = hs_host, OF equal_fold_iff]
  note d = delete_entry_contract [where norm = to_lower and key = hs_host, OF equal_fold_iff]
  fix x :: http_site and xs ys and old k :: string
  show "edit_sites [] x xs = Inr ys \<Longrightarrow> ys = xs @ [x] \<and> site_key x \<notin> key_set site_key xs"
    unfolding edit_sites_def site_key_def by (rule c(1))
  show "old \<noteq> [] \<Longrightarrow> edit_sites old x xs = Inr ys \<Longrightarrow>
      (\<exists>us e vs. xs = us @ e # vs \<and> ys = us @ x # vs \<and> site_key e = to_lower old)
      \<and> (site_key x = to_lower old \<or> site_key x \<notin> key_set site_key xs)"
    unfolding edit_sites_def site_key_def by (rule c(2))
  show "remove_sites k xs = Inr ys \<Longrightarrow>
      ys = filter (\<lambda>x. site_key x \<noteq> to_lower k) xs \<and> to_lower k \<in> key_set site_key xs"
    unfolding remove_sites_def site_key_def by (rule d(1))
  show "to_lower k \<notin> key_set site_key xs \<Longrightarrow> \<exists>e. remove_sites k xs = Inl e"
    unfolding remove_sites_def site_key_def by (blast intro: d(2))
qed

interpretation domains: keyed_table domain_key to_lower edit_domains remove_domains
proof unfold_locales
  note c = upsert_entry_contract [where norm = to_lower and key = dm_host, OF equal_fold_iff]
  note d = delete_entry_contract [where norm = to_lower and key = dm_host, OF equal_fold_iff]
  fix x :: domain and xs ys and old k :: string
  show "edit_domains [] x xs = Inr ys \<Longrightarrow> ys = xs @ [x] \<and> domain_key x \<notin> key_set domain_key xs"
    unfolding edit_domains_def domain_key_def by (rule c(1))
  show "old \<noteq> [] \<Longrightarrow> edit_domains old x xs = Inr ys \<Longrightarrow>
      (\<exists>us e vs. xs = us @ e # vs \<and> ys = us @ x # vs \<and> domain_key e = to_lower old)
      \<and> (domain_key x = to_lower old \<or> domain_key x \<notin> key_set domain_key xs)"
    unfolding edit_domains_def domain_key_def by (rule c(2))
  show "remove_domains k xs = Inr ys \<Longrightarrow>
      ys = filter (\<lambda>x. domain_key x \<noteq> to_lower k) xs \<and> to_lower k \<in> key_set domain_key xs"
    unfolding remove_domains_def domain_key_def by (rule d(1))
  show "to_lower k \<notin> key_set domain_key xs \<Longrightarrow> \<exists>e. remove_domains k xs = Inl e"
    unfolding remove_domains_def domain_key_def by (blast intro: d(2))
qed

lemma edit_forwards_Inr:
  "edit_forwards old f xs = Inr ys \<Longrightarrow>
     upsert_entry fw_name (=) ForwardExists ForwardMissing old f xs = Inr ys
     \<and> (\<forall>e\<in>set xs. forward_slot e = forward_slot f \<longrightarrow> fw_name e = fw_name f)"
  by (auto simp: edit_forwards_def forward_slot_def find_None_all split: option.splits)

lemma edit_dnat_Inr:
  "edit_dnat old f xs = Inr ys \<Longrightarrow>
     upsert_entry dn_name (=) RuleExists RuleMissing old f xs = Inr ys
     \<and> (\<forall>e\<in>set xs. dnat_slot e = dnat_slot f \<longrightarrow> dn_name e = dn_name f)"
  by (auto simp: edit_dnat_def dnat_slot_def find_None_all split: option.splits)

interpretation forwards: slotted_table fw_name "\<lambda>k. k" edit_forwards remove_forwards forward_slot
proof unfold_locales
  note c = upsert_entry_contract [where norm = "\<lambda>k. k" and key = fw_name and same = "(=)", OF refl]
  note d = delete_entry_contract [where norm = "\<lambda>k. k" and key = fw_name and same = "(=)", OF refl]
  fix x e :: forward and xs ys and old k :: string
  show "edit_forwards [] x xs = Inr ys \<Longrightarrow> ys = xs @ [x] \<and> fw_name x \<notin> key_set fw_name xs"
    by (drule edit_forwards_Inr) (rule c(1), blast)
  show "old \<noteq> [] \<Longrightarrow> edit_forwards old x xs = Inr ys \<Longrightarrow>
      (\<exists>us e vs. xs = us @ e # vs \<and> ys = us @ x # vs \<and> fw_name e = old)
      \<and> (fw_name x = old \<or> fw_name x \<notin> key_set fw_name xs)"
    by (drule edit_forwards_Inr) (rule c(2), blast+)
  show "remove_forwards k xs = Inr ys \<Longrightarrow>
      ys = filter (\<lambda>x. fw_name x \<noteq> k) xs \<and> k \<in> key_set fw_name xs"
    unfolding remove_forwards_def by (rule d(1))
  show "k \<notin> key_set fw_name xs \<Longrightarrow> \<exists>e. remove_forwards k xs = Inl e"
    unfolding remove_forwards_def by (blast intro: d(2))
  show "edit_forwards old x xs = Inr ys \<Longrightarrow> e \<in> set xs \<Longrightarrow> forward_slot e = forward_slot x \<Longrightarrow>
      fw_name e = fw_name x"
    by (blast dest: edit_forwards_Inr)
qed

interpretation dnat: slotted_table dn_name "\<lambda>k. k" edit_dnat remove_dnat dnat_slot
proof unfold_locales
  note c = upsert_entry_contract [where norm = "\<lambda>k. k" and key = dn_name and same = "(=)", OF refl]
  note d = delete_entry_contract [where norm = "\<lambda>k. k" and key = dn_name and same = "(=)", OF refl]
  fix x e :: dnat_rule and xs ys and old k :: string
  show "edit_dnat [] x xs = Inr ys \<Longrightarrow> ys = xs @ [x] \<and> dn_name x \<notin> key_set dn_name xs"
    by (drule edit_dnat_Inr) (rule c(1), blast)
  show "old \<noteq> [] \<Longrightarrow> edit_dnat old x xs = Inr ys \<Longrightarrow>
      (\<exists>us e vs. xs = us @ e # vs \<and> ys = us @ x # vs \<and> dn_name e = old)
      \<and> (dn_name x = old \<or> dn_name x \<notin> key_set dn_name xs)"
    by (drule edit_dnat_Inr) (rule c(2), blast+)
  show "remove_dnat k xs = Inr ys \<Longrightarrow>
      ys = filter (\<lambda>x. dn_name x \<noteq> k) xs \<and> k \<in> key_set dn_name xs"
    unfolding remove_dnat_def by (rule d(1))
  show "k \<notin> key_set dn_name xs \<Longrightarrow> \<exists>e. remove_dnat k xs = Inl e"
    unfolding remove_dnat_def by (blast intro: d(2))
  show "edit_dnat old x xs = Inr ys \<Longrightarrow> e \<in> set xs \<Longrightarrow> dnat_slot e = dnat_slot x \<Longrightarrow>
      dn_name e = dn_name x"
    by (blast dest: edit_dnat_Inr)
qed

lemmas [model_eval] = config_of_def persistLocked_def recompileLocked_def commitLocked_def
  fireForwards_def fireDNAT_def fireDomain_def finish_def edit_sites_def remove_sites_def
  edit_domains_def remove_domains_def edit_forwards_def remove_forwards_def edit_dnat_def
  remove_dnat_def upsert_entry_def delete_entry_def remove_where_def last_idx_def op_defs
  MatchSite_def IsHTTPHost_def MatchDomain_def IsTerminateHost_def DomainPorts_def

end
