(* ===== verification/StoreInv.thy ===== *)
theory StoreInv
  imports Store
begin

text \<open>
  What the store keeps true. Every operation splits into an edit of the
  configuration, a pure function, and the way it is written out; the invariant of
  the configuration (unique keys, unique listeners, well-formed entries) is one of
  the edits and so survives even operations that end in an error. On top come the
  agreement of the compiled tables with the configuration and of the file with the
  memory, the reachable states, and the refinement of the four slices by four
  finite maps.
\<close>

section \<open>An operation as an edit and a write\<close>

definition with_config :: "config_file \<Rightarrow> store \<Rightarrow> store" where
  "with_config c s = s\<lparr>st_sites := cf_sites c, st_forwards := cf_forwards c,
     st_dnat := cf_dnat c, st_domains := cf_domains c\<rparr>"

definition edit_in :: "err + 'a \<Rightarrow> ('a \<Rightarrow> err + 'b) \<Rightarrow> ('b \<Rightarrow> config_file) \<Rightarrow> err + config_file" where
  "edit_in v e put = bind_res v (\<lambda>x. bind_res (e x) (\<lambda>xs. Inr (put xs)))"

fun op_config :: "store_op \<Rightarrow> config_file \<Rightarrow> err + config_file" where
  "op_config (OpUpsertSite old x) c =
     edit_in (validateSite x) (\<lambda>x. edit_sites old x (cf_sites c)) (\<lambda>xs. c\<lparr>cf_sites := xs\<rparr>)"
| "op_config (OpDeleteSite k) c =
     edit_in (Inr ()) (\<lambda>_. remove_sites k (cf_sites c)) (\<lambda>xs. c\<lparr>cf_sites := xs\<rparr>)"
| "op_config (OpUpsertDomain old x) c =
     edit_in (validateDomain x) (\<lambda>x. edit_domains old x (cf_domains c)) (\<lambda>xs. c\<lparr>cf_domains := xs\<rparr>)"
| "op_config (OpDeleteDomain k) c =
     edit_in (Inr ()) (\<lambda>_. remove_domains k (cf_domains c)) (\<lambda>xs. c\<lparr>cf_domains := xs\<rparr>)"
| "op_config (OpUpsertForward old x) c =
     edit_in (validateForward x) (\<lambda>x. edit_forwards old x (cf_forwards c)) (\<lambda>xs. c\<lparr>cf_forwards := xs\<rparr>)"
| "op_config (OpDeleteForward k) c =
     edit_in (Inr ()) (\<lambda>_. remove_forwards k (cf_forwards c)) (\<lambda>xs. c\<lparr>cf_forwards := xs\<rparr>)"
| "op_config (OpUpsertDNAT old x) c =
     edit_in (validateDNAT x) (\<lambda>x. edit_dnat old x (cf_dnat c)) (\<lambda>xs. c\<lparr>cf_dnat := xs\<rparr>)"
| "op_config (OpDeleteDNAT k) c =
     edit_in (Inr ()) (\<lambda>_. remove_dnat k (cf_dnat c)) (\<lambda>xs. c\<lparr>cf_dnat := xs\<rparr>)"

fun op_recompiles :: "store_op \<Rightarrow> bool" where
  "op_recompiles (OpUpsertSite _ _) = True"
| "op_recompiles (OpDeleteSite _) = True"
| "op_recompiles (OpUpsertDomain _ _) = True"
| "op_recompiles (OpDeleteDomain _) = True"
| "op_recompiles _ = False"

fun op_fire :: "store_op \<Rightarrow> store \<Rightarrow> notification list" where
  "op_fire (OpUpsertSite _ _) = (\<lambda>_. [])"
| "op_fire (OpDeleteSite _) = (\<lambda>_. [])"
| "op_fire (OpUpsertDomain _ _) = fireDomain"
| "op_fire (OpDeleteDomain _) = fireDomain"
| "op_fire (OpUpsertForward _ _) = fireForwards"
| "op_fire (OpDeleteForward _) = fireForwards"
| "op_fire (OpUpsertDNAT _ _) = fireDNAT"
| "op_fire (OpDeleteDNAT _) = fireDNAT"

definition op_write :: "store_op \<Rightarrow> io_result \<Rightarrow> store \<Rightarrow> err option \<times> store" where
  "op_write op io s = (if op_recompiles op then commitLocked io s else persistLocked io s)"

lemma with_config_fields:
  "with_config (config_of s\<lparr>cf_sites := xs\<rparr>) s = s\<lparr>st_sites := xs\<rparr>"
  "with_config (config_of s\<lparr>cf_forwards := fs\<rparr>) s = s\<lparr>st_forwards := fs\<rparr>"
  "with_config (config_of s\<lparr>cf_dnat := rs\<rparr>) s = s\<lparr>st_dnat := rs\<rparr>"
  "with_config (config_of s\<lparr>cf_domains := ds\<rparr>) s = s\<lparr>st_domains := ds\<rparr>"
  by (simp_all add: with_config_def config_of_def)

lemma config_of_fields [simp]:
  "cf_sites (config_of s) = st_sites s" "cf_forwards (config_of s) = st_forwards s"
  "cf_dnat (config_of s) = st_dnat s" "cf_domains (config_of s) = st_domains s"
  by (simp_all add: config_of_def)

lemma config_of_with [simp]: "config_of (with_config c s) = c"
  by (simp add: with_config_def config_of_def)

theorem run_op_factors:
  "run_op io op s =
     (case op_config op (config_of s) of
        Inl e \<Rightarrow> (Some e, s, [])
      | Inr c \<Rightarrow> finish (op_fire op) (op_write op io (with_config c s)))"
  by (cases op) (simp_all add: op_defs edit_in_def op_write_def with_config_fields bind_res_def split: sum.split)

section \<open>Writing changes no entry\<close>

lemma recompileLocked_config: "recompileLocked s = (e, s') \<Longrightarrow> config_of s' = config_of s \<and> st_file s' = st_file s"
  by (auto simp: recompileLocked_def config_of_def Let_def split: sum.splits prod.splits)

lemma persistLocked_config: "persistLocked io s = (e, s') \<Longrightarrow> config_of s' = config_of s"
  by (auto simp: persistLocked_def config_of_def split: io_result.splits)

lemma commitLocked_config: "commitLocked io s = (e, s') \<Longrightarrow> config_of s' = config_of s"
  by (auto simp: commitLocked_def split: prod.splits option.splits
      dest!: recompileLocked_config persistLocked_config)

lemma op_write_config: "op_write op io s = (e, s') \<Longrightarrow> config_of s' = config_of s"
  by (auto simp: op_write_def split: if_splits dest: commitLocked_config persistLocked_config)

lemma finish_eq: "finish f r = (e, s', ns) \<longleftrightarrow> r = (e, s') \<and> ns = (if e = None then f s' else [])"
  by (cases r; cases "fst r") (auto simp: finish_def)

lemma run_op_config:
  assumes "run_op io op s = (e, s', ns)"
  shows "(\<exists>e'. op_config op (config_of s) = Inl e' \<and> e = Some e' \<and> s' = s \<and> ns = [])
    \<or> op_config op (config_of s) = Inr (config_of s')
      \<and> op_write op io (with_config (config_of s') s) = (e, s') \<and> ns = (if e = None then op_fire op s' else [])"
proof (cases "op_config op (config_of s)")
  case (Inl e')
  with assms show ?thesis by (simp add: run_op_factors)
next
  case (Inr c)
  with assms have w: "op_write op io (with_config c s) = (e, s')" and n: "ns = (if e = None then op_fire op s' else [])"
    by (auto simp: run_op_factors finish_eq)
  from op_write_config [OF w] have "config_of s' = c" by simp
  with Inr w n show ?thesis by simp
qed

section \<open>The invariant of the configuration\<close>

definition config_ok :: "config_file \<Rightarrow> bool" where
  "config_ok c \<longleftrightarrow>
     unique_keys site_key (cf_sites c) \<and> unique_keys domain_key (cf_domains c)
     \<and> unique_keys fw_name (cf_forwards c) \<and> unique_keys dn_name (cf_dnat c)
     \<and> distinct (map forward_slot (cf_forwards c)) \<and> distinct (map dnat_slot (cf_dnat c))
     \<and> (\<forall>x\<in>set (cf_sites c). site_wf x) \<and> (\<forall>x\<in>set (cf_domains c). domain_wf x)
     \<and> (\<forall>x\<in>set (cf_forwards c). forward_wf x) \<and> (\<forall>x\<in>set (cf_dnat c). dnat_wf x)"

lemma edit_in_Inr_iff:
  "edit_in v e put = Inr c \<longleftrightarrow> (\<exists>x xs. v = Inr x \<and> e x = Inr xs \<and> c = put xs)"
  by (auto simp: edit_in_def res_iffs)

lemma edit_in_Inl_iff:
  "edit_in v e put = Inl er \<longleftrightarrow> v = Inl er \<or> (\<exists>x. v = Inr x \<and> e x = Inl er)"
  by (auto simp: edit_in_def res_iffs)

lemma wf_after:
  "set ys \<subseteq> insert x (set xs) \<Longrightarrow> W x \<Longrightarrow> \<forall>y\<in>set xs. W y \<Longrightarrow> \<forall>y\<in>set ys. W y"
  by auto

lemma op_config_ok:
  assumes ok: "config_ok c" and step: "op_config op c = Inr c'"
  shows "config_ok c'"
proof (cases op)
  case (OpUpsertSite old x)
  with step obtain x' ys where v: "validateSite x = Inr x'" "edit_sites old x' (cf_sites c) = Inr ys"
      "c' = c\<lparr>cf_sites := ys\<rparr>" by (auto simp: edit_in_Inr_iff)
  with ok show ?thesis
    using sites.edit_unique [OF _ v(2)] wf_after [where W = site_wf, OF sites.edit_entries [OF v(2)] validateSite_wf [OF v(1)]]
    by (simp add: config_ok_def)
next
  case (OpDeleteSite k)
  with step ok show ?thesis
    by (auto simp: edit_in_Inr_iff config_ok_def dest: sites.remove_unique subsetD [OF sites.remove_entries])
next
  case (OpUpsertDomain old x)
  with step obtain x' ys where v: "validateDomain x = Inr x'" "edit_domains old x' (cf_domains c) = Inr ys"
      "c' = c\<lparr>cf_domains := ys\<rparr>" by (auto simp: edit_in_Inr_iff)
  with ok show ?thesis
    using domains.edit_unique [OF _ v(2)] wf_after [where W = domain_wf, OF domains.edit_entries [OF v(2)] validateDomain_wf [OF v(1)]]
    by (simp add: config_ok_def)
next
  case (OpDeleteDomain k)
  with step ok show ?thesis
    by (auto simp: edit_in_Inr_iff config_ok_def dest: domains.remove_unique subsetD [OF domains.remove_entries])
next
  case (OpUpsertForward old x)
  with step obtain x' ys where v: "validateForward x = Inr x'" "edit_forwards old x' (cf_forwards c) = Inr ys"
      "c' = c\<lparr>cf_forwards := ys\<rparr>" by (auto simp: edit_in_Inr_iff)
  with ok show ?thesis
    using forwards.edit_unique [OF _ v(2)] forwards.edit_slots [OF _ _ v(2)]
      wf_after [where W = forward_wf, OF forwards.edit_entries [OF v(2)] validateForward_wf [OF v(1)]]
    by (simp add: config_ok_def)
next
  case (OpDeleteForward k)
  with step ok show ?thesis
    by (auto simp: edit_in_Inr_iff config_ok_def
        dest: forwards.remove_unique subsetD [OF forwards.remove_entries] forwards.remove_slots)
next
  case (OpUpsertDNAT old x)
  with step obtain x' ys where v: "validateDNAT x = Inr x'" "edit_dnat old x' (cf_dnat c) = Inr ys"
      "c' = c\<lparr>cf_dnat := ys\<rparr>" by (auto simp: edit_in_Inr_iff)
  with ok show ?thesis
    using dnat.edit_unique [OF _ v(2)] dnat.edit_slots [OF _ _ v(2)]
      wf_after [where W = dnat_wf, OF dnat.edit_entries [OF v(2)] validateDNAT_wf [OF v(1)]]
    by (simp add: config_ok_def)
next
  case (OpDeleteDNAT k)
  with step ok show ?thesis
    by (auto simp: edit_in_Inr_iff config_ok_def
        dest: dnat.remove_unique subsetD [OF dnat.remove_entries] dnat.remove_slots)
qed

lemma run_op_config_ok:
  "config_ok (config_of s) \<Longrightarrow> run_op io op s = (e, s', ns) \<Longrightarrow> config_ok (config_of s')"
  using run_op_config op_config_ok by metis

section \<open>Errors that leave the store alone, errors that do not\<close>

definition write_error :: "err \<Rightarrow> bool" where
  "write_error e \<longleftrightarrow> (case e of
       WriteFailed _ \<Rightarrow> True | RenameFailed _ \<Rightarrow> True
     | RouteCompile _ _ _ \<Rightarrow> True | DomainCompile _ _ _ \<Rightarrow> True | _ \<Rightarrow> False)"

lemma compile_routes_error: "compile_routes n host rs = Inl e \<Longrightarrow> \<exists>h p u. e = RouteCompile h p u"
  by (induction rs arbitrary: n) (auto simp: res_iffs Let_def split: if_splits prod.splits)

lemma compile_sites_error: "compile_sites n sts acc = Inl e \<Longrightarrow> \<exists>h p u. e = RouteCompile h p u"
  by (induction sts arbitrary: n acc) (auto simp: res_iffs dest: compile_routes_error)

lemma compile_pf_error: "compile_pf host f = Inl e \<Longrightarrow> \<exists>h p u. e = DomainCompile h p u"
  by (auto simp: compile_pf_def res_iffs split: if_splits)

lemma compile_pfs_error: "compile_pfs host fs tb = Inl e \<Longrightarrow> \<exists>h p u. e = DomainCompile h p u"
  by (induction fs arbitrary: tb) (auto simp: res_iffs split: if_splits dest: compile_pf_error)

lemma compile_domains_error: "compile_domains ds tb = Inl e \<Longrightarrow> \<exists>h p u. e = DomainCompile h p u"
  by (induction ds arbitrary: tb) (auto simp: res_iffs dest: compile_pfs_error)

lemma recompile_error:
  "recompileLocked s = (Some e, s') \<Longrightarrow> (\<exists>h p u. e = RouteCompile h p u) \<or> (\<exists>h p u. e = DomainCompile h p u)"
  by (auto simp: recompileLocked_def Let_def split: sum.splits prod.splits
      dest: compile_sites_error compile_domains_error)

lemma op_write_error: "op_write op io s = (Some e, s') \<Longrightarrow> write_error e"
  by (auto simp: op_write_def commitLocked_def persistLocked_def write_error_def
      split: if_splits prod.splits option.splits io_result.splits dest!: recompile_error)

lemma run_op_rejected:
  assumes "run_op io op s = (Some e, s', ns)" "\<not> write_error e"
  shows "s' = s \<and> ns = []"
  using run_op_config [OF assms(1)] assms(2) op_write_error by fastforce

lemma run_op_error_silent: "run_op io op s = (Some e, s', ns) \<Longrightarrow> ns = []"
  using run_op_config by fastforce

section \<open>Success writes the configuration out\<close>

lemma op_write_durable: "op_write op io s = (None, s') \<Longrightarrow> st_file s' = Some (config_of s')"
  by (auto simp: op_write_def commitLocked_def persistLocked_def config_of_def
      split: if_splits prod.splits option.splits io_result.splits)

lemma run_op_durable:
  assumes "run_op io op s = (None, s', ns)"
  shows "st_file s' = Some (config_of s')"
  using run_op_config [OF assms] op_write_durable by auto

lemma op_write_file_error: "op_write op io s = (Some e, s') \<Longrightarrow> st_file s' = st_file s"
  by (auto simp: op_write_def commitLocked_def persistLocked_def
      split: if_splits prod.splits option.splits io_result.splits dest!: recompileLocked_config)

section \<open>Who listens does not change\<close>

lemma with_config_listeners:
  "st_on_forward (with_config c s) = st_on_forward s" "st_on_dnat (with_config c s) = st_on_dnat s"
  "st_on_domain (with_config c s) = st_on_domain s"
  by (simp_all add: with_config_def)

lemma op_write_listeners:
  "op_write op io s = (e, s') \<Longrightarrow> st_on_forward s' = st_on_forward s \<and> st_on_dnat s' = st_on_dnat s
     \<and> st_on_domain s' = st_on_domain s"
  by (auto simp: op_write_def commitLocked_def persistLocked_def recompileLocked_def Let_def
      split: if_splits io_result.splits prod.splits sum.splits option.splits)

lemma run_op_listeners:
  assumes "run_op io op s = (e, s', ns)"
  shows "st_on_forward s' = st_on_forward s \<and> st_on_dnat s' = st_on_dnat s \<and> st_on_domain s' = st_on_domain s"
  using run_op_config [OF assms] op_write_listeners with_config_listeners by (metis (no_types, lifting))

section \<open>The compiled tables agree with the configuration\<close>

definition synced :: "store \<Rightarrow> bool" where
  "synced s \<longleftrightarrow> (\<exists>n m. compile_sites n (st_sites s) [] = Inr (m, st_csites s))
     \<and> compile_domains (st_domains s) [] = Inr (st_cdom s)"

lemma recompileLocked_synced: "recompileLocked s = (None, s') \<Longrightarrow> synced s'"
  by (auto simp: recompileLocked_def synced_def Let_def split: sum.splits prod.splits) blast

lemma persistLocked_tables:
  "persistLocked io s = (e, s') \<Longrightarrow> st_sites s' = st_sites s \<and> st_domains s' = st_domains s
     \<and> st_csites s' = st_csites s \<and> st_cdom s' = st_cdom s"
  by (auto simp: persistLocked_def split: io_result.splits)

lemma persistLocked_synced: "persistLocked io s = (e, s') \<Longrightarrow> synced s' \<longleftrightarrow> synced s"
  by (drule persistLocked_tables) (simp add: synced_def)

lemma commitLocked_synced:
  "commitLocked io s = (e, s') \<Longrightarrow> (\<nexists>e'. e = Some e' \<and> (\<exists>s1. recompileLocked s = (Some e', s1))) \<Longrightarrow> synced s'"
  by (auto simp: commitLocked_def split: prod.splits option.splits
      dest: recompileLocked_synced persistLocked_synced)

definition compile_error :: "err \<Rightarrow> bool" where
  "compile_error e \<longleftrightarrow> (case e of RouteCompile _ _ _ \<Rightarrow> True | DomainCompile _ _ _ \<Rightarrow> True | _ \<Rightarrow> False)"

lemma run_op_synced:
  assumes "synced s" "run_op io op s = (e, s', ns)" "\<forall>e'. e = Some e' \<longrightarrow> \<not> compile_error e'"
  shows "synced s'"
proof -
  from run_op_config [OF assms(2)] consider "s' = s"
    | "op_config op (config_of s) = Inr (config_of s')" "op_write op io (with_config (config_of s') s) = (e, s')"
    by blast
  then show ?thesis
  proof cases
    case 1
    with assms(1) show ?thesis by simp
  next
    case 2
    show ?thesis
    proof (cases "op_recompiles op")
      case True
      with 2(2) have c: "commitLocked io (with_config (config_of s') s) = (e, s')" by (simp add: op_write_def)
      have "compile_error e'" if "recompileLocked (with_config (config_of s') s) = (Some e', s1)" for e' s1
        using recompile_error [OF that] by (auto simp: compile_error_def)
      with assms(3) show ?thesis by (intro commitLocked_synced [OF c]) blast
    next
      case False
      with 2(2) have p: "persistLocked io (with_config (config_of s') s) = (e, s')" by (simp add: op_write_def)
      have "st_sites (with_config (config_of s') s) = st_sites s
          \<and> st_domains (with_config (config_of s') s) = st_domains s"
        using 2(1) False by (cases op) (auto simp: edit_in_Inr_iff with_config_def config_of_def)
      then have "synced (with_config (config_of s') s)"
        using assms(1) by (simp add: synced_def with_config_def)
      with persistLocked_synced [OF p] show ?thesis by simp
    qed
  qed
qed

section \<open>Reachable states\<close>

inductive store_reach :: "store \<Rightarrow> store \<Rightarrow> bool" for s0 where
  reach_start: "store_reach s0 s0"
| reach_step: "store_reach s0 s \<Longrightarrow> run_op io op s = (e, s', ns) \<Longrightarrow> store_reach s0 s'"

inductive_cases store_reach_stepE: "store_reach s0 s"

lemma reach_config_ok: "store_reach s0 s \<Longrightarrow> config_ok (config_of s0) \<Longrightarrow> config_ok (config_of s)"
  by (induction rule: store_reach.induct) (auto dest: run_op_config_ok)

section \<open>The slices as four finite maps\<close>

record abs_config =
  ab_sites :: "string \<rightharpoonup> http_site"
  ab_domains :: "string \<rightharpoonup> domain"
  ab_forwards :: "string \<rightharpoonup> forward"
  ab_dnat :: "string \<rightharpoonup> dnat_rule"

definition abs_config :: "config_file \<Rightarrow> abs_config" where
  "abs_config c = \<lparr>ab_sites = table_map site_key (cf_sites c), ab_domains = table_map domain_key (cf_domains c),
     ab_forwards = table_map fw_name (cf_forwards c), ab_dnat = table_map dn_name (cf_dnat c)\<rparr>"

definition put_entry :: "string \<Rightarrow> string \<Rightarrow> string \<Rightarrow> 'a \<Rightarrow> (string \<rightharpoonup> 'a) \<Rightarrow> (string \<rightharpoonup> 'a)" where
  "put_entry old oldkey k x m = (if old = [] then m else m(oldkey := None))(k \<mapsto> x)"

text \<open>What an accepted operation does to the maps.\<close>

fun abs_op :: "store_op \<Rightarrow> abs_config \<Rightarrow> abs_config" where
  "abs_op (OpUpsertSite old x) a = (case validateSite x of
     Inl _ \<Rightarrow> a | Inr y \<Rightarrow> a\<lparr>ab_sites := put_entry old (to_lower old) (hs_host y) y (ab_sites a)\<rparr>)"
| "abs_op (OpDeleteSite k) a = a\<lparr>ab_sites := (ab_sites a)(to_lower k := None)\<rparr>"
| "abs_op (OpUpsertDomain old x) a = (case validateDomain x of
     Inl _ \<Rightarrow> a | Inr y \<Rightarrow> a\<lparr>ab_domains := put_entry old (to_lower old) (dm_host y) y (ab_domains a)\<rparr>)"
| "abs_op (OpDeleteDomain k) a = a\<lparr>ab_domains := (ab_domains a)(to_lower k := None)\<rparr>"
| "abs_op (OpUpsertForward old x) a = (case validateForward x of
     Inl _ \<Rightarrow> a | Inr y \<Rightarrow> a\<lparr>ab_forwards := put_entry old old (fw_name y) y (ab_forwards a)\<rparr>)"
| "abs_op (OpDeleteForward k) a = a\<lparr>ab_forwards := (ab_forwards a)(k := None)\<rparr>"
| "abs_op (OpUpsertDNAT old x) a = (case validateDNAT x of
     Inl _ \<Rightarrow> a | Inr y \<Rightarrow> a\<lparr>ab_dnat := put_entry old old (dn_name y) y (ab_dnat a)\<rparr>)"
| "abs_op (OpDeleteDNAT k) a = a\<lparr>ab_dnat := (ab_dnat a)(k := None)\<rparr>"

lemma validated_site_key: "validateSite x = Inr y \<Longrightarrow> site_key y = hs_host y"
  by (drule validateSite_wf) (simp add: site_wf_def lower_host_def site_key_def)

lemma validated_domain_key: "validateDomain x = Inr y \<Longrightarrow> domain_key y = dm_host y"
  by (drule validateDomain_wf) (simp add: domain_wf_def lower_host_def domain_key_def)

lemma op_config_refines:
  assumes "config_ok c" "op_config op c = Inr c'"
  shows "abs_config c' = abs_op op (abs_config c)"
  using assms
  by (cases op)
    (auto simp: edit_in_Inr_iff config_ok_def abs_config_def put_entry_def
      sites.edit_map sites.remove_map domains.edit_map domains.remove_map
      forwards.edit_map forwards.remove_map dnat.edit_map dnat.remove_map
      validated_site_key validated_domain_key)

lemma run_op_refines:
  assumes "config_ok (config_of s)" "run_op io op s = (None, s', ns)"
  shows "abs_config (config_of s') = abs_op op (abs_config (config_of s))"
  using run_op_config [OF assms(2)] op_config_refines [OF assms(1)] by auto

end
