(* ===== verification/StoreRouting.thy ===== *)
theory StoreRouting
  imports StoreInv
begin

text \<open>
  The lookups of the store against the configuration itself. For a store whose
  tables agree with a well-formed configuration, \<open>MatchSite\<close> finds exactly the
  enabled route whose prefix the path lies under, \<open>MatchDomain\<close> exactly the enabled
  forward of the host on the port, and the predicates that the certificate policy
  and the port router use say what they should. For configurations that were
  loaded without validation the weaker fact holds: the longest matching prefix
  wins.
\<close>

text \<open>The request path is the prefix itself or lies below it.\<close>

definition path_under :: "string \<Rightarrow> string \<Rightarrow> bool" where
  "path_under prefix path \<longleftrightarrow> path = slash # prefix \<or> has_prefix path (slash # prefix @ [slash])"

lemma route_matches_under: "route_matches path c \<longleftrightarrow> path_under (rt_prefix (cr_route c)) path"
  by (simp add: route_matches_def path_under_def Let_def)

lemma site_entry:
  assumes s: "synced s" and u: "unique_keys site_key (st_sites s)" and st: "st \<in> set (st_sites s)"
  obtains n m crs where "compile_routes n (hs_host st) (hs_routes st) = Inr (m, crs)"
    and "map_of (st_csites s) (site_key st) = Some (sort_longest crs)"
proof -
  from s obtain n m where "compile_sites n (st_sites s) [] = Inr (m, st_csites s)"
    by (auto simp: synced_def)
  moreover have "unique_keys (\<lambda>x. to_lower (hs_host x)) (st_sites s)"
    using u by (simp add: site_key_def [abs_def])
  ultimately show ?thesis
    using compile_sites_entry [of n "st_sites s" "[]" m "st_csites s" st] st that
    by (auto simp: site_key_def)
qed

lemma site_entry_None:
  assumes "synced s"
  shows "map_of (st_csites s) k \<noteq> None \<longleftrightarrow> k \<in> key_set site_key (st_sites s)"
proof -
  from assms obtain n m where "compile_sites n (st_sites s) [] = Inr (m, st_csites s)"
    by (auto simp: synced_def)
  from compile_sites_keys [OF this, of k] show ?thesis by (simp add: site_key_def [abs_def])
qed

text \<open>\<open>MatchSite\<close> on any synchronised store with unique hosts.\<close>

lemma MatchSite_Some:
  assumes s: "synced s" and u: "unique_keys site_key (st_sites s)" and m: "MatchSite s host path = Some c"
  obtains st where "st \<in> set (st_sites s)" "site_key st = to_lower host"
    "cr_route c \<in> set (hs_routes st)" "rt_enabled (cr_route c)" "path_under (rt_prefix (cr_route c)) path"
    "buildProxy (cr_route c) = Inr (cr_proxy c)"
    "\<forall>r\<in>set (hs_routes st). rt_enabled r \<and> path_under (rt_prefix r) path \<longrightarrow>
       length (rt_prefix r) \<le> length (rt_prefix (cr_route c))"
proof -
  from m obtain rs where rs: "map_of (st_csites s) (to_lower host) = Some rs"
      and f: "find (route_matches path) rs = Some c"
    by (auto simp: MatchSite_def match_site_def split: option.splits)
  from rs site_entry_None [OF s, of "to_lower host"] obtain st
    where st: "st \<in> set (st_sites s)" "site_key st = to_lower host" by (auto simp: key_set_iff)
  from site_entry [OF s u st(1)] obtain n m crs
    where c: "compile_routes n (hs_host st) (hs_routes st) = Inr (m, crs)"
      and rs': "map_of (st_csites s) (site_key st) = Some (sort_longest crs)" .
  have rss: "rs = sort_longest crs" using rs rs' st(2) by simp
  have sp: "map cr_route crs = filter rt_enabled (hs_routes st)"
    "\<forall>c\<in>set crs. buildProxy (cr_route c) = Inr (cr_proxy c)"
    using compile_routes_spec [OF c] by blast+
  have img: "cr_route ` set crs = {r \<in> set (hs_routes st). rt_enabled r}"
    using arg_cong [OF sp(1), of set] by simp
  from find_longest [OF sort_longest_sorted f [unfolded rss]]
  have best: "c \<in> set crs" "route_matches path c"
    "\<forall>d\<in>set crs. route_matches path d \<longrightarrow> prefix_len d \<le> prefix_len c" by auto
  have "cr_route c \<in> {r \<in> set (hs_routes st). rt_enabled r}" using best(1) img by blast
  moreover have "length (rt_prefix r) \<le> length (rt_prefix (cr_route c))"
    if "r \<in> set (hs_routes st)" "rt_enabled r" "path_under (rt_prefix r) path" for r
  proof -
    from that(1,2) img obtain d where "d \<in> set crs" "r = cr_route d" by blast
    with best(3) that(3) show ?thesis by (auto simp: route_matches_under prefix_len_def)
  qed
  ultimately show ?thesis
    using that [of st] st best(1,2) sp(2) by (simp add: route_matches_under)
qed

lemma MatchSite_complete:
  assumes s: "synced s" and u: "unique_keys site_key (st_sites s)"
    and st: "st \<in> set (st_sites s)" "site_key st = to_lower host"
    and r: "r \<in> set (hs_routes st)" "rt_enabled r" "path_under (rt_prefix r) path"
  shows "MatchSite s host path \<noteq> None"
proof
  assume "MatchSite s host path = None"
  moreover from site_entry [OF s u st(1)] obtain n m crs
    where c: "compile_routes n (hs_host st) (hs_routes st) = Inr (m, crs)"
      and rs: "map_of (st_csites s) (site_key st) = Some (sort_longest crs)" .
  ultimately have no: "\<forall>d\<in>set crs. \<not> route_matches path d"
    using st(2) by (auto simp: MatchSite_def match_site_def find_None_all)
  have "map cr_route crs = filter rt_enabled (hs_routes st)"
    using compile_routes_spec [OF c] by blast
  from arg_cong [OF this, of set] r obtain d where "d \<in> set crs" "r = cr_route d" by fastforce
  with no r(3) show False by (simp add: route_matches_under)
qed

text \<open>On a validated configuration prefixes hold no slash, so a path lies under at most
  one prefix of a site and the lookup is exact.\<close>

lemma wf_prefix_slashless: "route_wf r \<Longrightarrow> slash \<notin> set (rt_prefix r)"
  using name_byte_no_slash by (auto simp: route_wf_def name_ok_def)

lemma path_under_unique:
  assumes "path_under p path" "path_under q path" "slash \<notin> set p" "slash \<notin> set q"
  shows "p = q"
proof -
  let ?c = "\<lambda>x. \<lparr>cr_route = \<lparr>rt_prefix = x, rt_target = [], rt_strip = False, rt_desc = [],
      rt_enabled = True, rt_max = 0\<rparr>, cr_proxy = undefined, cr_limiter = None\<rparr>"
  have "rt_prefix (cr_route (?c p)) = rt_prefix (cr_route (?c q))"
    by (rule route_matches_slashless [of path]) (use assms in \<open>simp_all add: route_matches_under\<close>)
  then show ?thesis by simp
qed

lemma MatchSite_exact:
  assumes ok: "config_ok (config_of s)" and s: "synced s"
  shows "(\<exists>c. MatchSite s host path = Some c \<and> cr_route c = r) \<longleftrightarrow>
    (\<exists>st\<in>set (st_sites s). hs_host st = to_lower host \<and> r \<in> set (hs_routes st) \<and> rt_enabled r
      \<and> path_under (rt_prefix r) path)"
    (is "?L \<longleftrightarrow> ?R")
proof -
  have u: "unique_keys site_key (st_sites s)" and wf: "\<forall>x\<in>set (st_sites s). site_wf x"
    using ok by (simp_all add: config_ok_def)
  have key: "site_key x = hs_host x" if "x \<in> set (st_sites s)" for x
    using wf that by (auto simp: site_wf_def lower_host_def site_key_def)
  show ?thesis
  proof
    assume ?L
    then obtain c where m: "MatchSite s host path = Some c" "cr_route c = r" by blast
    from MatchSite_Some [OF s u m(1)] obtain st where
        "st \<in> set (st_sites s)" "site_key st = to_lower host" "r \<in> set (hs_routes st)" "rt_enabled r"
        "path_under (rt_prefix r) path" unfolding m(2) .
    with key show ?R by metis
  next
    assume ?R
    then obtain st where st: "st \<in> set (st_sites s)" "hs_host st = to_lower host"
        and r: "r \<in> set (hs_routes st)" "rt_enabled r" "path_under (rt_prefix r) path" by blast
    from st key have k: "site_key st = to_lower host" by simp
    from MatchSite_complete [OF s u st(1) k r] obtain c where m: "MatchSite s host path = Some c" by blast
    from MatchSite_Some [OF s u m] obtain st' where st': "st' \<in> set (st_sites s)"
        "site_key st' = to_lower host" "cr_route c \<in> set (hs_routes st')"
        "path_under (rt_prefix (cr_route c)) path" .
    have same: "st' = st"
      using distinct_map_same [OF u [unfolded unique_keys_def] st'(1) st(1)] k st'(2) by simp
    have swf: "\<forall>x\<in>set (hs_routes st). route_wf x" "distinct (map rt_prefix (hs_routes st))"
      using wf st(1) by (auto simp: site_wf_def)
    have "rt_prefix (cr_route c) = rt_prefix r"
      by (rule path_under_unique [OF st'(4) r(3)])
        (use swf(1) r(1) st'(3) same in \<open>auto dest: wf_prefix_slashless\<close>)
    then have "cr_route c = r"
      using distinct_map_same [OF swf(2) _ r(1)] st'(3) same by simp
    with m show ?L by blast
  qed
qed

lemma IsHTTPHost_exact:
  assumes "config_ok (config_of s)" "synced s"
  shows "IsHTTPHost s host \<longleftrightarrow> (\<exists>st\<in>set (st_sites s). hs_host st = to_lower host)"
proof -
  have "site_key st = hs_host st" if "st \<in> set (st_sites s)" for st
    using assms(1) that by (auto simp: config_ok_def site_wf_def lower_host_def site_key_def)
  then show ?thesis
    using site_entry_None [OF assms(2), of "to_lower host"]
    by (auto simp: IsHTTPHost_def is_http_host_def key_set_iff)
qed

section \<open>Domains\<close>

lemma compile_pf_fields: "compile_pf host f = Inr cp \<Longrightarrow> cp_host cp = host \<and> cp_fwd cp = f
    \<and> (cp_proxy cp \<noteq> None \<longleftrightarrow> pf_port f = 80 \<or> pf_manage f)"
  by (auto simp: compile_pf_def res_iffs split: if_splits)

lemma compile_pfs_built:
  "compile_pfs host fs tb = Inr tb' \<Longrightarrow> f \<in> set fs \<Longrightarrow> pf_enabled f \<Longrightarrow> \<exists>cp. compile_pf host f = Inr cp"
  by (induction fs arbitrary: tb) (auto simp: res_iffs split: if_splits)

lemma compile_domains_built:
  "compile_domains ds tb = Inr tb' \<Longrightarrow> d \<in> set ds \<Longrightarrow> f \<in> set (dm_forwards d) \<Longrightarrow> pf_enabled f \<Longrightarrow>
     \<exists>cp. compile_pf (dm_host d) f = Inr cp"
  by (induction ds arbitrary: tb) (auto simp: res_iffs dest: compile_pfs_built)

lemma synced_table_ok: "synced s \<Longrightarrow> table_ok (st_cdom s)"
  by (auto simp: synced_def dest: compile_domains_ok)

lemma MatchDomain_exact:
  assumes ok: "config_ok (config_of s)" and s: "synced s"
  shows "MatchDomain s host port = Some cp \<longleftrightarrow>
    (\<exists>d\<in>set (st_domains s). \<exists>f\<in>set (dm_forwards d). dm_host d = to_lower host \<and> pf_port f = port
       \<and> pf_enabled f \<and> compile_pf (dm_host d) f = Inr cp)"
proof -
  have wf: "\<forall>d\<in>set (st_domains s). domain_wf d" using ok by (simp add: config_ok_def)
  have u: "unique_keys (\<lambda>d. to_lower (dm_host d)) (st_domains s)"
    using ok by (simp add: config_ok_def domain_key_def [abs_def])
  have p: "\<forall>d\<in>set (st_domains s). distinct (map pf_port (dm_forwards d))"
    using wf by (simp add: domain_wf_def)
  have c: "compile_domains (st_domains s) [] = Inr (st_cdom s)" using s by (simp add: synced_def)
  have hit: "pf_hits host port (dm_host d) f \<longleftrightarrow> pf_enabled f \<and> pf_port f = port \<and> dm_host d = to_lower host"
    if "d \<in> set (st_domains s)" for d f
    using wf that by (auto simp: pf_hits_def domain_wf_def lower_host_def)
  have "match_domain [] host port = None" by (simp add: match_domain_def)
  with compile_domains_match [OF c u p, of host port cp] hit show ?thesis
    unfolding MatchDomain_def by auto
qed

lemma MatchDomain_forward:
  assumes ok: "config_ok (config_of s)" and s: "synced s"
  shows "(\<exists>cp. MatchDomain s host port = Some cp \<and> cp_fwd cp = f) \<longleftrightarrow>
    (\<exists>d\<in>set (st_domains s). f \<in> set (dm_forwards d) \<and> dm_host d = to_lower host \<and> pf_port f = port
       \<and> pf_enabled f)"
proof
  assume "\<exists>cp. MatchDomain s host port = Some cp \<and> cp_fwd cp = f"
  then show "\<exists>d\<in>set (st_domains s). f \<in> set (dm_forwards d) \<and> dm_host d = to_lower host \<and> pf_port f = port
       \<and> pf_enabled f"
    unfolding MatchDomain_exact [OF assms] by (auto dest!: compile_pf_fields)
next
  assume "\<exists>d\<in>set (st_domains s). f \<in> set (dm_forwards d) \<and> dm_host d = to_lower host \<and> pf_port f = port
       \<and> pf_enabled f"
  then obtain d where d: "d \<in> set (st_domains s)" "f \<in> set (dm_forwards d)" "dm_host d = to_lower host"
      "pf_port f = port" "pf_enabled f" by blast
  have "compile_domains (st_domains s) [] = Inr (st_cdom s)" using s by (simp add: synced_def)
  from compile_domains_built [OF this d(1,2,5)] obtain cp where cp: "compile_pf (dm_host d) f = Inr cp" ..
  with d have "MatchDomain s host port = Some cp" unfolding MatchDomain_exact [OF assms] by blast
  with compile_pf_fields [OF cp] show "\<exists>cp. MatchDomain s host port = Some cp \<and> cp_fwd cp = f" by blast
qed

lemma IsTerminateHost_exact:
  assumes ok: "config_ok (config_of s)" and s: "synced s"
  shows "IsTerminateHost s host \<longleftrightarrow>
    (\<exists>d\<in>set (st_domains s). \<exists>f\<in>set (dm_forwards d). dm_host d = to_lower host \<and> pf_enabled f \<and> pf_manage f)"
proof -
  have "IsTerminateHost s host \<longleftrightarrow> (\<exists>port f. (\<exists>cp. MatchDomain s host port = Some cp \<and> cp_fwd cp = f) \<and> pf_manage f)"
    unfolding IsTerminateHost_def MatchDomain_def is_terminate_host_iff [OF synced_table_ok [OF s]] by blast
  then show ?thesis unfolding MatchDomain_forward [OF assms] by blast
qed

lemma DomainPorts_exact:
  assumes s: "synced s"
  shows "set (DomainPorts s) = {pf_port f | d f. d \<in> set (st_domains s) \<and> f \<in> set (dm_forwards d) \<and> pf_enabled f}"
    and "sorted (DomainPorts s)" "distinct (DomainPorts s)"
proof -
  have "compile_domains (st_domains s) [] = Inr (st_cdom s)" using s by (simp add: synced_def)
  from compile_domains_ports [OF this]
  show "set (DomainPorts s) = {pf_port f | d f. d \<in> set (st_domains s) \<and> f \<in> set (dm_forwards d) \<and> pf_enabled f}"
    by (simp add: DomainPorts_def set_domain_ports)
  show "sorted (DomainPorts s)" "distinct (DomainPorts s)"
    using synced_table_ok [OF s] by (simp_all add: DomainPorts_def domain_ports_sorted domain_ports_distinct)
qed

section \<open>When the tables can be rebuilt\<close>

text \<open>Routes always compile once validated; a domain compiles when its managed and
  port-80 targets are plain.\<close>

definition domain_plain :: "domain \<Rightarrow> bool" where
  "domain_plain d \<longleftrightarrow> (\<forall>f\<in>set (dm_forwards d). pf_enabled f \<and> (pf_manage f \<or> pf_port f = 80) \<longrightarrow>
     plain_target (pf_target f))"

lemma backend_ok_parses: "backend_ok t \<Longrightarrow> \<exists>u. url_parse t = Inr u"
  by (auto simp: backend_ok_def split: sum.splits)

lemma sites_compile:
  assumes "\<forall>x\<in>set sts. site_wf x"
  shows "\<exists>m tab. compile_sites n sts acc = Inr (m, tab)"
  by (rule compile_sites_total) (use assms in \<open>auto simp: site_wf_def route_wf_def dest!: backend_ok_parses\<close>)

lemma domain_plain_compiles:
  assumes "\<forall>d\<in>set ds. domain_plain d"
  shows "\<exists>tb. compile_domains ds tb0 = Inr tb"
proof (rule compile_domains_total, intro ballI impI)
  fix d f assume d: "d \<in> set ds" "f \<in> set (dm_forwards d)" "pf_enabled f"
  show "\<exists>cp. compile_pf (dm_host d) f = Inr cp"
  proof (cases "pf_port f = 80 \<or> pf_manage f")
    case False
    then show ?thesis by (simp add: compile_pf_def)
  next
    case True
    with assms d have "plain_target (pf_target f)" by (auto simp: domain_plain_def)
    with plain_target_builds [of f "dm_host d"]
      plain_target_builds [of "plain_forward (pf_target f)" "dm_host d"] True
    show ?thesis by (auto simp: compile_pf_def plain_forward_def)
  qed
qed

lemma recompile_succeeds:
  assumes "\<forall>x\<in>set (st_sites s). site_wf x" "\<forall>d\<in>set (st_domains s). domain_plain d"
  shows "\<exists>s'. recompileLocked s = (None, s')"
  using sites_compile [OF assms(1), of "st_chans s" "[]"] domain_plain_compiles [OF assms(2), of "[]"]
  by (auto simp: recompileLocked_def)

end
