(* ===== verification/JsonText.thy ===== *)
theory JsonText
  imports Json
begin

text \<open>
  What JSON text consists of: the bytes a printed value is made of, none of which can end a
  script element, and the strings a scanned value holds, all of which are UTF-8.
\<close>

section \<open>What a printed value consists of\<close>

text \<open>No byte of a printed value can end a script element or begin an entity, and without
  layout none is a control character.\<close>

definition inert_char :: "char \<Rightarrow> bool" where
  "inert_char c \<longleftrightarrow> c \<notin> set ''<>&'' \<and> 32 \<le> byte_of c"

lemma low_hex_inert: "n < 16 \<Longrightarrow> inert_char (low_hex n)"
proof -
  assume n: "n < 16"
  then have "48 \<le> byte_of (low_hex n)" "byte_of (low_hex n) \<notin> {60, 62, 38}" by (auto simp: low_hex_def)
  then show ?thesis by (auto simp: inert_char_def)
qed

lemma esc_ascii_inert: "byte_of c < 0x80 \<Longrightarrow> \<forall>x\<in>set (esc_ascii c). inert_char x"
proof -
  assume c: "byte_of c < 0x80"
  then have "inert_char (low_hex (byte_of c div 16))" "inert_char (low_hex (byte_of c mod 16))"
    by (simp_all add: low_hex_inert)
  then show ?thesis by (auto simp: esc_ascii_def) (auto simp: inert_char_def)
qed

lemma esc_rune_inert: "rune_ok r \<Longrightarrow> \<forall>x\<in>set (esc_rune r). inert_char x"
proof (cases r)
  case (Some w)
  assume "rune_ok r"
  with Some have "is_rune w" by (simp add: rune_ok_def)
  then show ?thesis
  proof (cases rule: is_rune_cases)
    case (1 c)
    with Some show ?thesis by (simp add: esc_rune_def esc_ascii_inert)
  next
    case (2 c t)
    then have "length w \<noteq> 1" "\<forall>x\<in>set w. inert_char x" by (auto simp: inert_char_def)
    with Some show ?thesis by (simp add: esc_rune_def) (simp add: inert_char_def)
  qed
qed (simp add: esc_rune_def inert_char_def)

lemma quote_inert: "x \<in> set (quote s) \<Longrightarrow> inert_char x"
  using esc_rune_inert runes_ok [of s] by (auto simp: quote_def escape_def) (simp_all add: inert_char_def)

lemma separate_set: "set (separate sep xs) \<subseteq> set sep \<union> (\<Union>x\<in>set xs. set x)"
  by (induction sep xs rule: separate.induct) auto

lemma bracket_inert:
  assumes "x \<in> set (bracket False d l r xs)" "inert_char l" "inert_char r" "\<forall>s\<in>set xs. \<forall>y\<in>set s. inert_char y"
  shows "inert_char x"
proof -
  have "inert_char (CHR '','')" by (simp add: inert_char_def)
  with assms separate_set [of "'',''" xs] show ?thesis
    by (auto simp: bracket_def new_line_def split: if_splits)
qed

lemma format_int_inert: "x \<in> set (format_int n) \<Longrightarrow> inert_char x"
  using format_nat_digits by (fastforce simp: format_int_def inert_char_def is_digit_def split: if_splits)

lemma print_inert: "json_ints v \<Longrightarrow> x \<in> set (print_json False d v) \<Longrightarrow> inert_char x"
proof (induction v arbitrary: d x)
  case (JNum l)
  then show ?case by (auto intro: format_int_inert)
next
  case (JStr s)
  then show ?case by (simp add: quote_inert)
next
  case (JArr vs)
  have "\<forall>s\<in>set (map (print_json False (Suc d)) vs). \<forall>y\<in>set s. inert_char y" using JArr by auto
  with JArr.prems(2) show ?case
    by (auto elim!: bracket_inert simp: inert_char_def [of "CHR ''[''"] inert_char_def [of "CHR '']''"])
next
  case (JObj kvs)
  have "inert_char y" if kv: "kv \<in> set kvs" and y: "y \<in> set (print_member False (Suc d) kv)" for kv y
  proof -
    obtain k v where k: "kv = (k, v)" by (cases kv)
    with kv JObj.prems(1) have "json_ints v" by auto
    then show ?thesis using y JObj.IH [OF kv, of v y "Suc d"] k quote_inert [of y k]
      by (auto simp: print_member_def inert_char_def [of "CHR '':''"])
  qed
  then have "\<forall>s\<in>set (map (print_member False (Suc d)) kvs). \<forall>y\<in>set s. inert_char y" by auto
  with JObj.prems(2) show ?case unfolding print_json_obj
    by (auto elim!: bracket_inert simp: inert_char_def [of "CHR ''{''"] inert_char_def [of "CHR ''}''"])
qed (auto simp: inert_char_def split: if_splits)

section \<open>What a scanned value consists of\<close>

lemma is_rune_3:
  fixes h m l :: nat
  assumes "h < 16" "m < 64" "l < 64" "h = 0 \<Longrightarrow> 32 \<le> m" "h = 13 \<Longrightarrow> m < 32"
  shows "is_rune [char_of (0xE0 + h), char_of (0x80 + m), char_of (0x80 + l)]"
proof -
  have b: "byte_of (char_of (0xE0 + h)) = 0xE0 + h" "byte_of (char_of (0x80 + m)) = 0x80 + m"
      "byte_of (char_of (0x80 + l)) = 0x80 + l" using assms by simp_all
  consider "h = 0" | "h = 13" | "h \<noteq> 0" "h \<noteq> 13" by blast
  then show ?thesis
    by cases (use assms b in \<open>simp_all add: is_rune_def rune_tail_def lead_byte_def tail_bytes_def\<close>)
qed

lemma is_rune_4:
  fixes h m l k :: nat
  assumes "h \<le> 4" "m < 64" "l < 64" "k < 64" "h = 0 \<Longrightarrow> 16 \<le> m" "h = 4 \<Longrightarrow> m < 16"
  shows "is_rune [char_of (0xF0 + h), char_of (0x80 + m), char_of (0x80 + l), char_of (0x80 + k)]"
proof -
  have b: "byte_of (char_of (0xF0 + h)) = 0xF0 + h" "byte_of (char_of (0x80 + m)) = 0x80 + m"
      "byte_of (char_of (0x80 + l)) = 0x80 + l" "byte_of (char_of (0x80 + k)) = 0x80 + k" using assms by simp_all
  consider "h = 0" | "h = 4" | "h \<noteq> 0" "h \<noteq> 4" by blast
  then show ?thesis
    by cases (use assms b in \<open>simp_all add: is_rune_def rune_tail_def lead_byte_def tail_bytes_def\<close>)
qed

lemma is_rune_encode [simp]: "is_rune (encode_rune r)"
proof -
  consider "r < 0x80" | "0x80 \<le> r" "r < 0x800" | "0xD800 \<le> r \<and> r \<le> 0xDFFF \<or> 0x10FFFF < r"
    | "0x800 \<le> r" "r < 0x10000" "\<not> (0xD800 \<le> r \<and> r \<le> 0xDFFF)" | "0x10000 \<le> r" "r \<le> 0x10FFFF"
    by linarith
  then show ?thesis
  proof cases
    case 1
    then show ?thesis by (simp add: encode_rune_def)
  next
    case 2
    then have "2 \<le> r div 0x40" "r div 0x40 < 0x20" by simp_all
    with 2 show ?thesis by (simp add: encode_rune_def is_rune_def rune_tail_def lead_byte_def tail_bytes_def)
  next
    case 3
    then have "encode_rune r = bad_rune" by (auto simp: encode_rune_def)
    then show ?thesis by simp
  next
    case 4
    have "is_rune [char_of (0xE0 + r div 0x1000), char_of (0x80 + r div 0x40 mod 0x40), char_of (0x80 + r mod 0x40)]"
    proof (rule is_rune_3)
      show "r div 0x1000 = 0 \<Longrightarrow> 32 \<le> r div 0x40 mod 0x40" using 4(1) by (simp add: div_eq_0_iff)
      have "r mod 0x1000 < 0x1000" by simp
      then have "r div 0x1000 = 13 \<Longrightarrow> r div 0x40 < 0x360"
        using 4(3) div_mult_mod_eq [of r 4096]
        by (simp add: div_less_iff_less_mult) linarith
      moreover have "r div 0x1000 = r div 0x40 div 0x40" by (simp add: div_mult2_eq [symmetric])
      moreover have "x mod 0x40 < 32" if "x < 0x360" "x div 0x40 = 13" for x :: nat
        using that div_mult_mod_eq [of x 64] by simp
      ultimately show "r div 0x1000 = 13 \<Longrightarrow> r div 0x40 mod 0x40 < 32" by metis
    qed (use 4 in simp_all)
    with 4 show ?thesis by (simp add: encode_rune_def)
  next
    case 5
    have "is_rune [char_of (0xF0 + r div 0x40000), char_of (0x80 + r div 0x1000 mod 0x40),
        char_of (0x80 + r div 0x40 mod 0x40), char_of (0x80 + r mod 0x40)]"
    proof (rule is_rune_4)
      show "r div 0x40000 = 0 \<Longrightarrow> 16 \<le> r div 0x1000 mod 0x40" using 5(1) by (simp add: div_eq_0_iff)
      have "r div 0x1000 \<le> 0x10F" using 5(2) by simp
      moreover have "r div 0x40000 = r div 0x1000 div 0x40" by (simp add: div_mult2_eq [symmetric])
      moreover have "x mod 0x40 < 16" if "x \<le> 0x10F" "x div 0x40 = 4" for x :: nat
        using that div_mult_mod_eq [of x 64] by simp
      ultimately show "r div 0x40000 = 4 \<Longrightarrow> r div 0x1000 mod 0x40 < 16" by simp
    qed (use 5 in simp_all)
    with 5 show ?thesis by (simp add: encode_rune_def)
  qed
qed

lemma utf8_valid_ascii_Cons: "byte_of c < 0x80 \<Longrightarrow> utf8_valid (c # s) \<longleftrightarrow> utf8_valid s"
  using utf8_valid_simps(2) [of "[c]" s] by simp

lemma simple_escape_ascii: "escape_char e \<Longrightarrow> byte_of (simple_escape e) < 0x80"
  by (simp add: escape_char_def, elim disjE) (simp_all add: simple_escape_def)

text \<open>What \<open>unquote\<close> gives is always UTF-8.\<close>

lemma unquote_valid [simp]: "utf8_valid (unquote s)"
proof (induction s rule: unquote.induct)
  case (2 c s)
  show ?case
  proof (cases "c = backslash")
    case True
    show ?thesis
    proof (cases "getu4 (c # s)")
      case None
      with True 2 show ?thesis
        by (auto simp: unquote.simps(2) utf8_valid_ascii_Cons simple_escape_ascii split: list.splits)
    next
      case (Some r)
      with True 2 show ?thesis by (auto simp: unquote.simps(2) split: option.splits)
    qed
  next
    case False
    show ?thesis
    proof (cases "rune_tail c s")
      case None
      with False 2 show ?thesis by (simp add: unquote.simps(2))
    next
      case (Some n)
      then have "runes (c # s) = Some (c # take n s) # runes (drop n s)" by (simp add: runes.simps(2))
      then have "is_rune (c # take n s)" by (metis list.set_intros(1) runes_are_runes)
      from utf8_valid_simps(2) [OF this, of "unquote (drop n s)"] False Some 2 show ?thesis
        by (simp add: unquote.simps(2))
    qed
  qed
qed simp

fun json_utf8 :: "json \<Rightarrow> bool" where
  "json_utf8 (JStr s) \<longleftrightarrow> utf8_valid s"
| "json_utf8 (JArr vs) \<longleftrightarrow> (\<forall>v\<in>set vs. json_utf8 v)"
| "json_utf8 (JObj kvs) \<longleftrightarrow> (\<forall>(k, v)\<in>set kvs. json_utf8 v)"
| "json_utf8 v \<longleftrightarrow> True"

fun frame_utf8 :: "frame \<Rightarrow> bool" where
  "frame_utf8 (ArrayFrame vs) \<longleftrightarrow> (\<forall>v\<in>set vs. json_utf8 v)"
| "frame_utf8 (KeyFrame kvs) \<longleftrightarrow> (\<forall>(k, v)\<in>set kvs. json_utf8 v)"
| "frame_utf8 (ValueFrame kvs k) \<longleftrightarrow> (\<forall>(k, v)\<in>set kvs. json_utf8 v)"

definition scan_utf8 :: "scan \<Rightarrow> bool" where
  "scan_utf8 sc \<longleftrightarrow> (\<forall>f\<in>set (snd sc). frame_utf8 f)
     \<and> (case fst sc of EndTop v \<Rightarrow> json_utf8 v | InLiteral xs v \<Rightarrow> json_utf8 v | _ \<Rightarrow> True)"

lemma scan_utf8_simps [simp]:
  "scan_utf8 (BeginValue, st) \<longleftrightarrow> (\<forall>f\<in>set st. frame_utf8 f)"
  "scan_utf8 (BeginValueOrEmpty, st) \<longleftrightarrow> (\<forall>f\<in>set st. frame_utf8 f)"
  "scan_utf8 (BeginString, st) \<longleftrightarrow> (\<forall>f\<in>set st. frame_utf8 f)"
  "scan_utf8 (BeginStringOrEmpty, st) \<longleftrightarrow> (\<forall>f\<in>set st. frame_utf8 f)"
  "scan_utf8 (AfterKey, st) \<longleftrightarrow> (\<forall>f\<in>set st. frame_utf8 f)"
  "scan_utf8 (EndValue, st) \<longleftrightarrow> (\<forall>f\<in>set st. frame_utf8 f)"
  "scan_utf8 (InString q acc, st) \<longleftrightarrow> (\<forall>f\<in>set st. frame_utf8 f)"
  "scan_utf8 (InNumber n acc, st) \<longleftrightarrow> (\<forall>f\<in>set st. frame_utf8 f)"
  "scan_utf8 (InLiteral xs v, st) \<longleftrightarrow> (\<forall>f\<in>set st. frame_utf8 f) \<and> json_utf8 v"
  "scan_utf8 (EndTop v, st) \<longleftrightarrow> (\<forall>f\<in>set st. frame_utf8 f) \<and> json_utf8 v"
  by (simp_all add: scan_utf8_def)

lemma complete_value_utf8: "json_utf8 v \<Longrightarrow> \<forall>f\<in>set st. frame_utf8 f \<Longrightarrow> scan_utf8 (complete_value v st)"
  by (cases "(v, st)" rule: complete_value.cases) auto

lemma begin_value_utf8: "begin_value c st = Inr sc \<Longrightarrow> \<forall>f\<in>set st. frame_utf8 f \<Longrightarrow> scan_utf8 sc"
  by (auto simp: begin_value_def push_frame_def split: if_splits)

lemma end_value_utf8: "end_value c sc = Inr sc' \<Longrightarrow> scan_utf8 sc \<Longrightarrow> scan_utf8 sc'"
  by (auto simp: end_value_def split: if_splits prod.splits scan_phase.splits list.splits frame.splits
      intro!: complete_value_utf8)

lemma scan_step_utf8:
  assumes "scan_step c sc = Inr sc'" "scan_utf8 sc"
  shows "scan_utf8 sc'"
proof -
  obtain p st where sc: "sc = (p, st)" by (cases sc)
  with assms(2) have st: "\<forall>f\<in>set st. frame_utf8 f" by (simp add: scan_utf8_def)
  note rules = end_value_utf8 [of c "(EndValue, st)" sc'] begin_value_utf8 [of c st sc']
  show ?thesis
  proof (cases p)
    case (InString q acc)
    with assms(1) st sc show ?thesis
      by (auto simp: in_string_def split: str_state.splits if_splits intro!: complete_value_utf8)
  next
    case (InNumber n acc)
    have "scan_utf8 (complete_value (JNum (rev acc)) st)" using st by (simp add: complete_value_utf8)
    with InNumber assms(1) st sc show ?thesis
      by (auto split: option.splits if_splits elim: end_value_utf8)
  next
    case (InLiteral xs v)
    with assms st sc show ?thesis
      by (cases xs) (auto split: if_splits intro!: complete_value_utf8)
  next
    case (EndTop v)
    with assms sc show ?thesis by (auto elim: end_value_utf8)
  qed (use assms(1) st rules sc in \<open>simp_all split: if_splits, auto?\<close>)
qed

lemma scan_all_utf8: "scan_all s sc = Inr sc' \<Longrightarrow> scan_utf8 sc \<Longrightarrow> scan_utf8 sc'"
  by (induction s arbitrary: sc) (auto simp: bind_res_Inr_iff dest: scan_step_utf8)

lemma parse_json_utf8:
  assumes "parse_json data = Inr v"
  shows "json_utf8 v"
proof -
  from assms obtain p st where p: "scan_all data (BeginValue, []) = Inr (p, st)" "scan_eof (p, st) = Inr v"
    by (auto simp: parse_json_def bind_res_Inr_iff)
  from scan_all_utf8 [OF p(1)] have "scan_utf8 (p, st)" by simp
  with p(2) show ?thesis
    by (cases p) (auto simp: scan_eof_def split: list.splits if_splits)
qed

end
