(* ===== verification/ConfigText.thy ===== *)
theory ConfigText
  imports Types JsonText
begin

text \<open>
  The configuration as JSON: what \<open>json.Marshal\<close> and \<open>json.Unmarshal\<close> make of the tagged
  structs of \<open>config.go\<close>. A decoder takes a value and what the variable holds, and gives the first
  error it would report and what the variable holds then: a mismatch is reported and left
  out, \<open>null\<close> leaves everything but a slice alone, unknown keys are skipped, a later member with
  the same key is decoded over the earlier one.
\<close>

type_synonym 'a decoder = "json \<Rightarrow> 'a \<Rightarrow> json_err option \<times> 'a"

definition first_err :: "json_err option \<Rightarrow> json_err option \<Rightarrow> json_err option" where
  "first_err a b = (case a of None \<Rightarrow> b | Some e \<Rightarrow> Some e)"

definition json_kind :: "json \<Rightarrow> string" where
  "json_kind j = (case j of JNull \<Rightarrow> ''null'' | JBool _ \<Rightarrow> ''bool'' | JNum _ \<Rightarrow> ''number'' | JStr _ \<Rightarrow> ''string''
     | JArr _ \<Rightarrow> ''array'' | JObj _ \<Rightarrow> ''object'')"

definition mismatch :: "json \<Rightarrow> json_err option" where
  "mismatch j = Some (CannotUnmarshal (json_kind j))"

definition dec_string :: "string decoder" where
  "dec_string j s = (case j of JNull \<Rightarrow> (None, s) | JStr t \<Rightarrow> (None, t) | _ \<Rightarrow> (mismatch j, s))"

definition dec_bool :: "bool decoder" where
  "dec_bool j b = (case j of JNull \<Rightarrow> (None, b) | JBool c \<Rightarrow> (None, c) | _ \<Rightarrow> (mismatch j, b))"

definition dec_int :: "int decoder" where
  "dec_int j n =
     (case j of
        JNull \<Rightarrow> (None, n)
      | JNum l \<Rightarrow> (case parse_int l of Some m \<Rightarrow> (None, m) | None \<Rightarrow> (Some (CannotUnmarshal (''number '' @ l)), n))
      | _ \<Rightarrow> (mismatch j, n))"

text \<open>A slice shows a part of its array; what an earlier value has left behind that part comes
  to light again when a later value for the same variable is longer.\<close>

type_synonym 'a slice = "'a list \<times> 'a list"

fun dec_elems :: "'a \<Rightarrow> 'a decoder \<Rightarrow> json list \<Rightarrow> 'a list \<Rightarrow> json_err option \<times> 'a slice" where
  "dec_elems z d [] old = (None, [], old)"
| "dec_elems z d (j # js) old =
     (let (e, y) = d j (case old of [] \<Rightarrow> z | x # _ \<Rightarrow> x);
          (e', ys, rest) = dec_elems z d js (tl old)
      in (first_err e e', y # ys, rest))"

definition dec_slice :: "'a \<Rightarrow> 'a decoder \<Rightarrow> 'a slice decoder" where
  "dec_slice z d j sl =
     (case j of
        JNull \<Rightarrow> (None, [], [])
      | JArr js \<Rightarrow> if js = [] then (None, [], []) else dec_elems z d js (fst sl @ snd sl)
      | _ \<Rightarrow> (mismatch j, sl))"

text \<open>A struct: the decoder of each field by its tag. A key that is no tag is compared without
  case, with the two letters past ASCII that fold to an ASCII one.\<close>

fun fold_name :: "string \<Rightarrow> string" where
  "fold_name [] = []"
| "fold_name (c # s) =
     (if c = CHR 0xC5 \<and> take 1 s = [CHR 0xBF] then CHR ''s'' # fold_name (drop 1 s)
      else if c = CHR 0xE2 \<and> take 2 s = [CHR 0x84, CHR 0xAA] then CHR ''k'' # fold_name (drop 2 s)
      else lower_char c # fold_name s)"

definition field_decoder :: "(string \<times> 'a decoder) list \<Rightarrow> string \<Rightarrow> 'a decoder option" where
  "field_decoder fs k =
     (case map_of fs k of
        Some d \<Rightarrow> Some d
      | None \<Rightarrow> map_option snd (find (\<lambda>(n, _). fold_name n = fold_name k) fs))"

fun dec_members :: "(string \<times> 'a decoder) list \<Rightarrow> (string \<times> json) list \<Rightarrow> 'a \<Rightarrow> json_err option \<times> 'a" where
  "dec_members fs [] r = (None, r)"
| "dec_members fs ((k, j) # kvs) r =
     (case field_decoder fs k of
        None \<Rightarrow> dec_members fs kvs r
      | Some d \<Rightarrow>
          (let (e, r') = d j r;
               (e', r'') = dec_members fs kvs r'
           in (first_err e e', r'')))"

definition dec_struct :: "(string \<times> 'a decoder) list \<Rightarrow> 'a decoder" where
  "dec_struct fs j r =
     (case j of JNull \<Rightarrow> (None, r) | JObj kvs \<Rightarrow> dec_members fs kvs r | _ \<Rightarrow> (mismatch j, r))"

definition field :: "('a \<Rightarrow> 'b) \<Rightarrow> (('b \<Rightarrow> 'b) \<Rightarrow> 'a \<Rightarrow> 'a) \<Rightarrow> 'b decoder \<Rightarrow> 'a decoder" where
  "field get upd d j r = (let (e, v) = d j (get r) in (e, upd (\<lambda>_. v) r))"

text \<open>\<open>json.Unmarshal\<close> into a variable with its zero value. The text is checked first.\<close>

definition Unmarshal :: "'a decoder \<Rightarrow> 'a \<Rightarrow> string \<Rightarrow> json_err + 'a" where
  "Unmarshal d z data =
     bind_res (parse_json data) (\<lambda>j.
       case d j z of (Some e, _) \<Rightarrow> Inl e | (None, v) \<Rightarrow> Inr v)"

section \<open>The structs\<close>

definition zero_route :: route where
  "zero_route = \<lparr>rt_prefix = [], rt_target = [], rt_strip = False, rt_desc = [], rt_enabled = False, rt_max = 0\<rparr>"

definition dec_route :: "route decoder" where
  "dec_route = dec_struct [
     (''prefix'', field rt_prefix rt_prefix_update dec_string),
     (''target'', field rt_target rt_target_update dec_string),
     (''strip_prefix'', field rt_strip rt_strip_update dec_bool),
     (''description'', field rt_desc rt_desc_update dec_string),
     (''enabled'', field rt_enabled rt_enabled_update dec_bool),
     (''max_concurrent'', field rt_max rt_max_update dec_int)]"

definition enc_route :: "route \<Rightarrow> json" where
  "enc_route r = JObj [
     (''prefix'', JStr (rt_prefix r)), (''target'', JStr (rt_target r)), (''strip_prefix'', JBool (rt_strip r)),
     (''description'', JStr (rt_desc r)), (''enabled'', JBool (rt_enabled r)),
     (''max_concurrent'', JNum (format_int (rt_max r)))]"

text \<open>An entry that holds a slice is decoded with the slice's array.\<close>

record site_var =
  vs_host :: string
  vs_desc :: string
  vs_routes :: "route slice"

definition zero_site :: site_var where
  "zero_site = \<lparr>vs_host = [], vs_desc = [], vs_routes = ([], [])\<rparr>"

definition dec_site :: "site_var decoder" where
  "dec_site = dec_struct [
     (''host'', field vs_host vs_host_update dec_string),
     (''description'', field vs_desc vs_desc_update dec_string),
     (''routes'', field vs_routes vs_routes_update (dec_slice zero_route dec_route))]"

definition site_of :: "site_var \<Rightarrow> http_site" where
  "site_of v = \<lparr>hs_host = vs_host v, hs_desc = vs_desc v, hs_routes = fst (vs_routes v)\<rparr>"

text \<open>Whether an empty slice is \<open>nil\<close>, and so written as \<open>null\<close>, the model's lists do not tell: it
  is an argument of the encoders.\<close>

definition enc_slice :: "bool \<Rightarrow> json list \<Rightarrow> json" where
  "enc_slice isnil js = (if js = [] \<and> isnil then JNull else JArr js)"

definition enc_site :: "bool \<Rightarrow> http_site \<Rightarrow> json" where
  "enc_site isnil s = JObj [
     (''host'', JStr (hs_host s)), (''description'', JStr (hs_desc s)),
     (''routes'', enc_slice isnil (map enc_route (hs_routes s)))]"

definition zero_forward :: forward where
  "zero_forward = \<lparr>fw_name = [], fw_proto = [], fw_listen = [], fw_target = [], fw_proxy_proto = False,
     fw_desc = [], fw_enabled = False\<rparr>"

definition dec_forward :: "forward decoder" where
  "dec_forward = dec_struct [
     (''name'', field fw_name fw_name_update dec_string),
     (''proto'', field fw_proto fw_proto_update dec_string),
     (''listen'', field fw_listen fw_listen_update dec_string),
     (''target'', field fw_target fw_target_update dec_string),
     (''proxy_proto'', field fw_proxy_proto fw_proxy_proto_update dec_bool),
     (''description'', field fw_desc fw_desc_update dec_string),
     (''enabled'', field fw_enabled fw_enabled_update dec_bool)]"

definition enc_forward :: "forward \<Rightarrow> json" where
  "enc_forward f = JObj [
     (''name'', JStr (fw_name f)), (''proto'', JStr (fw_proto f)), (''listen'', JStr (fw_listen f)),
     (''target'', JStr (fw_target f)), (''proxy_proto'', JBool (fw_proxy_proto f)),
     (''description'', JStr (fw_desc f)), (''enabled'', JBool (fw_enabled f))]"

definition zero_dnat :: dnat_rule where
  "zero_dnat = \<lparr>dn_name = [], dn_proto = [], dn_port = 0, dn_target = [], dn_snat = False, dn_desc = [],
     dn_enabled = False\<rparr>"

definition dec_dnat :: "dnat_rule decoder" where
  "dec_dnat = dec_struct [
     (''name'', field dn_name dn_name_update dec_string),
     (''proto'', field dn_proto dn_proto_update dec_string),
     (''listen_port'', field dn_port dn_port_update dec_int),
     (''target'', field dn_target dn_target_update dec_string),
     (''snat'', field dn_snat dn_snat_update dec_bool),
     (''description'', field dn_desc dn_desc_update dec_string),
     (''enabled'', field dn_enabled dn_enabled_update dec_bool)]"

definition enc_dnat :: "dnat_rule \<Rightarrow> json" where
  "enc_dnat d = JObj [
     (''name'', JStr (dn_name d)), (''proto'', JStr (dn_proto d)), (''listen_port'', JNum (format_int (dn_port d))),
     (''target'', JStr (dn_target d)), (''snat'', JBool (dn_snat d)),
     (''description'', JStr (dn_desc d)), (''enabled'', JBool (dn_enabled d))]"

definition zero_pf :: port_forward where
  "zero_pf = \<lparr>pf_port = 0, pf_target = [], pf_manage = False, pf_backend_tls = False, pf_skip = False,
     pf_proxy_proto = False, pf_desc = [], pf_enabled = False\<rparr>"

definition dec_pf :: "port_forward decoder" where
  "dec_pf = dec_struct [
     (''port'', field pf_port pf_port_update dec_int),
     (''target'', field pf_target pf_target_update dec_string),
     (''manage_cert'', field pf_manage pf_manage_update dec_bool),
     (''backend_tls'', field pf_backend_tls pf_backend_tls_update dec_bool),
     (''skip_verify'', field pf_skip pf_skip_update dec_bool),
     (''proxy_proto'', field pf_proxy_proto pf_proxy_proto_update dec_bool),
     (''description'', field pf_desc pf_desc_update dec_string),
     (''enabled'', field pf_enabled pf_enabled_update dec_bool)]"

definition enc_pf :: "port_forward \<Rightarrow> json" where
  "enc_pf f = JObj [
     (''port'', JNum (format_int (pf_port f))), (''target'', JStr (pf_target f)),
     (''manage_cert'', JBool (pf_manage f)), (''backend_tls'', JBool (pf_backend_tls f)),
     (''skip_verify'', JBool (pf_skip f)), (''proxy_proto'', JBool (pf_proxy_proto f)),
     (''description'', JStr (pf_desc f)), (''enabled'', JBool (pf_enabled f))]"

record domain_var =
  vd_host :: string
  vd_desc :: string
  vd_forwards :: "port_forward slice"

definition zero_domain :: domain_var where
  "zero_domain = \<lparr>vd_host = [], vd_desc = [], vd_forwards = ([], [])\<rparr>"

definition dec_domain :: "domain_var decoder" where
  "dec_domain = dec_struct [
     (''host'', field vd_host vd_host_update dec_string),
     (''description'', field vd_desc vd_desc_update dec_string),
     (''forwards'', field vd_forwards vd_forwards_update (dec_slice zero_pf dec_pf))]"

definition domain_of :: "domain_var \<Rightarrow> domain" where
  "domain_of v = \<lparr>dm_host = vd_host v, dm_desc = vd_desc v, dm_forwards = fst (vd_forwards v)\<rparr>"

definition enc_domain :: "bool \<Rightarrow> domain \<Rightarrow> json" where
  "enc_domain isnil d = JObj [
     (''host'', JStr (dm_host d)), (''description'', JStr (dm_desc d)),
     (''forwards'', enc_slice isnil (map enc_pf (dm_forwards d)))]"

section \<open>The two list fields of the forms\<close>

definition unmarshal_routes :: "string \<Rightarrow> json_err + route list" where
  "unmarshal_routes data = bind_res (Unmarshal (dec_slice zero_route dec_route) ([], []) data) (\<lambda>v. Inr (fst v))"

definition unmarshal_forwards :: "string \<Rightarrow> json_err + port_forward list" where
  "unmarshal_forwards data = bind_res (Unmarshal (dec_slice zero_pf dec_pf) ([], []) data) (\<lambda>v. Inr (fst v))"

section \<open>The file\<close>

record vhost =
  vh_host :: string
  vh_target :: string
  vh_skip :: bool
  vh_desc :: string
  vh_enabled :: bool

definition zero_vhost :: vhost where
  "zero_vhost = \<lparr>vh_host = [], vh_target = [], vh_skip = False, vh_desc = [], vh_enabled = False\<rparr>"

definition dec_vhost :: "vhost decoder" where
  "dec_vhost = dec_struct [
     (''host'', field vh_host vh_host_update dec_string),
     (''target'', field vh_target vh_target_update dec_string),
     (''skip_verify'', field vh_skip vh_skip_update dec_bool),
     (''description'', field vh_desc vh_desc_update dec_string),
     (''enabled'', field vh_enabled vh_enabled_update dec_bool)]"

record file_var =
  vf_sites :: "site_var slice"
  vf_routes :: "route slice"
  vf_forwards :: "forward slice"
  vf_dnat :: "dnat_rule slice"
  vf_domains :: "domain_var slice"
  vf_vhosts :: "vhost slice"

definition zero_file :: file_var where
  "zero_file = \<lparr>vf_sites = ([], []), vf_routes = ([], []), vf_forwards = ([], []), vf_dnat = ([], []),
     vf_domains = ([], []), vf_vhosts = ([], [])\<rparr>"

definition dec_file :: "file_var decoder" where
  "dec_file = dec_struct [
     (''sites'', field vf_sites vf_sites_update (dec_slice zero_site dec_site)),
     (''routes'', field vf_routes vf_routes_update (dec_slice zero_route dec_route)),
     (''forwards'', field vf_forwards vf_forwards_update (dec_slice zero_forward dec_forward)),
     (''dnat'', field vf_dnat vf_dnat_update (dec_slice zero_dnat dec_dnat)),
     (''domains'', field vf_domains vf_domains_update (dec_slice zero_domain dec_domain)),
     (''vhosts'', field vf_vhosts vf_vhosts_update (dec_slice zero_vhost dec_vhost))]"

record legacy_file =
  lf_sites :: "http_site list"
  lf_routes :: "route list"
  lf_forwards :: "forward list"
  lf_dnat :: "dnat_rule list"
  lf_domains :: "domain list"
  lf_vhosts :: "vhost list"

definition file_of :: "file_var \<Rightarrow> legacy_file" where
  "file_of v = \<lparr>lf_sites = map site_of (fst (vf_sites v)), lf_routes = fst (vf_routes v),
     lf_forwards = fst (vf_forwards v), lf_dnat = fst (vf_dnat v),
     lf_domains = map domain_of (fst (vf_domains v)), lf_vhosts = fst (vf_vhosts v)\<rparr>"

definition unmarshal_file :: "string \<Rightarrow> json_err + legacy_file" where
  "unmarshal_file data = bind_res (Unmarshal dec_file zero_file data) (\<lambda>v. Inr (file_of v))"

definition enc_config :: "(http_site \<Rightarrow> bool) \<Rightarrow> (domain \<Rightarrow> bool) \<Rightarrow> config_file \<Rightarrow> json" where
  "enc_config nilr nilf c = JObj [
     (''sites'', JArr (map (\<lambda>s. enc_site (nilr s) s) (cf_sites c))),
     (''forwards'', JArr (map enc_forward (cf_forwards c))),
     (''dnat'', JArr (map enc_dnat (cf_dnat c))),
     (''domains'', JArr (map (\<lambda>d. enc_domain (nilf d) d) (cf_domains c)))]"

definition config_text :: "(http_site \<Rightarrow> bool) \<Rightarrow> (domain \<Rightarrow> bool) \<Rightarrow> config_file \<Rightarrow> string" where
  "config_text nilr nilf c = MarshalIndent (enc_config nilr nilf c)"

section \<open>Reading back what was written\<close>

text \<open>The strings of an entry as their text reads back.\<close>

definition valid_route :: "route \<Rightarrow> route" where
  "valid_route r = r\<lparr>rt_prefix := valid_text (rt_prefix r), rt_target := valid_text (rt_target r),
     rt_desc := valid_text (rt_desc r)\<rparr>"

definition valid_site :: "http_site \<Rightarrow> http_site" where
  "valid_site s = \<lparr>hs_host = valid_text (hs_host s), hs_desc = valid_text (hs_desc s),
     hs_routes = map valid_route (hs_routes s)\<rparr>"

definition valid_forward :: "forward \<Rightarrow> forward" where
  "valid_forward f = f\<lparr>fw_name := valid_text (fw_name f), fw_proto := valid_text (fw_proto f),
     fw_listen := valid_text (fw_listen f), fw_target := valid_text (fw_target f), fw_desc := valid_text (fw_desc f)\<rparr>"

definition valid_dnat :: "dnat_rule \<Rightarrow> dnat_rule" where
  "valid_dnat d = d\<lparr>dn_name := valid_text (dn_name d), dn_proto := valid_text (dn_proto d),
     dn_target := valid_text (dn_target d), dn_desc := valid_text (dn_desc d)\<rparr>"

definition valid_pf :: "port_forward \<Rightarrow> port_forward" where
  "valid_pf f = f\<lparr>pf_target := valid_text (pf_target f), pf_desc := valid_text (pf_desc f)\<rparr>"

definition valid_domain :: "domain \<Rightarrow> domain" where
  "valid_domain d = \<lparr>dm_host = valid_text (dm_host d), dm_desc = valid_text (dm_desc d),
     dm_forwards = map valid_pf (dm_forwards d)\<rparr>"

definition valid_config :: "config_file \<Rightarrow> config_file" where
  "valid_config c = \<lparr>cf_sites = map valid_site (cf_sites c), cf_forwards = map valid_forward (cf_forwards c),
     cf_dnat = map valid_dnat (cf_dnat c), cf_domains = map valid_domain (cf_domains c)\<rparr>"

text \<open>The numbers of a configuration are Go \<open>int\<close>s, of 64 bits.\<close>

definition int64 :: "int \<Rightarrow> bool" where
  "int64 n \<longleftrightarrow> - (2 ^ 63) \<le> n \<and> n < 2 ^ 63"

definition config_int64 :: "config_file \<Rightarrow> bool" where
  "config_int64 c \<longleftrightarrow> (\<forall>s\<in>set (cf_sites c). \<forall>r\<in>set (hs_routes s). int64 (rt_max r))
     \<and> (\<forall>d\<in>set (cf_dnat c). int64 (dn_port d)) \<and> (\<forall>d\<in>set (cf_domains c). \<forall>f\<in>set (dm_forwards d). int64 (pf_port f))"

lemma valid_text_ascii: "\<forall>c\<in>set s. byte_of c < 0x80 \<Longrightarrow> valid_text s = s"
  by (simp add: valid_text_id ascii_valid)

lemma first_err_None [simp]: "first_err None e = e" "first_err a None = a"
  by (simp_all add: first_err_def split: option.splits)

lemma dec_elems_map:
  "(\<And>x. x \<in> set xs \<Longrightarrow> d (enc x) z = (None, g x)) \<Longrightarrow> dec_elems z d (map enc xs) [] = (None, map g xs, [])"
  by (induction xs) simp_all

lemma dec_slice_map:
  "(\<And>x. x \<in> set xs \<Longrightarrow> d (enc x) z = (None, g x)) \<Longrightarrow>
     dec_slice z d (JArr (map enc xs)) ([], []) = (None, map g xs, [])"
  by (simp add: dec_slice_def dec_elems_map)

lemma dec_enc_slice:
  "(\<And>x. x \<in> set xs \<Longrightarrow> d (enc x) z = (None, g x)) \<Longrightarrow>
     dec_slice z d (enc_slice isnil (map enc xs)) ([], []) = (None, map g xs, [])"
  using dec_slice_map [of xs d enc z g] by (auto simp: enc_slice_def dec_slice_def)

lemmas dec_eval = dec_struct_def field_decoder_def field_def dec_string_def dec_bool_def dec_int_def Let_def

lemma dec_enc_route: "int64 (rt_max r) \<Longrightarrow> dec_route (enc_route r) v = (None, r)"
  by (simp add: dec_route_def enc_route_def dec_eval parse_format_int int64_def)

lemma dec_enc_forward: "dec_forward (enc_forward f) v = (None, f)"
  by (simp add: dec_forward_def enc_forward_def dec_eval)

lemma dec_enc_dnat: "int64 (dn_port d) \<Longrightarrow> dec_dnat (enc_dnat d) v = (None, d)"
  by (simp add: dec_dnat_def enc_dnat_def dec_eval parse_format_int int64_def)

lemma dec_enc_pf: "int64 (pf_port f) \<Longrightarrow> dec_pf (enc_pf f) v = (None, f)"
  by (simp add: dec_pf_def enc_pf_def dec_eval parse_format_int int64_def)

lemma dec_enc_site:
  assumes "\<forall>r\<in>set (hs_routes s). int64 (rt_max r)"
  shows "dec_site (enc_site isnil s) zero_site = (None, \<lparr>vs_host = hs_host s, vs_desc = hs_desc s, vs_routes = (hs_routes s, [])\<rparr>)"
  using dec_enc_slice [of "hs_routes s" dec_route enc_route zero_route "\<lambda>r. r" isnil] assms
  by (simp add: dec_site_def enc_site_def dec_eval zero_site_def dec_enc_route)

lemma dec_enc_domain:
  assumes "\<forall>f\<in>set (dm_forwards d). int64 (pf_port f)"
  shows "dec_domain (enc_domain isnil d) zero_domain = (None, \<lparr>vd_host = dm_host d, vd_desc = dm_desc d, vd_forwards = (dm_forwards d, [])\<rparr>)"
  using dec_enc_slice [of "dm_forwards d" dec_pf enc_pf zero_pf "\<lambda>f. f" isnil] assms
  by (simp add: dec_domain_def enc_domain_def dec_eval zero_domain_def dec_enc_pf)

definition file_var_of :: "config_file \<Rightarrow> file_var" where
  "file_var_of c = zero_file\<lparr>
     vf_sites := (map (\<lambda>s. \<lparr>vs_host = hs_host s, vs_desc = hs_desc s, vs_routes = (hs_routes s, [])\<rparr>) (cf_sites c), []),
     vf_forwards := (cf_forwards c, []), vf_dnat := (cf_dnat c, []),
     vf_domains := (map (\<lambda>d. \<lparr>vd_host = dm_host d, vd_desc = dm_desc d, vd_forwards = (dm_forwards d, [])\<rparr>) (cf_domains c), [])\<rparr>"

lemma file_of_file_var:
  "file_of (file_var_of c) = \<lparr>lf_sites = cf_sites c, lf_routes = [], lf_forwards = cf_forwards c,
     lf_dnat = cf_dnat c, lf_domains = cf_domains c, lf_vhosts = []\<rparr>"
  by (simp add: file_of_def file_var_of_def zero_file_def site_of_def domain_of_def comp_def
      map_idI)

text \<open>The text of an entry reads as that of the entry with its strings made valid.\<close>

lemma valid_enc_route: "valid_json (enc_route r) = enc_route (valid_route r)"
  by (simp add: enc_route_def valid_route_def valid_text_ascii)

lemma valid_enc_pf: "valid_json (enc_pf f) = enc_pf (valid_pf f)"
  by (simp add: enc_pf_def valid_pf_def valid_text_ascii)

lemma valid_enc_forward: "valid_json (enc_forward f) = enc_forward (valid_forward f)"
  by (simp add: enc_forward_def valid_forward_def valid_text_ascii)

lemma valid_enc_dnat: "valid_json (enc_dnat d) = enc_dnat (valid_dnat d)"
  by (simp add: enc_dnat_def valid_dnat_def valid_text_ascii)

lemma valid_enc_slice: "valid_json (enc_slice isnil js) = enc_slice isnil (map valid_json js)"
  by (simp add: enc_slice_def)

lemma valid_enc_site: "valid_json (enc_site isnil s) = enc_site isnil (valid_site s)"
  by (simp add: enc_site_def valid_site_def valid_text_ascii valid_enc_slice valid_enc_route comp_def)

lemma valid_enc_domain: "valid_json (enc_domain isnil d) = enc_domain isnil (valid_domain d)"
  by (simp add: enc_domain_def valid_domain_def valid_text_ascii valid_enc_slice valid_enc_pf comp_def)

lemma json_ints_enc:
  "json_ints (enc_route r)" "json_ints (enc_pf f)" "json_ints (enc_forward w)" "json_ints (enc_dnat d)"
  "json_ints (enc_site isnil s)" "json_ints (enc_domain isnil m)" "json_ints (enc_config nilr nilf c)"
proof -
  show r: "json_ints (enc_route r)" for r by (auto simp: enc_route_def)
  show f: "json_ints (enc_pf f)" for f by (auto simp: enc_pf_def)
  show w: "json_ints (enc_forward w)" for w by (auto simp: enc_forward_def)
  show d: "json_ints (enc_dnat d)" for d by (auto simp: enc_dnat_def)
  show s: "json_ints (enc_site isnil s)" for isnil s by (auto simp: enc_site_def enc_slice_def r)
  show m: "json_ints (enc_domain isnil m)" for isnil m by (auto simp: enc_domain_def enc_slice_def f)
  show "json_ints (enc_config nilr nilf c)" by (auto simp: enc_config_def w d s m)
qed

lemma foldr_max_map_le: "foldr max (map f xs) 0 \<le> (m::nat) \<longleftrightarrow> (\<forall>x\<in>set xs. f x \<le> m)"
  by (simp add: foldr_max_le)

lemma json_depth_enc:
  "json_depth (enc_route r) = 1" "json_depth (enc_pf f) = 1" "json_depth (enc_forward w) = 1" "json_depth (enc_dnat d) = 1"
  by (simp_all add: enc_route_def enc_pf_def enc_forward_def enc_dnat_def)

lemma json_depth_slice:
  assumes "\<forall>x\<in>set xs. json_depth (enc x) \<le> m"
  shows "json_depth (enc_slice isnil (map enc xs)) \<le> Suc m" "json_depth (JArr (map enc xs)) \<le> Suc m"
  using assms by (simp_all add: enc_slice_def foldr_max_map_le comp_def)

lemma json_depth_config: "json_depth (enc_config nilr nilf c) \<le> 5"
proof -
  have s: "json_depth (enc_site isnil s) \<le> 3" for isnil s
    using json_depth_slice(1) [of "hs_routes s" enc_route 1 isnil] by (simp add: enc_site_def json_depth_enc)
  have d: "json_depth (enc_domain isnil d) \<le> 3" for isnil d
    using json_depth_slice(1) [of "dm_forwards d" enc_pf 1 isnil] by (simp add: enc_domain_def json_depth_enc)
  have "json_depth (JArr (map (\<lambda>s. enc_site (nilr s) s) (cf_sites c))) \<le> 4"
    using json_depth_slice(2) [of "cf_sites c" "\<lambda>s. enc_site (nilr s) s" 3] s by simp
  moreover have "json_depth (JArr (map enc_forward (cf_forwards c))) \<le> 4"
    using json_depth_slice(2) [of "cf_forwards c" enc_forward 3] by (simp add: json_depth_enc)
  moreover have "json_depth (JArr (map enc_dnat (cf_dnat c))) \<le> 4"
    using json_depth_slice(2) [of "cf_dnat c" enc_dnat 3] by (simp add: json_depth_enc)
  moreover have "json_depth (JArr (map (\<lambda>d. enc_domain (nilf d) d) (cf_domains c))) \<le> 4"
    using json_depth_slice(2) [of "cf_domains c" "\<lambda>d. enc_domain (nilf d) d" 3] d by simp
  moreover have "foldr max [i, j, k, l] 0 \<le> 4" if "i \<le> 4" "j \<le> 4" "k \<le> 4" "l \<le> 4" for i j k l :: nat
    using that by simp
  ultimately show ?thesis unfolding enc_config_def by (simp del: json_depth.simps(1) foldr.simps)
qed

text \<open>The file as it is written and the configuration it decodes to.\<close>

lemma valid_entry_simps [simp]:
  "rt_max (valid_route r) = rt_max r" "pf_port (valid_pf f) = pf_port f" "dn_port (valid_dnat d) = dn_port d"
  "hs_routes (valid_site s) = map valid_route (hs_routes s)" "dm_forwards (valid_domain m) = map valid_pf (dm_forwards m)"
  by (simp_all add: valid_route_def valid_pf_def valid_dnat_def valid_site_def valid_domain_def)

lemma dec_config:
  assumes "config_int64 c"
  shows "dec_file (valid_json (enc_config nilr nilf c)) zero_file = (None, file_var_of (valid_config c))"
proof -
  have "dec_slice zero_site dec_site (JArr (map (\<lambda>s. enc_site (nilr s) (valid_site s)) (cf_sites c))) ([], []) =
      (None, map (\<lambda>s. \<lparr>vs_host = hs_host (valid_site s), vs_desc = hs_desc (valid_site s), vs_routes = (hs_routes (valid_site s), [])\<rparr>) (cf_sites c), [])"
    using assms by (intro dec_slice_map dec_enc_site) (simp add: config_int64_def)
  moreover have "dec_slice zero_forward dec_forward (JArr (map (\<lambda>f. enc_forward (valid_forward f)) (cf_forwards c))) ([], []) =
      (None, map valid_forward (cf_forwards c), [])"
    by (rule dec_slice_map) (rule dec_enc_forward)
  moreover have "dec_slice zero_dnat dec_dnat (JArr (map (\<lambda>d. enc_dnat (valid_dnat d)) (cf_dnat c))) ([], []) =
      (None, map valid_dnat (cf_dnat c), [])"
    using assms by (intro dec_slice_map dec_enc_dnat) (simp add: config_int64_def)
  moreover have "dec_slice zero_domain dec_domain (JArr (map (\<lambda>d. enc_domain (nilf d) (valid_domain d)) (cf_domains c))) ([], []) =
      (None, map (\<lambda>d. \<lparr>vd_host = dm_host (valid_domain d), vd_desc = dm_desc (valid_domain d), vd_forwards = (dm_forwards (valid_domain d), [])\<rparr>) (cf_domains c), [])"
    using assms by (intro dec_slice_map dec_enc_domain) (simp add: config_int64_def)
  ultimately show ?thesis
    by (simp add: dec_file_def enc_config_def dec_eval file_var_of_def zero_file_def valid_text_ascii comp_def
        valid_enc_site valid_enc_domain valid_enc_forward valid_enc_dnat valid_config_def)
qed

theorem unmarshal_config_text:
  assumes "config_int64 c"
  shows "unmarshal_file (config_text nilr nilf c) = Inr \<lparr>lf_sites = cf_sites (valid_config c), lf_routes = [],
     lf_forwards = cf_forwards (valid_config c), lf_dnat = cf_dnat (valid_config c),
     lf_domains = cf_domains (valid_config c), lf_vhosts = []\<rparr>"
proof -
  have "json_depth (enc_config nilr nilf c) \<le> max_depth" using json_depth_config [of nilr nilf c] by (simp add: max_depth_def)
  moreover have "\<forall>l. enc_config nilr nilf c \<noteq> JNum l" by (simp add: enc_config_def)
  ultimately have "parse_json (config_text nilr nilf c) = Inr (valid_json (enc_config nilr nilf c))"
    unfolding config_text_def MarshalIndent_def by (intro parse_print json_ints_enc)
  then show ?thesis
    by (simp add: unmarshal_file_def Unmarshal_def dec_config [OF assms] file_of_file_var)
qed

lemma config_text_ends:
  "\<exists>u. config_text nilr nilf c = CHR ''{'' # u @ ''}''"
  by (simp add: config_text_def MarshalIndent_def enc_config_def bracket_def)

lemma config_text_object: "\<not> has_prefix (trim_space (config_text nilr nilf c)) ''[''"
proof -
  obtain u where u: "config_text nilr nilf c = CHR ''{'' # u @ ''}''" using config_text_ends by blast
  then have "trim_space (config_text nilr nilf c) = config_text nilr nilf c"
    by (intro trim_space_ends) (simp add: plain_byte_def)
  then show ?thesis by (simp add: u has_prefix_def)
qed

text \<open>A configuration all of whose strings are UTF-8 comes back as it was.\<close>

definition config_utf8 :: "config_file \<Rightarrow> bool" where
  "config_utf8 c \<longleftrightarrow>
     (\<forall>s\<in>set (cf_sites c). utf8_valid (hs_host s) \<and> utf8_valid (hs_desc s)
        \<and> (\<forall>r\<in>set (hs_routes s). utf8_valid (rt_prefix r) \<and> utf8_valid (rt_target r) \<and> utf8_valid (rt_desc r)))
   \<and> (\<forall>f\<in>set (cf_forwards c). utf8_valid (fw_name f) \<and> utf8_valid (fw_proto f) \<and> utf8_valid (fw_listen f)
        \<and> utf8_valid (fw_target f) \<and> utf8_valid (fw_desc f))
   \<and> (\<forall>d\<in>set (cf_dnat c). utf8_valid (dn_name d) \<and> utf8_valid (dn_proto d) \<and> utf8_valid (dn_target d) \<and> utf8_valid (dn_desc d))
   \<and> (\<forall>d\<in>set (cf_domains c). utf8_valid (dm_host d) \<and> utf8_valid (dm_desc d)
        \<and> (\<forall>f\<in>set (dm_forwards d). utf8_valid (pf_target f) \<and> utf8_valid (pf_desc f)))"

lemma valid_config_id: "config_utf8 c \<Longrightarrow> valid_config c = c"
  by (auto simp: config_utf8_def valid_config_def valid_site_def valid_route_def valid_forward_def valid_dnat_def
      valid_domain_def valid_pf_def valid_text_id intro!: config_file.equality map_idI http_site.equality domain.equality)

lemma config_utf8_valid: "config_utf8 (valid_config c)"
  by (auto simp: config_utf8_def valid_config_def valid_site_def valid_route_def valid_forward_def valid_dnat_def
      valid_domain_def valid_pf_def)

lemma valid_config_id_iff: "valid_config c = c \<longleftrightarrow> config_utf8 c"
  using valid_config_id config_utf8_valid by metis

lemma config_int64_valid [simp]: "config_int64 (valid_config c) \<longleftrightarrow> config_int64 c"
  by (simp add: config_int64_def valid_config_def)

end
