(* ===== verification/ConfigValues.thy ===== *)
theory ConfigValues
  imports ConfigText
begin

text \<open>
  What the values are that decoding JSON can give: strings of UTF-8 and integers of 64 bits,
  so that a configuration read from a file can be written and read back unchanged.
\<close>

section \<open>What decoding can give\<close>

text \<open>A decoder keeps a property of the variable when the strings of the value are UTF-8.\<close>

definition keeps :: "('a \<Rightarrow> bool) \<Rightarrow> 'a decoder \<Rightarrow> bool" where
  "keeps P d \<longleftrightarrow> (\<forall>j v. json_utf8 j \<longrightarrow> P v \<longrightarrow> P (snd (d j v)))"

lemma keepsD: "keeps P d \<Longrightarrow> json_utf8 j \<Longrightarrow> P v \<Longrightarrow> d j v = (e, w) \<Longrightarrow> P w"
  by (fastforce simp: keeps_def)

lemma keeps_string: "keeps utf8_valid dec_string"
  by (auto simp: keeps_def dec_string_def split: json.splits)

lemma keeps_bool: "keeps (\<lambda>_. True) dec_bool"
  by (simp add: keeps_def)

lemma keeps_int: "keeps int64 dec_int"
  by (auto simp: keeps_def dec_int_def int64_def dest: parse_int_bounds split: json.splits option.splits)

lemma keeps_field:
  assumes "keeps Q d" "\<And>v. P v \<Longrightarrow> Q (get v)" "\<And>v x. P v \<Longrightarrow> Q x \<Longrightarrow> P (upd (\<lambda>_. x) v)"
  shows "keeps P (field get upd d)"
  using assms by (fastforce simp: keeps_def field_def split: prod.splits)

lemma keeps_struct:
  assumes "\<forall>d\<in>snd ` set fs. keeps P d"
  shows "keeps P (dec_struct fs)"
proof -
  have fd: "keeps P d" if "field_decoder fs k = Some d" for k d
    using that assms by (auto simp: field_decoder_def find_Some_iff dest!: map_of_SomeD split: option.splits)
      (metis image_eqI nth_mem snd_conv)
  have "P (snd (dec_members fs kvs v))" if "\<forall>(k, j)\<in>set kvs. json_utf8 j" "P v" for kvs v
    using that
  proof (induction kvs arbitrary: v)
    case (Cons kv kvs)
    obtain k j where kv: "kv = (k, j)" by (cases kv)
    show ?case
    proof (cases "field_decoder fs k")
      case None
      with Cons kv show ?thesis by simp
    next
      case (Some d)
      obtain e w where w: "d j v = (e, w)" by fastforce
      then have "P w" using keepsD [OF fd [OF Some] _ _ w] Cons.prems kv by simp
      then have "P (snd (dec_members fs kvs w))" using Cons by simp
      then show ?thesis by (simp add: Some w kv split_beta Let_def)
    qed
  qed simp
  then show ?thesis by (auto simp: keeps_def dec_struct_def split: json.splits)
qed

definition slice_all :: "('a \<Rightarrow> bool) \<Rightarrow> 'a slice \<Rightarrow> bool" where
  "slice_all P sl \<longleftrightarrow> (\<forall>x\<in>set (fst sl) \<union> set (snd sl). P x)"

lemma keeps_slice:
  assumes "keeps P d" "P z"
  shows "keeps (slice_all P) (dec_slice z d)"
proof -
  have "slice_all P (snd (dec_elems z d js old))" if "\<forall>j\<in>set js. json_utf8 j" "\<forall>x\<in>set old. P x" for js old
    using that
  proof (induction js arbitrary: old)
    case (Cons j js)
    let ?x = "case old of [] \<Rightarrow> z | x # _ \<Rightarrow> x"
    obtain e y where y: "d j ?x = (e, y)" by fastforce
    have "P ?x" using Cons.prems(2) assms(2) by (cases old) simp_all
    with y have "P y" using keepsD [OF assms(1) _ _ y] Cons.prems(1) by simp
    moreover have "slice_all P (snd (dec_elems z d js (tl old)))"
      using Cons.IH [of "tl old"] Cons.prems by (cases old) simp_all
    ultimately show ?case using y by (auto simp: slice_all_def split: prod.splits)
  qed (simp add: slice_all_def)
  note elems = this
  have "slice_all P (snd (dec_slice z d j sl))" if "json_utf8 j" "slice_all P sl" for j sl
  proof -
    have "\<forall>x\<in>set (fst sl @ snd sl). P x" using that(2) by (simp add: slice_all_def)
    with that elems show ?thesis by (cases j) (simp_all add: dec_slice_def slice_all_def [of P "([], [])"])
  qed
  then show ?thesis by (simp add: keeps_def)
qed

definition route_text :: "route \<Rightarrow> bool" where
  "route_text r \<longleftrightarrow> utf8_valid (rt_prefix r) \<and> utf8_valid (rt_target r) \<and> utf8_valid (rt_desc r) \<and> int64 (rt_max r)"

definition forward_text :: "forward \<Rightarrow> bool" where
  "forward_text f \<longleftrightarrow> utf8_valid (fw_name f) \<and> utf8_valid (fw_proto f) \<and> utf8_valid (fw_listen f)
     \<and> utf8_valid (fw_target f) \<and> utf8_valid (fw_desc f)"

definition dnat_text :: "dnat_rule \<Rightarrow> bool" where
  "dnat_text d \<longleftrightarrow> utf8_valid (dn_name d) \<and> utf8_valid (dn_proto d) \<and> utf8_valid (dn_target d) \<and> utf8_valid (dn_desc d)
     \<and> int64 (dn_port d)"

definition pf_text :: "port_forward \<Rightarrow> bool" where
  "pf_text f \<longleftrightarrow> utf8_valid (pf_target f) \<and> utf8_valid (pf_desc f) \<and> int64 (pf_port f)"

definition site_var_text :: "site_var \<Rightarrow> bool" where
  "site_var_text v \<longleftrightarrow> utf8_valid (vs_host v) \<and> utf8_valid (vs_desc v) \<and> slice_all route_text (vs_routes v)"

definition domain_var_text :: "domain_var \<Rightarrow> bool" where
  "domain_var_text v \<longleftrightarrow> utf8_valid (vd_host v) \<and> utf8_valid (vd_desc v) \<and> slice_all pf_text (vd_forwards v)"

lemma keeps_route: "keeps route_text dec_route"
  unfolding dec_route_def
  by (rule keeps_struct) (auto simp: route_text_def intro: keeps_field keeps_field [OF keeps_string] keeps_field [OF keeps_int] keeps_field [OF keeps_bool])

lemma keeps_forward: "keeps forward_text dec_forward"
  unfolding dec_forward_def
  by (rule keeps_struct) (auto simp: forward_text_def intro: keeps_field [OF keeps_string] keeps_field [OF keeps_bool])

lemma keeps_dnat: "keeps dnat_text dec_dnat"
  unfolding dec_dnat_def
  by (rule keeps_struct) (auto simp: dnat_text_def intro: keeps_field [OF keeps_string] keeps_field [OF keeps_int] keeps_field [OF keeps_bool])

lemma keeps_pf: "keeps pf_text dec_pf"
  unfolding dec_pf_def
  by (rule keeps_struct) (auto simp: pf_text_def intro: keeps_field [OF keeps_string] keeps_field [OF keeps_int] keeps_field [OF keeps_bool])

lemma zero_text: "route_text zero_route" "forward_text zero_forward" "dnat_text zero_dnat" "pf_text zero_pf"
  by (simp_all add: route_text_def forward_text_def dnat_text_def pf_text_def zero_route_def zero_forward_def
      zero_dnat_def zero_pf_def int64_def)

lemma keeps_site: "keeps site_var_text dec_site"
  unfolding dec_site_def
  by (rule keeps_struct) (auto simp: site_var_text_def intro: keeps_field [OF keeps_string]
      keeps_field [OF keeps_slice [OF keeps_route zero_text(1)]])

lemma keeps_domain: "keeps domain_var_text dec_domain"
  unfolding dec_domain_def
  by (rule keeps_struct) (auto simp: domain_var_text_def intro: keeps_field [OF keeps_string]
      keeps_field [OF keeps_slice [OF keeps_pf zero_text(4)]])

definition file_var_text :: "file_var \<Rightarrow> bool" where
  "file_var_text v \<longleftrightarrow> slice_all site_var_text (vf_sites v) \<and> slice_all route_text (vf_routes v)
     \<and> slice_all forward_text (vf_forwards v) \<and> slice_all dnat_text (vf_dnat v) \<and> slice_all domain_var_text (vf_domains v)"

lemma keeps_any: "keeps (\<lambda>_. True) d"
  by (simp add: keeps_def)

lemma keeps_file: "keeps file_var_text dec_file"
proof -
  have z: "site_var_text zero_site" "domain_var_text zero_domain"
    by (simp_all add: site_var_text_def domain_var_text_def zero_site_def zero_domain_def slice_all_def)
  show ?thesis
    unfolding dec_file_def
    by (rule keeps_struct) (auto simp: file_var_text_def intro: keeps_field [OF keeps_slice [OF keeps_site z(1)]]
        keeps_field [OF keeps_slice [OF keeps_route zero_text(1)]] keeps_field [OF keeps_slice [OF keeps_forward zero_text(2)]]
        keeps_field [OF keeps_slice [OF keeps_dnat zero_text(3)]] keeps_field [OF keeps_slice [OF keeps_domain z(2)]]
        keeps_field [OF keeps_any])
qed

lemma Unmarshal_keeps:
  assumes "Unmarshal d z data = Inr v" "keeps P d" "P z"
  shows "P v"
proof -
  from assms(1) obtain j where p: "parse_json data = Inr j"
      "(case d j z of (Some e, _) \<Rightarrow> Inl e | (None, v) \<Rightarrow> Inr v) = Inr v"
    by (auto simp: Unmarshal_def bind_res_Inr_iff)
  then have j: "parse_json data = Inr j" "d j z = (None, v)"
    by (cases "d j z"; cases "fst (d j z)"; simp)+
  from keepsD [OF assms(2) parse_json_utf8 [OF j(1)] assms(3) j(2)] show ?thesis .
qed

lemma unmarshal_routes_text: "unmarshal_routes data = Inr rs \<Longrightarrow> \<forall>r\<in>set rs. route_text r"
  using Unmarshal_keeps [OF _ keeps_slice [OF keeps_route zero_text(1)], of "([], [])" data]
  by (auto simp: unmarshal_routes_def bind_res_Inr_iff slice_all_def)

lemma unmarshal_forwards_text: "unmarshal_forwards data = Inr fs \<Longrightarrow> \<forall>f\<in>set fs. pf_text f"
  using Unmarshal_keeps [OF _ keeps_slice [OF keeps_pf zero_text(4)], of "([], [])" data]
  by (auto simp: unmarshal_forwards_def bind_res_Inr_iff slice_all_def)

text \<open>Whatever file is read, what its four lists hold can be written and read back.\<close>

definition lists_of :: "legacy_file \<Rightarrow> config_file" where
  "lists_of f = \<lparr>cf_sites = lf_sites f, cf_forwards = lf_forwards f, cf_dnat = lf_dnat f, cf_domains = lf_domains f\<rparr>"

lemma unmarshal_file_text:
  assumes "unmarshal_file data = Inr f"
  shows "config_int64 (lists_of f)" "config_utf8 (lists_of f)"
proof -
  from assms obtain v where v: "Unmarshal dec_file zero_file data = Inr v" "f = file_of v"
    by (auto simp: unmarshal_file_def bind_res_Inr_iff)
  have "file_var_text zero_file" by (simp add: file_var_text_def zero_file_def slice_all_def)
  from Unmarshal_keeps [OF v(1) keeps_file this] have t: "file_var_text v" .
  then show "config_int64 (lists_of f)" "config_utf8 (lists_of f)"
    by (auto simp: v(2) file_of_def lists_of_def file_var_text_def slice_all_def config_int64_def config_utf8_def
        site_of_def domain_of_def site_var_text_def domain_var_text_def route_text_def forward_text_def dnat_text_def pf_text_def)
qed

end
