(* ===== verification/Load.thy ===== *)
theory Load
  imports StoreRouting ConfigValues
begin

text \<open>
  Start-up of the store: \<open>NewStore\<close>, \<open>parseConfig\<close> and \<open>migrateRoutes\<close> of \<open>config.go\<close>, from the
  bytes of the file on; an absent list decodes to the empty one, as the code's nil checks make
  it.
\<close>

text \<open>What \<open>os.ReadFile\<close> answers.\<close>

datatype file_read =
    FileMissing
  | FileUnreadable string
  | FileData string

definition migrateRoutes :: "route list \<Rightarrow> string \<Rightarrow> http_site list" where
  "migrateRoutes routes host =
     (if routes = [] \<or> host = [] then []
      else [\<lparr>hs_host = host, hs_desc = [], hs_routes = routes\<rparr>])"

definition migrate_vhost :: "vhost \<Rightarrow> domain" where
  "migrate_vhost v =
     (let (host, https) =
        (case url_parse (vh_target v) of
           Inl _ \<Rightarrow> (vh_target v, False)
         | Inr u \<Rightarrow> if u_host u \<noteq> [] then (u_host u, u_scheme u = ''https'') else (vh_target v, False))
      in \<lparr>dm_host = vh_host v, dm_desc = vh_desc v,
          dm_forwards = [\<lparr>pf_port = 443, pf_target = host, pf_manage = True, pf_backend_tls = https,
             pf_skip = vh_skip v, pf_proxy_proto = False, pf_desc = [], pf_enabled = vh_enabled v\<rparr>]\<rparr>)"

definition migrate_file :: "legacy_file \<Rightarrow> string \<Rightarrow> config_file" where
  "migrate_file f defaultHost =
     \<lparr>cf_sites = (if lf_sites f = [] \<and> lf_routes f \<noteq> [] then migrateRoutes (lf_routes f) defaultHost
                  else lf_sites f),
      cf_forwards = lf_forwards f, cf_dnat = lf_dnat f,
      cf_domains = lf_domains f @ map migrate_vhost (lf_vhosts f)\<rparr>"

definition empty_config :: config_file where
  "empty_config = \<lparr>cf_sites = [], cf_forwards = [], cf_dnat = [], cf_domains = []\<rparr>"

definition parseConfig :: "string \<Rightarrow> string \<Rightarrow> err + config_file" where
  "parseConfig data defaultHost =
     (if has_prefix (trim_space data) ''['' then
        bind_res (wrap_err ConfigUnreadable (unmarshal_routes data)) (\<lambda>routes.
        Inr (empty_config\<lparr>cf_sites := migrateRoutes routes defaultHost\<rparr>))
      else
        bind_res (wrap_err ConfigUnreadable (unmarshal_file data)) (\<lambda>f. Inr (migrate_file f defaultHost)))"

definition blank_store :: store where
  "blank_store = \<lparr>st_sites = [], st_forwards = [], st_dnat = [], st_domains = [], st_csites = [],
     st_cdom = [], st_chans = 0, st_on_forward = False, st_on_dnat = False, st_on_domain = False,
     st_file = None\<rparr>"

definition from_outcome :: "err option \<times> store \<Rightarrow> err + store" where
  "from_outcome r = (case r of (Some e, _) \<Rightarrow> Inl e | (None, s) \<Rightarrow> Inr s)"

definition NewStore :: "string option \<Rightarrow> io_result \<Rightarrow> file_read \<Rightarrow> string \<Rightarrow> err + store" where
  "NewStore mkdirErr io file defaultHost =
     (case mkdirErr of
        Some e \<Rightarrow> Inl (WriteFailed e)
      | None \<Rightarrow>
          bind_res
            (case file of
               FileMissing \<Rightarrow> from_outcome (persistLocked io blank_store)
             | FileUnreadable e \<Rightarrow> Inl (ReadFailed e)
             | FileData data \<Rightarrow>
                 if data = [] then Inr blank_store
                 else bind_res (parseConfig data defaultHost) (\<lambda>c. Inr (with_config c blank_store)))
            (\<lambda>s. from_outcome (recompileLocked s)))"

lemmas [model_eval] = migrateRoutes_def migrate_vhost_def migrate_file_def empty_config_def
  parseConfig_def blank_store_def from_outcome_def NewStore_def with_config_def

section \<open>What start-up gives\<close>

lemma from_outcome_Inr_iff: "from_outcome r = Inr s \<longleftrightarrow> r = (None, s)"
  by (cases r; cases "fst r") (auto simp: from_outcome_def)

lemma NewStore_synced:
  assumes "NewStore mk io file host = Inr s"
  shows "synced s"
  using assms by (auto simp: NewStore_def res_iffs from_outcome_Inr_iff split: option.splits
      dest: recompileLocked_synced)

lemma NewStore_fresh:
  "NewStore None IoOk FileMissing host = Inr (blank_store\<lparr>st_file := Some empty_config\<rparr>)"
  by (simp add: NewStore_def persistLocked_def recompileLocked_def from_outcome_def blank_store_def
      config_of_def empty_config_def)

lemma empty_config_ok: "config_ok empty_config"
  by (simp add: config_ok_def empty_config_def unique_keys_def)

text \<open>The text \<open>persistLocked\<close> writes reads back as the configuration with its strings made
  UTF-8, whichever of its empty slices are nil.\<close>

lemma parse_config_text:
  assumes "config_int64 c"
  shows "parseConfig (config_text nilr nilf c) host = Inr (valid_config c)"
  by (simp add: parseConfig_def config_text_object unmarshal_config_text [OF assms] migrate_file_def)

lemma config_text_ne [simp]: "config_text nilr nilf c \<noteq> []"
  using config_text_ends [of nilr nilf c] by auto

lemma NewStore_text:
  assumes "config_int64 c"
  shows "NewStore None io (FileData (config_text nilr nilf c)) host =
     from_outcome (recompileLocked (with_config (valid_config c) blank_store))"
  by (simp add: NewStore_def parse_config_text [OF assms])

definition text_safe :: "config_file \<Rightarrow> bool" where
  "text_safe c \<longleftrightarrow> config_int64 c \<and> config_utf8 c"

lemma NewStore_text_safe:
  "text_safe c \<Longrightarrow> NewStore None io (FileData (config_text nilr nilf c)) host =
     from_outcome (recompileLocked (with_config c blank_store))"
  by (simp add: text_safe_def NewStore_text valid_config_id)

text \<open>Compiling again from other channel numbers gives the same routes, proxies and
  limits.\<close>

definition erase_id :: "compiled_route \<Rightarrow> compiled_route" where
  "erase_id c = c\<lparr>cr_limiter := map_option (\<lambda>l. l\<lparr>lim_id := 0\<rparr>) (cr_limiter c)\<rparr>"

lemma erase_id_route [simp]: "cr_route (erase_id c) = cr_route c"
  by (simp add: erase_id_def)

lemma erase_new:
  "erase_id \<lparr>cr_route = r, cr_proxy = p, cr_limiter = lim\<rparr> =
   \<lparr>cr_route = r, cr_proxy = p, cr_limiter = map_option (\<lambda>l. \<lparr>lim_id = 0, lim_cap = lim_cap l\<rparr>) lim\<rparr>"
  by (cases lim) (simp_all add: erase_id_def)

lemma compile_routes_erase:
  "compile_routes n host rs = Inr (n', crs) \<Longrightarrow>
     \<exists>m' drs. compile_routes m host rs = Inr (m', drs) \<and> map erase_id drs = map erase_id crs"
proof (induction rs arbitrary: n m n' crs)
  case (Cons r rs)
  show ?case
  proof (cases "rt_enabled r")
    case False
    with Cons show ?thesis by simp
  next
    case True
    with Cons.prems obtain p k lim crs' where p: "buildProxy r = Inr p"
        and rest: "compile_routes k host rs = Inr (n', crs')"
        and crs: "crs = \<lparr>cr_route = r, cr_proxy = p, cr_limiter = lim\<rparr> # crs'"
        and lim: "lim = (if rt_max r > 0 then Some \<lparr>lim_id = n, lim_cap = rt_max r\<rparr> else None)"
      by (auto simp: res_iffs Let_def split: prod.splits if_splits)
    obtain m' drs where "compile_routes (if rt_max r > 0 then Suc m else m) host rs = Inr (m', drs)"
        "map erase_id drs = map erase_id crs'"
      using Cons.IH [OF rest] by blast
    with True p crs lim show ?thesis by (auto simp: erase_new)
  qed
qed simp

definition erase_table :: "site_table \<Rightarrow> site_table" where
  "erase_table tab = map (\<lambda>(h, crs). (h, map erase_id crs)) tab"

lemma erase_sort_longest: "map erase_id (sort_longest crs) = sort_longest (map erase_id crs)"
proof -
  have ins: "map erase_id (insort_key (\<lambda>c. - int (prefix_len c)) x ys) =
      insort_key (\<lambda>c. - int (prefix_len c)) (erase_id x) (map erase_id ys)" for x ys
    by (induction ys) (simp_all add: prefix_len_def)
  show ?thesis
    unfolding sort_longest_def by (induction crs) (simp_all add: ins)
qed

lemma erase_update: "erase_table (AList.update k v tab) = AList.update k (map erase_id v) (erase_table tab)"
  by (induction tab) (auto simp: erase_table_def)

lemma compile_sites_erase:
  assumes "compile_sites n sts acc = Inr (n', tab)" "erase_table acc' = erase_table acc"
  shows "\<exists>m' tab'. compile_sites m sts acc' = Inr (m', tab') \<and> erase_table tab' = erase_table tab"
  using assms
proof (induction sts arbitrary: n m acc acc')
  case (Cons st sts)
  from Cons.prems(1) obtain k crs where r: "compile_routes n (hs_host st) (hs_routes st) = Inr (k, crs)"
      and rest: "compile_sites k sts (AList.update (to_lower (hs_host st)) (sort_longest crs) acc) = Inr (n', tab)"
    by (auto simp: res_iffs)
  from compile_routes_erase [OF r] obtain m' drs
    where d: "compile_routes m (hs_host st) (hs_routes st) = Inr (m', drs)" "map erase_id drs = map erase_id crs"
    by blast
  have "erase_table (AList.update (to_lower (hs_host st)) (sort_longest drs) acc') =
      erase_table (AList.update (to_lower (hs_host st)) (sort_longest crs) acc)"
    using Cons.prems(2) d(2) by (simp add: erase_update erase_sort_longest)
  from Cons.IH [OF rest this, of m'] d(1) show ?case by simp
qed simp

lemma map_of_erase: "map_of (erase_table tab) h = map_option (map erase_id) (map_of tab h)"
  by (induction tab) (auto simp: erase_table_def)

lemma find_erase: "find (route_matches path) (map erase_id crs) = map_option erase_id (find (route_matches path) crs)"
  by (induction crs) (auto simp: route_matches_under)

lemma match_site_erase:
  "erase_table tab' = erase_table tab \<Longrightarrow>
     map_option erase_id (match_site tab' host path) = map_option erase_id (match_site tab host path)"
  using map_of_erase [of tab "to_lower host"] map_of_erase [of tab' "to_lower host"]
  by (auto simp: match_site_def find_erase [symmetric] split: option.splits)

lemma reload_synced:
  assumes "synced s" "text_safe (config_of s)"
  shows "\<exists>s'. NewStore None io (FileData (config_text nilr nilf (config_of s))) host = Inr s' \<and> config_of s' = config_of s
    \<and> erase_table (st_csites s') = erase_table (st_csites s) \<and> st_cdom s' = st_cdom s"
proof -
  from assms(1) obtain n m where c: "compile_sites n (st_sites s) [] = Inr (m, st_csites s)"
      and d: "compile_domains (st_domains s) [] = Inr (st_cdom s)" by (auto simp: synced_def)
  from compile_sites_erase [OF c refl, of 0] obtain m' tab' where
      "compile_sites 0 (st_sites s) [] = Inr (m', tab')" "erase_table tab' = erase_table (st_csites s)" by blast
  with d show ?thesis
    unfolding NewStore_text_safe [OF assms(2)]
    by (simp add: recompileLocked_def with_config_def blank_store_def
        from_outcome_def config_of_def)
qed

text \<open>Conversely a configuration whose tables cannot be built is refused.\<close>

lemma reload_refused:
  assumes "text_safe c" "compile_sites 0 (cf_sites c) [] = Inr (n, tab)" "compile_domains (cf_domains c) [] = Inl e"
  shows "NewStore None io (FileData (config_text nilr nilf c)) host = Inl e"
  using assms(2,3) by (simp add: NewStore_text_safe [OF assms(1)] recompileLocked_def with_config_def blank_store_def
      from_outcome_def)

end
