(* ===== verification/Examples.thy ===== *)
theory Examples
  imports Load
begin

text \<open>
  A concrete run of the store, shared by the witnesses of the properties: a fresh
  start followed by one accepted operation of each kind.
\<close>

definition demo_site :: http_site where
  "demo_site = \<lparr>hs_host = ''app.example.com'', hs_desc = [],
     hs_routes = [\<lparr>rt_prefix = ''api'', rt_target = ''http://10.0.0.5:8080'', rt_strip = True, rt_desc = [],
       rt_enabled = True, rt_max = 2\<rparr>]\<rparr>"

definition demo_domain :: domain where
  "demo_domain = \<lparr>dm_host = ''mail.example.com'', dm_desc = [],
     dm_forwards = [\<lparr>pf_port = 443, pf_target = ''10.0.0.6:8443'', pf_manage = True, pf_backend_tls = False,
         pf_skip = False, pf_proxy_proto = False, pf_desc = [], pf_enabled = True\<rparr>,
       \<lparr>pf_port = 993, pf_target = ''10.0.0.6:993'', pf_manage = False, pf_backend_tls = False,
         pf_skip = False, pf_proxy_proto = True, pf_desc = [], pf_enabled = True\<rparr>]\<rparr>"

definition demo_forward :: forward where
  "demo_forward = \<lparr>fw_name = ''ssh'', fw_proto = ''tcp'', fw_listen = '':2222'', fw_target = ''10.0.0.7:22'',
     fw_proxy_proto = False, fw_desc = [], fw_enabled = True\<rparr>"

definition demo_rule :: dnat_rule where
  "demo_rule = \<lparr>dn_name = ''dns'', dn_proto = ''udp'', dn_port = 53, dn_target = ''10.0.0.8:53'',
     dn_snat = True, dn_desc = [], dn_enabled = True\<rparr>"

definition demo_start :: store where
  "demo_start = blank_store\<lparr>st_file := Some empty_config\<rparr>"

lemma demo_start: "NewStore None IoOk FileMissing [] = Inr demo_start"
  by (simp add: demo_start_def NewStore_fresh)

lemma demo_site_valid: "validateSite demo_site = Inr demo_site"
  by (simp add: demo_site_def model_eval go_eval Let_def)

lemma demo_domain_valid: "validateDomain demo_domain = Inr demo_domain"
  by (simp add: demo_domain_def model_eval go_eval Let_def)

lemma demo_forward_valid: "validateForward demo_forward = Inr demo_forward"
  by (simp add: demo_forward_def model_eval go_eval Let_def)

lemma demo_rule_valid: "validateDNAT demo_rule = Inr demo_rule"
  by (simp add: demo_rule_def model_eval go_eval Let_def)

text \<open>The store as \<open>main\<close> sets it up, with its three listeners registered.\<close>

definition demo_ready :: store where
  "demo_ready = SetDomainListener (SetDNATListener (SetForwardListener demo_start))"

definition demo_csites :: site_table where
  "demo_csites = [(''app.example.com'',
     [\<lparr>cr_route = hd (hs_routes demo_site),
        cr_proxy = \<lparr>rp_target = \<lparr>u_scheme = ''http'', u_opaque = [], u_host = ''10.0.0.5:8080'', u_path = []\<rparr>,
          rp_prefix = ''/api'', rp_strip = True, rp_transport = \<lparr>tr_max_conns = 2, tr_max_idle = 2\<rparr>\<rparr>,
        cr_limiter = Some \<lparr>lim_id = 0, lim_cap = 2\<rparr>\<rparr>])]"

definition demo_cdom :: domain_table where
  "demo_cdom =
     [(443, [(''mail.example.com'', \<lparr>cp_host = ''mail.example.com'', cp_fwd = dm_forwards demo_domain ! 0,
         cp_proxy = Some \<lparr>tp_target = \<lparr>u_scheme = ''http'', u_opaque = [], u_host = ''10.0.0.6:8443'', u_path = []\<rparr>,
           tp_max_idle = 100, tp_tls = None\<rparr>\<rparr>)]),
      (993, [(''mail.example.com'', \<lparr>cp_host = ''mail.example.com'', cp_fwd = dm_forwards demo_domain ! 1,
         cp_proxy = None\<rparr>)])]"

definition demo_config :: config_file where
  "demo_config = \<lparr>cf_sites = [demo_site], cf_forwards = [demo_forward], cf_dnat = [demo_rule],
     cf_domains = [demo_domain]\<rparr>"

definition demo_file :: "config_file \<Rightarrow> file_read" where
  "demo_file c = FileData (config_text (\<lambda>_. False) (\<lambda>_. False) c)"

lemma demo_text_safe:
  "text_safe demo_config" "text_safe (demo_config\<lparr>cf_forwards := [], cf_dnat := [], cf_domains := []\<rparr>)"
  by (simp_all add: text_safe_def config_int64_def config_utf8_def int64_def ascii_valid demo_config_def
      demo_site_def demo_domain_def demo_forward_def demo_rule_def)

definition demo_s1 :: store where
  "demo_s1 = demo_ready\<lparr>st_sites := [demo_site], st_csites := demo_csites, st_chans := 1,
     st_file := Some (demo_config\<lparr>cf_forwards := [], cf_dnat := [], cf_domains := []\<rparr>)\<rparr>"

definition demo_s2 :: store where
  "demo_s2 = demo_s1\<lparr>st_domains := [demo_domain], st_cdom := demo_cdom, st_chans := 2,
     st_csites := map (\<lambda>(h, rs). (h, map (\<lambda>c. c\<lparr>cr_limiter := Some \<lparr>lim_id = 1, lim_cap = 2\<rparr>\<rparr>) rs)) demo_csites,
     st_file := Some (demo_config\<lparr>cf_forwards := [], cf_dnat := []\<rparr>)\<rparr>"

definition demo_s3 :: store where
  "demo_s3 = demo_s2\<lparr>st_forwards := [demo_forward], st_file := Some (demo_config\<lparr>cf_dnat := []\<rparr>)\<rparr>"

definition demo_store :: store where
  "demo_store = demo_s3\<lparr>st_dnat := [demo_rule], st_file := Some demo_config\<rparr>"

lemmas demo_entries = demo_site_def demo_domain_def demo_forward_def demo_rule_def
lemmas demo_states = demo_start_def demo_ready_def demo_s1_def demo_s2_def demo_s3_def demo_store_def
  demo_config_def SetForwardListener_def SetDNATListener_def SetDomainListener_def
lemmas demo_tables = demo_csites_def demo_cdom_def

lemma demo_step1: "run_op IoOk (OpUpsertSite [] demo_site) demo_ready = (None, demo_s1, [])"
  by (simp add: op_defs demo_site_valid)
    (simp add: demo_states demo_tables demo_entries model_eval go_eval Let_def)

lemma demo_step2: "run_op IoOk (OpUpsertDomain [] demo_domain) demo_s1 = (None, demo_s2, [NotifyDomain])"
  by (simp add: op_defs demo_domain_valid)
    (simp add: demo_states demo_tables demo_entries model_eval go_eval Let_def)

lemma demo_step3:
  "run_op IoOk (OpUpsertForward [] demo_forward) demo_s2 = (None, demo_s3, [NotifyForwards [demo_forward]])"
  by (simp add: op_defs demo_forward_valid) (simp add: demo_states model_eval Let_def)

lemma demo_step4:
  "run_op IoOk (OpUpsertDNAT [] demo_rule) demo_s3 = (None, demo_store, [NotifyDNAT [demo_rule]])"
  by (simp add: op_defs demo_rule_valid) (simp add: demo_states model_eval Let_def)

lemma demo_reach: "store_reach demo_ready demo_store"
  by (rule reach_step [OF reach_step [OF reach_step [OF reach_step [OF reach_start demo_step1]
        demo_step2] demo_step3] demo_step4])

lemma demo_ready_ok: "config_ok (config_of demo_ready)" "synced demo_ready"
  by (simp_all add: demo_states blank_store_def config_of_def empty_config_ok [unfolded empty_config_def]
      synced_def)

lemma demo_ok: "config_ok (config_of demo_store)"
  by (rule reach_config_ok [OF demo_reach demo_ready_ok(1)])

lemma demo_synced: "synced demo_store"
  by (rule run_op_synced [OF run_op_synced [OF run_op_synced [OF run_op_synced [OF demo_ready_ok(2)
        demo_step1] demo_step2] demo_step3] demo_step4]) simp_all

lemma demo_fields [simp]:
  "st_sites demo_store = [demo_site]" "st_domains demo_store = [demo_domain]"
  "st_forwards demo_store = [demo_forward]" "st_dnat demo_store = [demo_rule]"
  "st_file demo_store = Some demo_config" "st_cdom demo_store = demo_cdom"
  "st_on_forward demo_store" "st_on_dnat demo_store" "st_on_domain demo_store"
  by (simp_all add: demo_states)

lemma demo_match:
  "MatchSite demo_store ''App.Example.com'' ''/api/v1'' = Some ((snd (hd demo_csites) ! 0)
     \<lparr>cr_limiter := Some \<lparr>lim_id = 1, lim_cap = 2\<rparr>\<rparr>)"
  by (simp add: demo_states demo_tables demo_entries model_eval go_eval Let_def)

end
