(* ===== verification/StoreProps.thy ===== *)
theory StoreProps
  imports Examples
begin

text \<open>
  The properties of the configuration store: the invariant every operation keeps,
  the lookups against the configuration, the operations as updates of finite maps,
  what an error leaves behind, durability and the restart, and the places where
  the store does less than it promises. Each rests on the lemmas of \<open>StoreInv\<close>,
  \<open>StoreRouting\<close> and \<open>Load\<close>; the witnesses use the run of \<open>Examples\<close>.
\<close>

section \<open>The invariant\<close>

text \<open>C6: whatever sequence of the eight operations runs, accepted or refused, with
  whatever answers of the file system, a well-formed configuration stays well-formed:
  every entry is as its validation leaves it, hosts (up to case), names, listeners and
  public ports are unique.\<close>

theorem store_invariant:
  assumes "config_ok (config_of s0)" "store_reach s0 s"
  shows "config_ok (config_of s)"
  by (rule reach_config_ok [OF assms(2,1)])

theorem store_invariant_witness: "config_ok (config_of demo_store) \<and> st_domains demo_store \<noteq> []"
  using store_invariant [OF demo_ready_ok(1) demo_reach] by simp

section \<open>Entries\<close>

text \<open>C31: an accepted entry has the type the rest of the program relies on: hosts in lower case
  and of host shape, names and prefixes of the name shape, targets that parse, addresses in
  canonical form with a port from 1 to 65535, keys without repetition. Validating it again gives
  the entry itself, for a site always and for the others when no address in it begins or ends with
  a space (one pass leaves the spaces inside the brackets of \<open>[ x]:80\<close>, a second takes them off).\<close>

theorem validation_normalises:
  "(validateSite s = Inr s' \<longrightarrow> site_wf s' \<and> validateSite s' = Inr s')
   \<and> (validateDomain d = Inr d' \<longrightarrow> domain_wf d'
        \<and> ((\<forall>f\<in>set (dm_forwards d'). trimmed (pf_target f)) \<longrightarrow> validateDomain d' = Inr d'))
   \<and> (validateForward f = Inr f' \<longrightarrow> forward_wf f'
        \<and> (trimmed (fw_listen f') \<and> trimmed (fw_target f') \<longrightarrow> validateForward f' = Inr f'))
   \<and> (validateDNAT n = Inr n' \<longrightarrow> dnat_wf n' \<and> (trimmed (dn_target n') \<longrightarrow> validateDNAT n' = Inr n'))"
  using validateSite_wf site_wf_validate validateDomain_wf domain_wf_validate validateForward_wf forward_wf_validate
    validateDNAT_wf dnat_wf_validate by blast

theorem validation_normalises_witness: "site_wf demo_site \<and> domain_wf demo_domain \<and> forward_wf demo_forward \<and> dnat_wf demo_rule"
  using validation_normalises [of demo_site demo_site demo_domain demo_domain demo_forward demo_forward demo_rule demo_rule]
    demo_site_valid demo_domain_valid demo_forward_valid demo_rule_valid by blast

text \<open>The two regular expressions decide what they are meant to: the first a name of
  letters, digits, underscores and hyphens that starts with a letter or digit, the second a host
  name of at least two labels of letters, digits and hyphens, none empty and none with a hyphen at
  either end.\<close>

theorem patterns_decide:
  "(re_match prefixPattern t \<longleftrightarrow>
      t \<noteq> [] \<and> is_alnum (hd t) \<and> (\<forall>c\<in>set t. is_alnum c \<or> c = CHR ''_'' \<or> c = CHR ''-''))
   \<and> (re_match hostPattern t \<longleftrightarrow> 2 \<le> length (split_byte (CHR ''.'') t) \<and> (\<forall>l\<in>set (split_byte (CHR ''.'') t).
        l \<noteq> [] \<and> is_alnum (hd l) \<and> is_alnum (last l) \<and> (\<forall>c\<in>set l. is_alnum c \<or> c = CHR ''-'')))"
  by (simp add: prefixPattern_iff hostPattern_iff name_ok_def name_byte_def host_ok_def label_ok_def label_byte_def)

theorem patterns_decide_witness:
  "re_match prefixPattern ''web-1'' \<and> \<not> re_match prefixPattern ''_admin'' \<and> re_match hostPattern ''a-b.example''
   \<and> \<not> re_match hostPattern ''localhost'' \<and> \<not> re_match hostPattern ''a-.example''"
  using patterns_decide [of "''web-1''"] patterns_decide [of "''_admin''"] patterns_decide [of "''a-b.example''"]
    patterns_decide [of "''localhost''"] patterns_decide [of "''a-.example''"] by (simp add: byte_class_defs)

section \<open>Routing\<close>

text \<open>C4: on a synchronised store with a well-formed configuration, \<open>MatchSite\<close>
  returns the compiled form of a route exactly when the route is enabled, belongs to the
  site of the host (compared without case), and the path is its prefix or lies below it.\<close>

theorem MatchSite_correct:
  assumes "config_ok (config_of s)" "synced s"
  shows "(\<exists>c. MatchSite s host path = Some c \<and> cr_route c = r) \<longleftrightarrow>
    (\<exists>st\<in>set (st_sites s). hs_host st = to_lower host \<and> r \<in> set (hs_routes st) \<and> rt_enabled r
      \<and> path_under (rt_prefix r) path)"
  by (rule MatchSite_exact [OF assms])

theorem MatchSite_correct_witness:
  "\<exists>c. MatchSite demo_store ''App.Example.com'' ''/api/v1'' = Some c \<and> cr_route c = hd (hs_routes demo_site)"
  unfolding MatchSite_correct [OF demo_ok demo_synced]
  by (simp add: demo_site_def path_under_def has_prefix_def to_lower_def go_eval)

text \<open>Even on a configuration that was loaded from a file without validation,
  the route found is one of the host's enabled routes that the path lies under, its
  proxy was built from it, and no other such route has a longer prefix.\<close>

theorem MatchSite_longest:
  assumes "synced s" "unique_keys site_key (st_sites s)" "MatchSite s host path = Some c"
  shows "\<exists>st\<in>set (st_sites s). site_key st = to_lower host \<and> cr_route c \<in> set (hs_routes st)
    \<and> rt_enabled (cr_route c) \<and> path_under (rt_prefix (cr_route c)) path
    \<and> buildProxy (cr_route c) = Inr (cr_proxy c)
    \<and> (\<forall>r\<in>set (hs_routes st). rt_enabled r \<and> path_under (rt_prefix r) path \<longrightarrow>
         length (rt_prefix r) \<le> length (rt_prefix (cr_route c)))"
  using MatchSite_Some [OF assms] by metis

theorem MatchSite_longest_witness:
  "\<exists>st\<in>set (st_sites demo_store). site_key st = to_lower ''App.Example.com''"
  using MatchSite_longest [OF demo_synced _ demo_match] by (force simp: unique_keys_def)

text \<open>C21: \<open>MatchDomain\<close> returns a compiled forward exactly when it is the compiled
  form of the enabled forward the host's domain has on that port.\<close>

theorem MatchDomain_correct:
  assumes "config_ok (config_of s)" "synced s"
  shows "MatchDomain s host port = Some cp \<longleftrightarrow>
    (\<exists>d\<in>set (st_domains s). \<exists>f\<in>set (dm_forwards d). dm_host d = to_lower host \<and> pf_port f = port
       \<and> pf_enabled f \<and> compile_pf (dm_host d) f = Inr cp)"
  by (rule MatchDomain_exact [OF assms])

theorem MatchDomain_correct_witness:
  "\<exists>cp. MatchDomain demo_store ''mail.example.com'' 993 = Some cp \<and> pf_proxy_proto (cp_fwd cp)"
  unfolding MatchDomain_correct [OF demo_ok demo_synced]
  by (simp add: demo_domain_def compile_pf_def to_lower_def go_eval)

text \<open>The certificate policy admits a host as a domain (\<open>IsTerminateHost\<close>) exactly
  when the domain has an enabled forward whose certificate is managed here.\<close>

theorem IsTerminateHost_correct:
  assumes "config_ok (config_of s)" "synced s"
  shows "IsTerminateHost s host \<longleftrightarrow>
    (\<exists>d\<in>set (st_domains s). \<exists>f\<in>set (dm_forwards d). dm_host d = to_lower host \<and> pf_enabled f \<and> pf_manage f)"
  by (rule IsTerminateHost_exact [OF assms])

theorem IsTerminateHost_correct_witness: "IsTerminateHost demo_store ''mail.example.com''"
  unfolding IsTerminateHost_correct [OF demo_ok demo_synced]
  by (simp add: demo_domain_def to_lower_def go_eval)

text \<open>\<open>DomainPorts\<close>, which the port router reconciles its listeners with, lists the
  ports of the enabled forwards, each once and in increasing order.\<close>

theorem DomainPorts_correct:
  assumes "synced s"
  shows "(port \<in> set (DomainPorts s) \<longleftrightarrow>
      (\<exists>d\<in>set (st_domains s). \<exists>f\<in>set (dm_forwards d). pf_enabled f \<and> pf_port f = port))
    \<and> sorted (DomainPorts s) \<and> distinct (DomainPorts s)"
  using DomainPorts_exact [OF assms] by auto

theorem DomainPorts_correct_witness: "993 \<in> set (DomainPorts demo_store) \<and> 80 \<notin> set (DomainPorts demo_store)"
  using DomainPorts_correct [OF demo_synced, of 993] DomainPorts_correct [OF demo_synced, of 80]
  by (simp add: demo_domain_def)

section \<open>Operations as map updates\<close>

text \<open>C7: an accepted operation changes the configuration, seen as four finite maps
  (sites and domains by lower-case host, forwards and DNAT rules by name), exactly as its
  specification says: one key is bound to the validated entry or removed, a rename drops the
  old key, and the other maps stay.\<close>

theorem operations_refine_maps:
  assumes "config_ok (config_of s)" "run_op io op s = (None, s', ns)"
  shows "abs_config (config_of s') = abs_op op (abs_config (config_of s))"
  by (rule run_op_refines [OF assms])

theorem operations_refine_maps_witness:
  "ab_domains (abs_config (config_of demo_s2)) ''mail.example.com'' = Some demo_domain"
proof -
  have "config_ok (config_of demo_s1)"
    by (rule reach_config_ok [OF reach_step [OF reach_start demo_step1] demo_ready_ok(1)])
  from operations_refine_maps [OF this demo_step2] show ?thesis
    by (simp add: demo_domain_valid put_entry_def) (simp add: demo_domain_def)
qed

section \<open>Errors\<close>

text \<open>C18: an operation that fails was either refused by its checks (validation, a duplicate, a
  conflict, nothing to change), and then the whole store is as it was, or it failed later, at a
  proxy or at the file, and then its whole change stays in memory. Neither notifies a listener or
  changes the file.\<close>

theorem refused_operation_harmless:
  assumes "run_op io op s = (Some e, s', ns)"
  shows "(op_config op (config_of s) = Inl e \<and> s' = s
       \<or> op_config op (config_of s) = Inr (config_of s') \<and> write_error e)
    \<and> (\<not> write_error e \<longrightarrow> s' = s) \<and> ns = [] \<and> st_file s' = st_file s"
proof -
  from run_op_config [OF assms] have "st_file s' = st_file s"
    using op_write_file_error by (fastforce simp: with_config_def)
  moreover have "op_config op (config_of s) = Inl e \<and> s' = s
       \<or> op_config op (config_of s) = Inr (config_of s') \<and> write_error e"
    using run_op_config [OF assms] op_write_error by fastforce
  ultimately show ?thesis using run_op_rejected [OF assms] run_op_error_silent [OF assms] by blast
qed

theorem refused_operation_harmless_witness:
  "run_op IoOk (OpUpsertForward [] demo_forward) demo_store = (Some (ForwardExists ''ssh''), demo_store, [])"
proof -
  obtain s' ns where r: "run_op IoOk (OpUpsertForward [] demo_forward) demo_store = (Some (ForwardExists ''ssh''), s', ns)"
    by (simp add: op_defs demo_forward_valid) (simp add: demo_forward_def model_eval)
  with refused_operation_harmless [OF r] show ?thesis by (simp add: write_error_def)
qed

text \<open>C9: an accepted operation has written the configuration it leaves in memory to the file, and
  has called the listener of its component once, if there is one, and no other: that of the forwards
  or of the DNAT rules with the very list that was written, that of the domains without one. An
  operation on a site calls none.\<close>

theorem accepted_operation_durable:
  assumes "run_op io op s = (None, s', ns)"
  shows "st_file s' = Some (config_of s')
    \<and> ns = (case op of
          OpUpsertSite _ _ \<Rightarrow> [] | OpDeleteSite _ \<Rightarrow> []
        | OpUpsertDomain _ _ \<Rightarrow> if st_on_domain s then [NotifyDomain] else []
        | OpDeleteDomain _ \<Rightarrow> if st_on_domain s then [NotifyDomain] else []
        | OpUpsertForward _ _ \<Rightarrow> if st_on_forward s then [NotifyForwards (st_forwards s')] else []
        | OpDeleteForward _ \<Rightarrow> if st_on_forward s then [NotifyForwards (st_forwards s')] else []
        | OpUpsertDNAT _ _ \<Rightarrow> if st_on_dnat s then [NotifyDNAT (st_dnat s')] else []
        | OpDeleteDNAT _ \<Rightarrow> if st_on_dnat s then [NotifyDNAT (st_dnat s')] else [])"
proof -
  from run_op_config [OF assms] have "ns = op_fire op s'" by auto
  with run_op_durable [OF assms] run_op_listeners [OF assms] show ?thesis
    by (cases op) (simp_all add: fireForwards_def fireDNAT_def fireDomain_def)
qed

theorem accepted_operation_durable_witness: "st_file demo_s3 = Some (config_of demo_s3)"
  using accepted_operation_durable [OF demo_step3] by simp

text \<open>The compiled tables keep agreeing with the configuration unless the operation
  reports that a proxy could not be built; a failure to write the file does not break the
  agreement.\<close>

theorem tables_stay_synced:
  assumes "synced s" "run_op io op s = (e, s', ns)" "\<forall>e'. e = Some e' \<longrightarrow> \<not> compile_error e'"
  shows "synced s'"
  by (rule run_op_synced [OF assms])

theorem tables_stay_synced_witness: "synced demo_s1"
  using tables_stay_synced [OF demo_ready_ok(2) demo_step1] by simp

section \<open>Restart\<close>

text \<open>C10: when the tables were in step with the configuration, and the configuration an accepted
  operation leaves is text that JSON carries unchanged (valid UTF-8, integers of 64 bits), a restart
  from the text of the file it wrote comes up with the same configuration and answers every lookup
  alike: the same route with an equal proxy (only the limiter is a new channel), the same domain
  forward. Without the first condition the start can fail, without the second texts change.\<close>

theorem restart_restores:
  assumes "synced s" "run_op io op s = (None, s', ns)" "text_safe (config_of s')"
  shows "\<exists>c s2. st_file s' = Some c \<and> NewStore None io2 (FileData (config_text nilr nilf c)) host = Inr s2
    \<and> config_of s2 = config_of s'
    \<and> (\<forall>h path. map_option erase_id (MatchSite s2 h path) = map_option erase_id (MatchSite s' h path))
    \<and> (\<forall>h port. MatchDomain s2 h port = MatchDomain s' h port)"
proof -
  have "synced s'" by (rule run_op_synced [OF assms(1,2)]) simp
  from reload_synced [OF this assms(3)] obtain s2 where s2: "NewStore None io2 (FileData (config_text nilr nilf (config_of s'))) host = Inr s2"
      "config_of s2 = config_of s'" "erase_table (st_csites s2) = erase_table (st_csites s')" "st_cdom s2 = st_cdom s'"
    by blast
  have "\<forall>h path. map_option erase_id (MatchSite s2 h path) = map_option erase_id (MatchSite s' h path)"
    unfolding MatchSite_def using match_site_erase [OF s2(3)] by blast
  moreover have "\<forall>h port. MatchDomain s2 h port = MatchDomain s' h port"
    unfolding MatchDomain_def using s2(4) by simp
  ultimately show ?thesis using s2(1,2) run_op_durable [OF assms(2)] by blast
qed

theorem restart_restores_witness:
  "\<exists>s2. NewStore None IoOk (demo_file (config_of demo_s1)) [] = Inr s2 \<and> config_of s2 = config_of demo_s1"
proof -
  have safe: "text_safe (config_of demo_s1)"
    using demo_text_safe(2) by (simp add: demo_s1_def demo_ready_def demo_start_def demo_config_def config_of_def blank_store_def
        SetForwardListener_def SetDNATListener_def SetDomainListener_def)
  have "st_file demo_s1 = Some (config_of demo_s1)" by (rule run_op_durable [OF demo_step1])
  with restart_restores [OF demo_ready_ok(2) demo_step1 safe, of IoOk "\<lambda>_. False" "\<lambda>_. False" "[]"]
  show ?thesis by (auto simp: demo_file_def)
qed

text \<open>C12: the text the store writes reads back as its configuration, but for bytes that are
  not UTF-8, which become U+FFFD; in particular what was itself read from a file comes back
  unchanged, for ever.\<close>

theorem file_roundtrip:
  assumes "config_int64 c \<or> unmarshal_file data = Inr f \<and> c = lists_of f"
  shows "parseConfig (config_text nilr nilf c) host = Inr (valid_config c)
    \<and> (valid_config c = c \<longleftrightarrow> config_utf8 c)
    \<and> (unmarshal_file data = Inr f \<and> c = lists_of f \<longrightarrow> valid_config c = c)"
  using assms unmarshal_file_text [of data f] by (auto simp: parse_config_text valid_config_id_iff)

theorem file_roundtrip_witness:
  "parseConfig (config_text (\<lambda>_. False) (\<lambda>_. True) demo_config) ''example.com'' = Inr demo_config"
  using file_roundtrip [of demo_config "[]" "file_of zero_file" "\<lambda>_. False" "\<lambda>_. True" "''example.com''"] demo_text_safe(1)
  by (simp add: text_safe_def)

section \<open>Where the store does less than it promises\<close>

text \<open>C38: a domain that validates but whose proxy cannot be built is refused with an
  error and yet stays in the configuration in memory, while the tables and the file are the old
  ones. From then on an accepted change of a forward writes it out, and the server no longer
  starts from that file.\<close>

theorem poisoned_domain:
  assumes "synced s" "validateDomain d0 = Inr d" "edit_domains old d (st_domains s) = Inr xs"
    and "compile_domains xs [] = Inl e"
  shows "\<exists>s'. UpsertDomain io old d0 s = (Some e, s', []) \<and> st_domains s' = xs
    \<and> st_cdom s' = st_cdom s \<and> st_file s' = st_file s
    \<and> (\<forall>oldName f s2 ns. UpsertForward IoOk oldName f s' = (None, s2, ns) \<longrightarrow>
         (\<exists>c. st_file s2 = Some c \<and> (text_safe c \<longrightarrow> NewStore None IoOk (FileData (config_text nilr nilf c)) host = Inl e)))"
proof -
  from assms(1) obtain n m where "compile_sites n (st_sites s) [] = Inr (m, st_csites s)"
    by (auto simp: synced_def)
  from compile_sites_erase [OF this refl] have sites: "\<exists>m' tab. compile_sites k (st_sites s) [] = Inr (m', tab)" for k
    by blast
  then obtain m' tab where tab: "compile_sites (st_chans s) (st_sites s) [] = Inr (m', tab)" by blast
  obtain m0 tab0 where tab0: "compile_sites 0 (st_sites s) [] = Inr (m0, tab0)" using sites by blast
  let ?s = "s\<lparr>st_domains := xs, st_csites := tab, st_chans := m'\<rparr>"
  have "UpsertDomain io old d0 s = (Some e, ?s, [])"
    using assms(2-4) tab by (simp add: UpsertDomain_def commitLocked_def recompileLocked_def finish_def)
  moreover have "\<exists>c. st_file s2 = Some c \<and> (text_safe c \<longrightarrow> NewStore None IoOk (FileData (config_text nilr nilf c)) host = Inl e)"
    if "UpsertForward IoOk oldName f ?s = (None, s2, ns)" for oldName f s2 ns
  proof -
    from that have "st_file s2 = Some (config_of s2)" "cf_sites (config_of s2) = st_sites s" "cf_domains (config_of s2) = xs"
      by (auto simp: UpsertForward_def persistLocked_def finish_def config_of_def split: sum.splits)
    with reload_refused [of "config_of s2"] tab0 assms(4) show ?thesis by auto
  qed
  ultimately show ?thesis by (intro exI [of _ ?s]) auto
qed

definition demo_poison :: domain where
  "demo_poison = \<lparr>dm_host = ''bad.example.com'', dm_desc = [],
     dm_forwards = [\<lparr>pf_port = 443, pf_target = ''a b:80'', pf_manage = True, pf_backend_tls = False,
         pf_skip = False, pf_proxy_proto = False, pf_desc = [], pf_enabled = True\<rparr>]\<rparr>"

theorem poisoned_domain_witness:
  "\<exists>e s'. UpsertDomain IoOk [] demo_poison demo_store = (Some e, s', []) \<and> demo_poison \<in> set (st_domains s')"
proof -
  have v: "validateDomain demo_poison = Inr demo_poison"
    by (simp add: demo_poison_def model_eval go_eval Let_def)
  have ed: "edit_domains [] demo_poison (st_domains demo_store) = Inr [demo_domain, demo_poison]"
    by (simp add: demo_poison_def demo_domain_def model_eval go_eval Let_def)
  have "\<exists>e. compile_domains [demo_domain, demo_poison] [] = Inl e"
    by (simp add: demo_poison_def demo_domain_def model_eval go_eval Let_def)
  then obtain e where "compile_domains [demo_domain, demo_poison] [] = Inl e" ..
  from poisoned_domain [OF demo_synced v ed this, of IoOk "\<lambda>_. False" "\<lambda>_. False" "[]"] show ?thesis by auto
qed

text \<open>Renaming a forward while it keeps its listener is refused as a conflict of the
  forward with itself: the scan for a listener in use skips only entries of the new name.\<close>

theorem rename_forward_conflicts_with_itself:
  assumes "validateForward f0 = Inr f" "e \<in> set (st_forwards s)" "fw_name e = old" "fw_name f \<noteq> old"
    and "forward_slot e = forward_slot f"
  shows "\<exists>n. UpsertForward io old f0 s = (Some (ListenInUse (fw_proto f) (fw_listen f) n), s, [])"
proof -
  have "\<exists>a. find (\<lambda>e. fw_name e \<noteq> fw_name f \<and> fw_proto e = fw_proto f \<and> fw_listen e = fw_listen f) (st_forwards s) = Some a"
    using assms(2-5) by (auto simp: find_None_all forward_slot_def simp flip: not_None_eq)
  with assms(1) show ?thesis by (auto simp: UpsertForward_def edit_forwards_def)
qed

theorem rename_forward_conflicts_with_itself_witness:
  "\<exists>n. UpsertForward IoOk ''ssh'' (demo_forward\<lparr>fw_name := ''shell''\<rparr>) demo_store =
     (Some (ListenInUse ''tcp'' '':2222'' n), demo_store, [])"
proof -
  have "validateForward (demo_forward\<lparr>fw_name := ''shell''\<rparr>) = Inr (demo_forward\<lparr>fw_name := ''shell''\<rparr>)"
    by (simp add: demo_forward_def model_eval go_eval Let_def)
  from rename_forward_conflicts_with_itself [OF this, of demo_forward demo_store "''ssh''"]
  show ?thesis by (simp add: demo_forward_def forward_slot_def)
qed

text \<open>The listener comparison is textual, and \<open>normalizeListen\<close> keeps leading zeros of
  a port: two forwards on the same TCP port are both accepted.\<close>

theorem same_port_twice_accepted:
  "\<exists>s' f. run_op IoOk (OpUpsertForward [] (demo_forward\<lparr>fw_name := ''two'', fw_listen := '':02222''\<rparr>)) demo_store =
       (None, s', [NotifyForwards (st_forwards s')])
     \<and> st_forwards s' = [demo_forward, f] \<and> fw_listen demo_forward = '':2222'' \<and> fw_listen f = '':02222''
     \<and> parse_int ''02222'' = parse_int ''2222''"
proof -
  have v: "validateForward (demo_forward\<lparr>fw_name := ''two'', fw_listen := '':02222''\<rparr>)
      = Inr (demo_forward\<lparr>fw_name := ''two'', fw_listen := '':02222''\<rparr>)"
    by (simp add: demo_forward_def model_eval go_eval Let_def)
  have "parse_int ''02222'' = parse_int ''2222''" by (simp add: go_eval)
  then show ?thesis
    by (simp add: op_defs v) (simp add: demo_forward_def demo_states model_eval Let_def)
qed

text \<open>A legacy file (a bare list of routes, or an object with a flat list of routes and
  no sites) loses all its routes when the main host is not configured, without an error.\<close>

theorem legacy_routes_dropped:
  assumes "unmarshal_routes data = Inr routes \<and> has_prefix (trim_space data) ''[''
    \<or> unmarshal_file data = Inr f \<and> \<not> has_prefix (trim_space data) ''['' \<and> lf_sites f = []"
  shows "\<exists>c. parseConfig data [] = Inr c \<and> cf_sites c = []
    \<and> (\<not> has_prefix (trim_space data) ''['' \<longrightarrow> c = empty_config\<lparr>cf_forwards := lf_forwards f, cf_dnat := lf_dnat f,
         cf_domains := lf_domains f @ map migrate_vhost (lf_vhosts f)\<rparr>)"
  using assms by (auto simp: parseConfig_def migrateRoutes_def migrate_file_def empty_config_def)

text \<open>Such a file, as a person might write it: the key is matched without case.\<close>

definition legacy_text :: string where
  "legacy_text = ''[ {'' @ [quote_char] @ ''Prefix'' @ [quote_char] @ '': '' @ [quote_char] @ ''api'' @ [quote_char] @ ''} ]''"

lemma legacy_text: "unmarshal_routes legacy_text = Inr [zero_route\<lparr>rt_prefix := ''api''\<rparr>]"
  by (simp add: legacy_text_def unmarshal_routes_def Unmarshal_def parse_json_def scan_eof_def
      begin_value_def end_value_def in_string_def is_space_def is_digit_def push_frame_def max_depth_def
      unquote.simps(2) rune_tail_def dec_slice_def dec_route_def dec_eval lower_char_Char is_upper_ascii_def zero_route_def)

theorem legacy_routes_dropped_witness:
  "\<exists>r c. unmarshal_routes legacy_text = Inr [r] \<and> parseConfig legacy_text [] = Inr c \<and> cf_sites c = []"
proof -
  have "has_prefix (trim_space legacy_text) ''[''"
    by (simp add: legacy_text_def trim_space_ends plain_byte_def has_prefix_def)
  with legacy_routes_dropped [of legacy_text "[zero_route\<lparr>rt_prefix := ''api''\<rparr>]" "file_of zero_file"] legacy_text
  show ?thesis by auto
qed

text \<open>A legacy virtual host whose target is an http or https URL of a plain host and
  port becomes a domain with one managed forward on port 443, and the proxy built for it sends
  requests to the very URL the legacy target named.\<close>

theorem legacy_vhost_same_backend:
  assumes "vh_target v = sch @ ''://'' @ t" "sch = ''http'' \<or> sch = ''https''" "plain_target t" "t \<noteq> []"
  shows "\<exists>f p. dm_forwards (migrate_vhost v) = [f] \<and> pf_port f = 443 \<and> pf_manage f \<and> pf_target f = t
    \<and> (pf_enabled f \<longleftrightarrow> vh_enabled v) \<and> buildTerminateProxy (vh_host v) f = Inr p
    \<and> url_parse (vh_target v) = Inr (tp_target p)"
  using assms(2)
proof (elim disjE)
  assume sch: "sch = ''http''"
  with assms plain_target_parse [OF assms(3)] show ?thesis
    by (simp add: migrate_vhost_def buildTerminateProxy_def)
next
  assume sch: "sch = ''https''"
  with assms plain_target_parse [OF assms(3)] show ?thesis
    by (simp add: migrate_vhost_def buildTerminateProxy_def)
qed

definition demo_vhost :: vhost where
  "demo_vhost = \<lparr>vh_host = ''old.example.com'', vh_target = ''https'' @ ''://'' @ ''10.0.0.9:443'', vh_skip = True,
     vh_desc = [], vh_enabled = True\<rparr>"

theorem legacy_vhost_same_backend_witness:
  "\<exists>f. dm_forwards (migrate_vhost demo_vhost) = [f] \<and> pf_target f = ''10.0.0.9:443''"
proof -
  have "plain_target ''10.0.0.9:443''" by (simp add: plain_target_def go_eval url_host_byte_def)
  with legacy_vhost_same_backend [of demo_vhost "''https''" "''10.0.0.9:443''"] show ?thesis
    by (auto simp: demo_vhost_def)
qed

end
