(* ===== verification/Reconcile.thy ===== *)
theory Reconcile
  imports Prelude "HOL-Library.Multiset"
begin

text \<open>
  The reconciliation that \<open>Forwarder.Apply\<close> and \<open>DomainRouter.Apply\<close> share: stop the
  running listeners that are not wanted any more (a Go map range, in whatever order the
  map is listed), then start, in the order given, what is wanted and not running. The
  locale \<open>reconciler\<close> states what starting and stopping one listener must do to the
  sockets of the process, and derives that reconciling leaks no socket and leaves exactly
  the wanted listeners, less those the system refused. Both components interpret it.
\<close>

datatype 'e outcome = Disabled | Running | Failed 'e

section \<open>The two loops\<close>

fun stop_loop :: "('k \<Rightarrow> 'l \<Rightarrow> bool) \<Rightarrow> ('l \<Rightarrow> 'n \<Rightarrow> 'n) \<Rightarrow> ('k \<times> 'l) list \<Rightarrow> 'n \<Rightarrow> ('k \<times> 'l) list \<times> 'n" where
  "stop_loop keep stop [] n = ([], n)"
| "stop_loop keep stop ((k, l) # xs) n =
     (if keep k l then (let (ys, n') = stop_loop keep stop xs n in ((k, l) # ys, n'))
      else stop_loop keep stop xs (stop l n))"

definition start_one ::
  "('w \<Rightarrow> 'k) \<Rightarrow> ('w \<Rightarrow> bool) \<Rightarrow> ('w \<Rightarrow> 'n \<Rightarrow> ('e + 'l) \<times> 'n) \<Rightarrow> 'w \<Rightarrow> ('k \<times> 'l) list \<Rightarrow> 'n
     \<Rightarrow> ('k \<times> 'l) list \<times> 'e outcome \<times> 'n" where
  "start_one key enabled start w act n =
     (if \<not> enabled w then (act, Disabled, n)
      else if map_of act (key w) \<noteq> None then (act, Running, n)
      else (case start w n of
          (Inl e, n1) \<Rightarrow> (act, Failed e, n1)
        | (Inr l, n1) \<Rightarrow> (act @ [(key w, l)], Running, n1)))"

fun start_loop ::
  "('w \<Rightarrow> 'k) \<Rightarrow> ('w \<Rightarrow> bool) \<Rightarrow> ('w \<Rightarrow> 'n \<Rightarrow> ('e + 'l) \<times> 'n) \<Rightarrow> 'w list \<Rightarrow> ('k \<times> 'l) list \<Rightarrow> 'n
     \<Rightarrow> ('k \<times> 'l) list \<times> ('k \<times> 'e outcome) list \<times> 'n" where
  "start_loop key enabled start [] act n = (act, [], n)"
| "start_loop key enabled start (w # ws) act n =
     (let (act1, o1, n1) = start_one key enabled start w act n;
          (act', out, n') = start_loop key enabled start ws act1 n1
      in (act', (key w, o1) # out, n'))"

text \<open>The map of wanted entries: a later entry of the same key wins.\<close>

definition wanted :: "('w \<Rightarrow> 'k) \<Rightarrow> 'w list \<Rightarrow> ('k \<rightharpoonup> 'w)" where
  "wanted key ws = map_of (rev (map (\<lambda>w. (key w, w)) ws))"

definition still_wanted ::
  "('w \<Rightarrow> 'k) \<Rightarrow> ('w \<Rightarrow> bool) \<Rightarrow> ('w \<Rightarrow> 'l \<Rightarrow> bool) \<Rightarrow> 'w list \<Rightarrow> 'k \<Rightarrow> 'l \<Rightarrow> bool" where
  "still_wanted key enabled fits ws k l \<longleftrightarrow>
     (case wanted key ws k of None \<Rightarrow> False | Some w \<Rightarrow> enabled w \<and> fits w l)"

definition reconcile ::
  "('w \<Rightarrow> 'k) \<Rightarrow> ('w \<Rightarrow> bool) \<Rightarrow> ('w \<Rightarrow> 'l \<Rightarrow> bool) \<Rightarrow> ('w \<Rightarrow> 'n \<Rightarrow> ('e + 'l) \<times> 'n) \<Rightarrow> ('l \<Rightarrow> 'n \<Rightarrow> 'n)
     \<Rightarrow> 'w list \<Rightarrow> ('k \<times> 'l) list \<Rightarrow> 'n \<Rightarrow> ('k \<times> 'l) list \<times> ('k \<times> 'e outcome) list \<times> 'n" where
  "reconcile key enabled fits start stop ws act n =
     (let (act1, n1) = stop_loop (still_wanted key enabled fits ws) stop act n
      in start_loop key enabled start ws act1 n1)"

lemma stop_loop_filter: "fst (stop_loop keep stop xs n) = filter (\<lambda>(k, l). keep k l) xs"
  by (induction keep stop xs n rule: stop_loop.induct) (auto split: prod.splits)

lemma wanted_Some_iff:
  assumes "distinct (map key ws)"
  shows "wanted key ws k = Some w \<longleftrightarrow> w \<in> set ws \<and> key w = k"
proof -
  have "map fst (rev (map (\<lambda>w. (key w, w)) ws)) = rev (map key ws)"
    by (simp add: rev_map comp_def)
  with assms have "distinct (map fst (rev (map (\<lambda>w. (key w, w)) ws)))"
    by (simp only: distinct_rev)
  then show ?thesis by (auto simp: wanted_def map_of_eq_Some_iff)
qed

lemma still_wanted_iff:
  assumes "distinct (map key ws)"
  shows "still_wanted key enabled fits ws k l \<longleftrightarrow> (\<exists>w\<in>set ws. key w = k \<and> enabled w \<and> fits w l)"
proof (cases "wanted key ws k")
  case None
  have "key w \<noteq> k" if "w \<in> set ws" for w
    using wanted_Some_iff [OF assms, of k w] None that by auto
  with None show ?thesis by (auto simp: still_wanted_def)
next
  case (Some w)
  then have "w \<in> set ws" "key w = k" using wanted_Some_iff [OF assms] by auto
  moreover have "w' = w" if "w' \<in> set ws" "key w' = k" for w'
    using wanted_Some_iff [OF assms, of k w'] Some that by simp
  ultimately have "(\<exists>w\<in>set ws. key w = k \<and> enabled w \<and> fits w l) \<longleftrightarrow> enabled w \<and> fits w l" by blast
  with Some show ?thesis by (simp add: still_wanted_def)
qed

lemma start_loop_Cons:
  "start_loop key enabled start (w # ws) act n = (act', out, n') \<longleftrightarrow>
     (\<exists>act1 o1 n1 out1. start_one key enabled start w act n = (act1, o1, n1)
        \<and> start_loop key enabled start ws act1 n1 = (act', out1, n') \<and> out = (key w, o1) # out1)"
  by (auto split: prod.splits)

lemma start_one_cases:
  obtains (off) "\<not> enabled w" "start_one key enabled start w act n = (act, Disabled, n)"
  | (on) "enabled w" "map_of act (key w) \<noteq> None" "start_one key enabled start w act n = (act, Running, n)"
  | (fail) e n1 where "enabled w" "map_of act (key w) = None" "start w n = (Inl e, n1)"
      "start_one key enabled start w act n = (act, Failed e, n1)"
  | (new) l n1 where "enabled w" "map_of act (key w) = None" "start w n = (Inr l, n1)"
      "start_one key enabled start w act n = (act @ [(key w, l)], Running, n1)"
proof (cases "enabled w \<and> map_of act (key w) = None")
  case True
  then show ?thesis
    using fail new by (cases "start w n"; cases "fst (start w n)") (auto simp: start_one_def)
next
  case False
  with off on show ?thesis by (auto simp: start_one_def)
qed

lemma start_loop_outcomes:
  "start_loop key enabled start ws act n = (act', out, n') \<Longrightarrow> map fst out = map key ws"
  by (induction ws arbitrary: act out n) (auto simp: start_loop_Cons simp del: start_loop.simps(2))

lemma start_one_keeps: "start_one key enabled start w act n = (act1, o1, n1) \<Longrightarrow> set act \<subseteq> set act1"
  by (auto simp: start_one_def split: if_splits prod.splits sum.splits)

lemma start_loop_keeps:
  "start_loop key enabled start ws act n = (act', out, n') \<Longrightarrow> set act \<subseteq> set act'"
proof (induction ws arbitrary: act out n)
  case (Cons w ws)
  then obtain act1 o1 n1 out1 where "start_one key enabled start w act n = (act1, o1, n1)"
      "start_loop key enabled start ws act1 n1 = (act', out1, n')"
    by (auto simp: start_loop_Cons simp del: start_loop.simps)
  with Cons.IH start_one_keeps show ?case by fastforce
qed simp

text \<open>When starting never fails, everything enabled runs afterwards.\<close>

lemma start_one_serves:
  "start_one key enabled start w act n = (act1, o1, n1) \<Longrightarrow> enabled w \<Longrightarrow> \<exists>l n'. start w n = (Inr l, n') \<Longrightarrow>
     key w \<in> fst ` set act1"
  by (cases "map_of act (key w)") (auto simp: start_one_def dest!: map_of_SomeD intro: rev_image_eqI)

lemma start_loop_serves:
  assumes "start_loop key enabled start ws act n = (act', out, n')" "\<And>w n. \<exists>l n'. start w n = (Inr l, n')"
    and "w \<in> set ws" "enabled w"
  shows "key w \<in> fst ` set act'"
  using assms(1,3)
proof (induction ws arbitrary: act out n)
  case (Cons v ws)
  then obtain act1 o1 n1 out1 where o: "start_one key enabled start v act n = (act1, o1, n1)"
      and l: "start_loop key enabled start ws act1 n1 = (act', out1, n')"
    by (auto simp: start_loop_Cons simp del: start_loop.simps)
  show ?case
  proof (cases "w = v")
    case True
    with start_one_serves [OF o _ assms(2)] assms(4) start_loop_keeps [OF l] show ?thesis by blast
  next
    case False
    with Cons.prems(2) Cons.IH [OF l] show ?thesis by simp
  qed
qed simp

lemma reconcile_serves:
  assumes "reconcile key enabled fits start stop ws act n = (act', out, n')" "\<And>w n. \<exists>l n'. start w n = (Inr l, n')"
    and "w \<in> set ws" "enabled w"
  shows "key w \<in> fst ` set act'"
proof -
  from assms(1) obtain act1 n1 where "start_loop key enabled start ws act1 n1 = (act', out, n')"
    by (auto simp: reconcile_def split: prod.splits)
  then show ?thesis by (rule start_loop_serves) (rule assms(2), fact assms(3), fact assms(4))
qed

section \<open>The interface\<close>

text \<open>\<open>owns\<close> are the sockets a running listener holds, \<open>held\<close> those the process holds.\<close>

locale reconciler =
  fixes key :: "'w \<Rightarrow> 'k"
    and enabled :: "'w \<Rightarrow> bool"
    and fits :: "'w \<Rightarrow> 'l \<Rightarrow> bool"
    and start :: "'w \<Rightarrow> 'n \<Rightarrow> ('e + 'l) \<times> 'n"
    and stop :: "'l \<Rightarrow> 'n \<Rightarrow> 'n"
    and owns :: "'l \<Rightarrow> 's multiset"
    and held :: "'n \<Rightarrow> 's multiset"
  assumes start_ok: "start w n = (Inr l, n') \<Longrightarrow> fits w l \<and> held n' = held n + owns l"
    and start_failed: "start w n = (Inl e, n') \<Longrightarrow> held n' = held n"
    and stop_frees: "owns l \<subseteq># held n \<Longrightarrow> held (stop l n) = held n - owns l"
begin

definition owned_by :: "('k \<times> 'l) list \<Rightarrow> 's multiset" where
  "owned_by act = sum_list (map (owns \<circ> snd) act)"

lemma owned_by_simps [simp]:
  "owned_by [] = {#}" "owned_by ((k, l) # act) = owns l + owned_by act"
  "owned_by (xs @ ys) = owned_by xs + owned_by ys"
  by (simp_all add: owned_by_def)

lemma stop_loop_held:
  "stop_loop keep stop act n = (act', n') \<Longrightarrow> held n = owned_by act + rest \<Longrightarrow>
     held n' = owned_by act' + rest"
proof (induction act arbitrary: n act' rest)
  case (Cons kl act)
  obtain k l where kl: "kl = (k, l)" by (cases kl)
  show ?case
  proof (cases "keep k l")
    case True
    with Cons.prems kl obtain ys where s: "stop_loop keep stop act n = (ys, n')" "act' = (k, l) # ys"
      by (auto split: prod.splits)
    from Cons.IH [OF s(1), of "owns l + rest"] Cons.prems(2) kl s(2) show ?thesis by (simp add: ac_simps)
  next
    case False
    with Cons.prems kl have s: "stop_loop keep stop act (stop l n) = (act', n')" by simp
    have "held (stop l n) = owned_by act + rest"
      using stop_frees [of l n] Cons.prems(2) kl by (simp add: ac_simps)
    from Cons.IH [OF s this] show ?thesis .
  qed
qed simp

lemma start_one_inv:
  assumes "start_one key enabled start w act n = (act1, o1, n1)"
    and "held n = owned_by act + rest" "distinct (map fst act)"
  shows "held n1 = owned_by act1 + rest \<and> distinct (map fst act1)"
  by (rule start_one_cases [where w = w and key = key and enabled = enabled and start = start and act = act and n = n])
    (use assms in \<open>auto simp: map_of_eq_None_iff ac_simps dest: start_ok start_failed\<close>)

lemma start_loop_inv:
  assumes "start_loop key enabled start ws act n = (act', out, n')"
    and "held n = owned_by act + rest" "distinct (map fst act)"
  shows "held n' = owned_by act' + rest \<and> distinct (map fst act')"
  using assms
proof (induction ws arbitrary: act out n)
  case (Cons w ws)
  then obtain act1 o1 n1 out1 where o: "start_one key enabled start w act n = (act1, o1, n1)"
      and l: "start_loop key enabled start ws act1 n1 = (act', out1, n')"
    by (auto simp: start_loop_Cons simp del: start_loop.simps)
  from start_one_inv [OF o Cons.prems(2,3)] Cons.IH [OF l] show ?case by blast
qed auto

text \<open>What the start loop adds belongs to an enabled entry and fits it.\<close>

lemma start_one_active:
  assumes "start_one key enabled start w act n = (act1, o1, n1)" "(k, l) \<in> set act1" "(k, l) \<notin> set act"
  shows "key w = k \<and> enabled w \<and> fits w l"
  by (rule start_one_cases [where w = w and key = key and enabled = enabled and start = start and act = act and n = n])
    (use assms in \<open>auto dest: start_ok\<close>)

lemma start_loop_active:
  assumes "start_loop key enabled start ws act n = (act', out, n')" "(k, l) \<in> set act'" "(k, l) \<notin> set act"
  shows "\<exists>w\<in>set ws. key w = k \<and> enabled w \<and> fits w l"
  using assms
proof (induction ws arbitrary: act out n)
  case (Cons w ws)
  then obtain act1 o1 n1 out1 where o: "start_one key enabled start w act n = (act1, o1, n1)"
      and l: "start_loop key enabled start ws act1 n1 = (act', out1, n')"
    by (auto simp: start_loop_Cons simp del: start_loop.simps)
  from start_one_active [OF o _ Cons.prems(3)] Cons.IH [OF l Cons.prems(2)] show ?case by auto
qed auto

text \<open>Where a running listener comes from: it ran before, or it was started for an entry of
  its key.\<close>

lemma start_loop_origin:
  assumes "start_loop key enabled start ws act n = (act', out, n')" "(k, l) \<in> set act'"
  shows "(k, l) \<in> set act \<or> (\<exists>w\<in>set ws. \<exists>m m'. key w = k \<and> start w m = (Inr l, m'))"
  using assms
proof (induction ws arbitrary: act out n)
  case (Cons w ws)
  then obtain act1 o1 n1 out1 where o: "start_one key enabled start w act n = (act1, o1, n1)"
      and l: "start_loop key enabled start ws act1 n1 = (act', out1, n')"
    by (auto simp: start_loop_Cons simp del: start_loop.simps)
  have "(k, l) \<in> set act \<or> (\<exists>m m'. key w = k \<and> start w m = (Inr l, m'))" if "(k, l) \<in> set act1"
    by (rule start_one_cases [where w = w and key = key and enabled = enabled and start = start and act = act and n = n])
      (use o that in auto)
  with Cons.IH [OF l Cons.prems(2)] show ?case by auto
qed auto

text \<open>The reported outcomes agree with what runs at the end.\<close>

definition reported :: "('k \<times> 'l) list \<Rightarrow> 'w \<Rightarrow> 'e outcome option \<Rightarrow> bool" where
  "reported act w r \<longleftrightarrow>
     (if \<not> enabled w then r = Some Disabled
      else if map_of act (key w) \<noteq> None then r = Some Running
      else (\<exists>e. r = Some (Failed e)))"

lemma start_loop_report:
  assumes "start_loop key enabled start ws act n = (act', out, n')" "distinct (map key ws)" "w \<in> set ws"
  shows "reported act' w (map_of out (key w))"
  using assms
proof (induction ws arbitrary: act out n)
  case (Cons v ws)
  then obtain act1 o1 n1 out1 where o: "start_one key enabled start v act n = (act1, o1, n1)"
      and l: "start_loop key enabled start ws act1 n1 = (act', out1, n')" and out: "out = (key v, o1) # out1"
    by (auto simp: start_loop_Cons simp del: start_loop.simps)
  show ?case
  proof (cases "w = v")
    case False
    with Cons.prems(2,3) have "w \<in> set ws" "distinct (map key ws)" "key w \<noteq> key v" by (auto simp: image_iff)
    with Cons.IH [OF l] out show ?thesis by simp
  next
    case True
    have "map_of act' (key v) \<noteq> None \<longleftrightarrow> map_of act1 (key v) \<noteq> None"
    proof -
      have "(k, l') \<in> set act' \<Longrightarrow> (k, l') \<notin> set act1 \<Longrightarrow> k \<noteq> key v" for k l'
        using start_loop_active [OF l, of k l'] Cons.prems(2) by (fastforce simp: image_iff)
      with start_loop_keeps [OF l] show ?thesis by (force simp: map_of_eq_None_iff image_iff)
    qed
    then have "reported act' v (Some o1) \<longleftrightarrow> reported act1 v (Some o1)" by (simp add: reported_def)
    moreover have "reported act1 v (Some o1)"
      by (rule start_one_cases [where w = v and key = key and enabled = enabled and start = start and act = act and n = n])
        (use o in \<open>auto simp: reported_def split: option.splits\<close>)
    ultimately show ?thesis using True out by simp
  qed
qed simp

text \<open>Reconciling keeps the books: the process holds the sockets of the listeners in the
  map and no others, before and after.\<close>

definition books :: "('k \<times> 'l) list \<Rightarrow> 'n \<Rightarrow> bool" where
  "books act n \<longleftrightarrow> held n = owned_by act \<and> distinct (map fst act)"

lemma reconcileE:
  assumes "reconcile key enabled fits start stop ws act n = (act', out, n')"
  obtains n1 where
    "stop_loop (still_wanted key enabled fits ws) stop act n =
       (filter (\<lambda>(k, l). still_wanted key enabled fits ws k l) act, n1)"
    "start_loop key enabled start ws (filter (\<lambda>(k, l). still_wanted key enabled fits ws k l) act) n1 = (act', out, n')"
proof -
  obtain act1 n1 where s: "stop_loop (still_wanted key enabled fits ws) stop act n = (act1, n1)" by fastforce
  with stop_loop_filter [of "still_wanted key enabled fits ws" stop act n]
  have "act1 = filter (\<lambda>(k, l). still_wanted key enabled fits ws k l) act" by simp
  with s assms that show ?thesis by (simp add: reconcile_def)
qed

lemma reconcile_books:
  assumes "books act n" "reconcile key enabled fits start stop ws act n = (act', out, n')"
  shows "books act' n'"
proof -
  from reconcileE [OF assms(2)] obtain n1 where
    s: "stop_loop (still_wanted key enabled fits ws) stop act n =
       (filter (\<lambda>(k, l). still_wanted key enabled fits ws k l) act, n1)" and
    t: "start_loop key enabled start ws (filter (\<lambda>(k, l). still_wanted key enabled fits ws k l) act) n1 = (act', out, n')" .
  show ?thesis
    using start_loop_inv [OF t, of "{#}"] stop_loop_held [OF s, of "{#}"] assms(1)
    by (simp add: books_def distinct_map_filter)
qed

lemma reconcile_active:
  assumes "reconcile key enabled fits start stop ws act n = (act', out, n')" "distinct (map key ws)" "(k, l) \<in> set act'"
  shows "\<exists>w\<in>set ws. key w = k \<and> enabled w \<and> fits w l"
  by (rule reconcileE [OF assms(1)])
    (use start_loop_active assms(3) in \<open>fastforce simp: still_wanted_iff [OF assms(2)]\<close>)

lemma reconcile_origin:
  assumes "reconcile key enabled fits start stop ws act n = (act', out, n')" "(k, l) \<in> set act'"
  shows "(k, l) \<in> set act \<or> (\<exists>w\<in>set ws. \<exists>m m'. key w = k \<and> start w m = (Inr l, m'))"
  by (rule reconcileE [OF assms(1)]) (use start_loop_origin [OF _ assms(2)] in fastforce)

text \<open>A listener that still fits its entry is not touched.\<close>

lemma reconcile_keeps:
  assumes "reconcile key enabled fits start stop ws act n = (act', out, n')" "distinct (map key ws)"
    and "(k, l) \<in> set act" "w \<in> set ws" "key w = k" "enabled w" "fits w l"
  shows "(k, l) \<in> set act'"
proof (rule reconcileE [OF assms(1)])
  fix n1
  assume "start_loop key enabled start ws (filter (\<lambda>(k, l). still_wanted key enabled fits ws k l) act) n1 = (act', out, n')"
  then have "set (filter (\<lambda>(k, l). still_wanted key enabled fits ws k l) act) \<subseteq> set act'"
    by (rule start_loop_keeps)
  with assms(3-7) show ?thesis by (auto simp: still_wanted_iff [OF assms(2)])
qed

lemma reconcile_report:
  assumes "reconcile key enabled fits start stop ws act n = (act', out, n')" "distinct (map key ws)" "w \<in> set ws"
  shows "reported act' w (map_of out (key w))"
  by (rule reconcileE [OF assms(1)]) (rule start_loop_report [OF _ assms(2,3)])

lemma reconcile_report_keys:
  "reconcile key enabled fits start stop ws act n = (act', out, n') \<Longrightarrow> map fst out = map key ws"
  by (erule reconcileE) (rule start_loop_outcomes)

text \<open>When everything enabled runs already and fits, nothing happens.\<close>

lemma stop_loop_idle:
  "\<forall>(k, l)\<in>set act. keep k l \<Longrightarrow> stop_loop keep stop act n = (act, n)"
  by (induction act) auto

lemma start_loop_idle:
  "\<forall>w\<in>set ws. enabled w \<longrightarrow> map_of act (key w) \<noteq> None \<Longrightarrow>
     \<exists>out. start_loop key enabled start ws act n = (act, out, n)"
  by (induction ws) (auto simp: start_one_def)

lemma reconcile_idle:
  assumes "distinct (map key ws)"
    and "\<forall>w\<in>set ws. enabled w \<longrightarrow> map_of act (key w) \<noteq> None"
    and "\<forall>(k, l)\<in>set act. \<exists>w\<in>set ws. key w = k \<and> enabled w \<and> fits w l"
  shows "\<exists>out. reconcile key enabled fits start stop ws act n = (act, out, n)"
proof -
  have "stop_loop (still_wanted key enabled fits ws) stop act n = (act, n)"
    by (rule stop_loop_idle) (use assms(3) in \<open>simp add: still_wanted_iff [OF assms(1)]\<close>)
  with start_loop_idle [OF assms(2)] show ?thesis by (simp add: reconcile_def)
qed

end

lemmas [model_eval] = wanted_def still_wanted_def start_one_def reconcile_def

end
