(* ===== verification/GoIP.thy ===== *)
theory GoIP
  imports GoNet "HOL-Library.Word"
begin

unbundle bit_operations_syntax

text \<open>
  IP addresses of Go's \<open>net\<close> package: \<open>net.IP\<close> is a byte slice, here a list of 8-bit
  words. The parsers \<open>ParseIP\<close> and \<open>ParseCIDR\<close> follow \<open>netip.ParseAddr\<close> branch by
  branch (an error is \<^const>\<open>None\<close>: the program only tests for it or prints its
  input), \<open>To4\<close>, \<open>To16\<close>, \<open>CIDRMask\<close>, \<open>Mask\<close> and \<open>Contains\<close> work on the bytes. The
  facts the program needs are what a dotted quad is and that \<open>Contains\<close> compares the
  leading bits.
\<close>

type_synonym byte = "8 word"
type_synonym ip = "byte list"

section \<open>The two lengths\<close>

definition v4_in_v6 :: ip where
  "v4_in_v6 = [0, 0, 0, 0, 0, 0, 0, 0, 0, 0, 0xFF, 0xFF]"

definition To4 :: "ip \<Rightarrow> ip option" where
  "To4 a = (if length a = 4 then Some a
            else if length a = 16 \<and> take 12 a = v4_in_v6 then Some (drop 12 a) else None)"

definition To16 :: "ip \<Rightarrow> ip option" where
  "To16 a = (if length a = 4 then Some (v4_in_v6 @ a) else if length a = 16 then Some a else None)"

lemma length_v4_in_v6 [simp]: "length v4_in_v6 = 12"
  by (simp add: v4_in_v6_def)

lemma To4_length: "To4 a = Some b \<Longrightarrow> length b = 4"
  by (auto simp: To4_def split: if_splits)

lemma To16_length: "To16 a = Some b \<Longrightarrow> length b = 16"
  by (auto simp: To16_def split: if_splits)

lemma To16_To4: "To16 a = Some b \<Longrightarrow> To4 b = To4 a"
  by (auto simp: To4_def To16_def split: if_splits)

lemma To4_To16: "To4 a = Some b \<Longrightarrow> To16 b = To16 a"
  by (auto simp: To4_def To16_def split: if_splits) (metis append_take_drop_id)

section \<open>Parsing\<close>

text \<open>\<open>parseIPv4Fields\<close>: the value and the number of digits of the octet being read, the
  octets finished. No digit has been read exactly at the start and after a dot.\<close>

fun v4_scan :: "string \<Rightarrow> nat \<Rightarrow> nat \<Rightarrow> nat list \<Rightarrow> nat list option" where
  "v4_scan [] v dl fs = (if length fs < 3 then None else Some (fs @ [v]))"
| "v4_scan (c # cs) v dl fs =
     (if is_digit c then
        (if dl = 1 \<and> v = 0 then None
         else if v * 10 + digit_val c > 255 then None
         else v4_scan cs (v * 10 + digit_val c) (Suc dl) fs)
      else if c = CHR ''.'' then
        (if dl = 0 \<or> cs = [] then None
         else if length fs = 3 then None
         else v4_scan cs 0 0 (fs @ [v]))
      else None)"

definition parse_v4 :: "string \<Rightarrow> ip option" where
  "parse_v4 s = map_option (map word_of_nat) (v4_scan s 0 0 [])"

definition hex_val :: "char \<Rightarrow> nat option" where
  "hex_val c =
     (if is_digit c then Some (byte_of c - 48)
      else if 97 \<le> byte_of c \<and> byte_of c \<le> 102 then Some (byte_of c - 87)
      else if 65 \<le> byte_of c \<and> byte_of c \<le> 70 then Some (byte_of c - 55)
      else None)"

text \<open>One group of hexadecimal digits: how many were read, their value, the rest.\<close>

fun hex_group :: "string \<Rightarrow> nat \<Rightarrow> nat \<Rightarrow> (nat \<times> nat \<times> string) option" where
  "hex_group [] off acc = Some (off, acc, [])"
| "hex_group (c # cs) off acc =
     (case hex_val c of
        None \<Rightarrow> Some (off, acc, c # cs)
      | Some d \<Rightarrow>
          if off > 3 then None
          else if acc * 16 + d > 65535 then None
          else hex_group cs (Suc off) (acc * 16 + d))"

text \<open>The loop of \<open>parseIPv6\<close>: bytes read, position of the ellipsis, remaining text.\<close>

function v6_loop :: "byte list \<Rightarrow> nat option \<Rightarrow> string \<Rightarrow> (byte list \<times> nat option \<times> string) option" where
  "v6_loop bs el s =
     (if length bs \<ge> 16 then Some (bs, el, s)
      else (case hex_group s 0 0 of
          None \<Rightarrow> None
        | Some (off, acc, rest) \<Rightarrow>
            if off = 0 then None
            else if has_prefix rest ''.'' then
              (if el = None \<and> length bs \<noteq> 12 then None
               else if length bs + 4 > 16 then None
               else (case parse_v4 s of None \<Rightarrow> None | Some q \<Rightarrow> Some (bs @ q, el, [])))
            else
              (let bs' = bs @ [word_of_nat (acc div 256), word_of_nat (acc mod 256)]
               in if rest = [] then Some (bs', el, [])
                  else if \<not> has_prefix rest '':'' then None
                  else if length rest = 1 then None
                  else (let s1 = drop 1 rest
                        in if has_prefix s1 '':'' then
                             (if el \<noteq> None then None
                              else if length s1 = 1 then Some (bs', Some (length bs'), [])
                              else v6_loop bs' (Some (length bs')) (drop 1 s1))
                           else v6_loop bs' el s1))))"
  by pat_completeness auto
termination by (relation "measure (\<lambda>(bs, el, s). 16 - length bs)") auto

declare v6_loop.simps [simp del]

definition parse_v6 :: "string \<Rightarrow> ip option" where
  "parse_v6 s =
     (let (el0, s0) = (if has_prefix s ''::'' then (Some 0, drop 2 s) else (None, s))
      in if el0 \<noteq> None \<and> s0 = [] then Some (replicate 16 0)
         else (case v6_loop [] el0 s0 of
             None \<Rightarrow> None
           | Some (bs, el, rest) \<Rightarrow>
               if rest \<noteq> [] then None
               else if length bs < 16 then
                 (case el of None \<Rightarrow> None
                  | Some e \<Rightarrow> Some (take e bs @ replicate (16 - length bs) 0 @ drop e bs))
               else if el \<noteq> None then None
               else Some bs))"

text \<open>\<open>netip.ParseAddr\<close> on an address without zone (both callers refuse one); the result has
  4 or 16 bytes by the form of the text.\<close>

definition parse_addr :: "string \<Rightarrow> ip option" where
  "parse_addr s =
     (case find (\<lambda>c. c = CHR ''.'' \<or> c = CHR '':'' \<or> c = CHR ''%'') s of
        None \<Rightarrow> None
      | Some c \<Rightarrow> if c = CHR ''.'' then parse_v4 s
                 else if c = CHR '':'' \<and> CHR ''%'' \<notin> set s then parse_v6 s
                 else None)"

definition ParseIP :: "string \<Rightarrow> ip option" where
  "ParseIP s = (case parse_addr s of None \<Rightarrow> None | Some a \<Rightarrow> To16 a)"

section \<open>Networks\<close>

record ip_net =
  net_ip :: ip
  net_mask :: "byte list"

definition mask_byte :: "nat \<Rightarrow> byte" where
  "mask_byte n = (if n \<ge> 8 then 0xFF else NOT (drop_bit n 0xFF))"

fun cidr_mask :: "nat \<Rightarrow> nat \<Rightarrow> byte list" where
  "cidr_mask n 0 = []"
| "cidr_mask n (Suc k) = mask_byte n # cidr_mask (n - 8) k"

definition and_bytes :: "byte list \<Rightarrow> byte list \<Rightarrow> byte list" where
  "and_bytes a m = map2 (AND) a m"

text \<open>\<open>IP.Mask\<close>; the program masks a 16-byte address with a mask of 4 or 16 bytes.\<close>

definition ip_mask :: "ip \<Rightarrow> byte list \<Rightarrow> ip" where
  "ip_mask a m =
     (let m1 = (if length m = 16 \<and> length a = 4 \<and> (\<forall>b\<in>set (take 12 m). b = 0xFF) then drop 12 m else m);
          a1 = (if length m1 = 4 \<and> length a = 16 \<and> take 12 a = v4_in_v6 then drop 12 a else a)
      in if length a1 \<noteq> length m1 then [] else and_bytes a1 m1)"

definition dtoi :: "string \<Rightarrow> nat option" where
  "dtoi s = (if s \<noteq> [] \<and> (\<forall>c\<in>set s. is_digit c) \<and> digits_val s < 0xFFFFFF then Some (digits_val s) else None)"

definition ParseCIDR :: "string \<Rightarrow> (ip \<times> ip_net) option" where
  "ParseCIDR s =
     (case cut_byte (CHR ''/'') s of
        None \<Rightarrow> None
      | Some (addr, bits) \<Rightarrow>
          (case parse_addr addr of
             None \<Rightarrow> None
           | Some a \<Rightarrow>
               (case dtoi bits of
                  None \<Rightarrow> None
                | Some n \<Rightarrow>
                    if n > 8 * length a then None
                    else (case To16 a of None \<Rightarrow> None
                      | Some a16 \<Rightarrow>
                          let m = cidr_mask n (length a)
                          in Some (a16, \<lparr>net_ip = ip_mask a16 m, net_mask = m\<rparr>)))))"

definition network_number_and_mask :: "ip_net \<Rightarrow> (ip \<times> byte list) option" where
  "network_number_and_mask n =
     (case (case To4 (net_ip n) of Some a \<Rightarrow> Some a
            | None \<Rightarrow> if length (net_ip n) = 16 then Some (net_ip n) else None) of
        None \<Rightarrow> None
      | Some a \<Rightarrow>
          if length (net_mask n) = 4 then (if length a = 4 then Some (a, net_mask n) else None)
          else if length (net_mask n) = 16 then
            Some (a, if length a = 4 then drop 12 (net_mask n) else net_mask n)
          else None)"

definition net_contains :: "ip_net \<Rightarrow> ip \<Rightarrow> bool" where
  "net_contains n ip0 \<longleftrightarrow>
     (let ip = (case To4 ip0 of Some a \<Rightarrow> a | None \<Rightarrow> ip0)
      in case network_number_and_mask n of
           None \<Rightarrow> ip = []
         | Some (nn, m) \<Rightarrow> length ip = length nn
             \<and> (\<forall>((x, y), b)\<in>set (zip (zip nn ip) m). x AND b = y AND b))"

section \<open>Dotted quads\<close>

fun join_dots :: "nat list \<Rightarrow> string" where
  "join_dots [] = []"
| "join_dots [a] = format_nat a"
| "join_dots (a # as) = format_nat a @ CHR ''.'' # join_dots as"

lemma format_nat_push: "0 < v \<Longrightarrow> d < 10 \<Longrightarrow> format_nat (v * 10 + d) = format_nat v @ [digit_char d]"
  by (subst format_nat.simps) simp

lemma is_digit_val: "is_digit c \<Longrightarrow> digit_val c < 10 \<and> digit_char (digit_val c) = c"
  by (auto simp: is_digit_def digit_val_def digit_char_def)

definition octet_read :: "string \<Rightarrow> nat \<Rightarrow> nat \<Rightarrow> bool" where
  "octet_read cur v dl \<longleftrightarrow> v \<le> 255 \<and> length cur = dl \<and> (dl = 0 \<and> v = 0 \<or> 0 < dl \<and> cur = format_nat v)"

lemma octet_read_digit:
  assumes "octet_read cur v dl" "is_digit c" "\<not> (dl = 1 \<and> v = 0)" "v * 10 + digit_val c \<le> 255"
  shows "octet_read (cur @ [c]) (v * 10 + digit_val c) (Suc dl)"
proof (cases "dl = 0")
  case True
  with assms have v: "v = 0" and cur: "cur = []" by (auto simp: octet_read_def)
  have "format_nat (digit_val c) = [c]"
    using is_digit_val [OF assms(2)] by (subst format_nat.simps) simp
  with True v cur assms(4) show ?thesis by (simp add: octet_read_def)
next
  case False
  with assms have cur: "cur = format_nat v" "length cur = dl" by (auto simp: octet_read_def)
  have "0 < v"
  proof (rule ccontr)
    assume "\<not> 0 < v"
    then have "cur = [digit_char 0]" using cur(1) by (simp add: format_nat.simps [of 0])
    with cur(2) assms(3) \<open>\<not> 0 < v\<close> show False by simp
  qed
  with format_nat_push [of v "digit_val c"] is_digit_val [OF assms(2)] cur assms(4)
  show ?thesis by (simp add: octet_read_def)
qed

lemma v4_scan_sound:
  "v4_scan s v dl fs = Some out \<Longrightarrow> octet_read cur v dl \<Longrightarrow> s \<noteq> [] \<or> 0 < dl \<Longrightarrow> length fs \<le> 3 \<Longrightarrow>
     \<exists>gs. out = fs @ gs \<and> gs \<noteq> [] \<and> (\<forall>g\<in>set gs. g \<le> 255) \<and> cur @ s = join_dots gs \<and> length out = 4"
proof (induction s arbitrary: v dl fs cur)
  case Nil
  then show ?case by (auto simp: octet_read_def split: if_splits)
next
  case (Cons c cs)
  show ?case
  proof (cases "is_digit c")
    case True
    with Cons.prems have "v4_scan cs (v * 10 + digit_val c) (Suc dl) fs = Some out"
        "\<not> (dl = 1 \<and> v = 0)" "v * 10 + digit_val c \<le> 255" by (auto split: if_splits)
    with Cons.IH [OF this(1) octet_read_digit [OF Cons.prems(2) True this(2,3)]] Cons.prems(4)
    show ?thesis by simp
  next
    case False
    with Cons.prems have p: "c = CHR ''.''" "0 < dl" "cs \<noteq> []" "length fs < 3"
        "v4_scan cs 0 0 (fs @ [v]) = Some out" by (auto split: if_splits)
    have "octet_read [] 0 0" by (simp add: octet_read_def)
    from Cons.IH [OF p(5) this] p obtain gs where
        gs: "out = (fs @ [v]) @ gs" "gs \<noteq> []" "\<forall>g\<in>set gs. g \<le> 255" "cs = join_dots gs" "length out = 4" by auto
    then have "join_dots (v # gs) = format_nat v @ CHR ''.'' # cs" by (cases gs) auto
    moreover have "cur = format_nat v" "v \<le> 255" using Cons.prems(2) p(2) by (auto simp: octet_read_def)
    ultimately show ?thesis using gs p(1) by (intro exI [of _ "v # gs"]) auto
  qed
qed

lemma v4_scan_octet:
  assumes "n \<le> 255"
  shows "v4_scan (format_nat n @ rest) 0 0 fs = v4_scan rest n (length (format_nat n)) fs"
proof -
  have one: "format_nat a = [digit_char a]" if "a < 10" for a
    using that by (subst format_nat.simps) simp
  consider (one) "n < 10"
    | (two) a b where "0 < a" "a < 10" "b < 10" "n = a * 10 + b"
    | (three) a b c where "0 < a" "a < 10" "b < 10" "c < 10" "n = (a * 10 + b) * 10 + c"
  proof -
    have n: "n = n div 10 * 10 + n mod 10" "n div 10 = n div 10 div 10 * 10 + n div 10 mod 10" by simp_all
    consider "n < 10" | "10 \<le> n" "n div 10 < 10" | "10 \<le> n div 10" by linarith
    then show ?thesis
    proof cases
      case 2
      show ?thesis by (rule two [OF _ 2(2) _ n(1)]) (use 2 in simp_all)
    next
      case 3
      have "n div 10 div 10 < 10" using assms by simp
      with 3 n show ?thesis using three [of "n div 10 div 10" "n div 10 mod 10" "n mod 10"] by simp
    qed (rule one)
  qed
  then show ?thesis
  proof cases
    case one
    then show ?thesis using digit_char_props [OF one] assms by (simp add: \<open>\<And>a. a < 10 \<Longrightarrow> format_nat a = [digit_char a]\<close>)
  next
    case two
    then have "format_nat n = [digit_char a, digit_char b]"
      by (simp add: format_nat_push \<open>\<And>a. a < 10 \<Longrightarrow> format_nat a = [digit_char a]\<close>)
    then show ?thesis
      using two digit_char_props [OF two(2)] digit_char_props [OF two(3)] assms by simp
  next
    case three
    then have "format_nat n = [digit_char a, digit_char b, digit_char c]"
      using format_nat_push [of "a * 10 + b" c]
      by (simp add: format_nat_push \<open>\<And>a. a < 10 \<Longrightarrow> format_nat a = [digit_char a]\<close>)
    then show ?thesis
      using three digit_char_props [OF three(2)] digit_char_props [OF three(3)] digit_char_props [OF three(4)] assms
      by simp
  qed
qed

text \<open>A dotted quad is exactly four octets in decimal without leading zeros.\<close>

lemma v4_scan_iff:
  "v4_scan s 0 0 [] = Some fs \<longleftrightarrow> length fs = 4 \<and> (\<forall>f\<in>set fs. f \<le> 255) \<and> s = join_dots fs"
proof
  assume v: "v4_scan s 0 0 [] = Some fs"
  then have "s \<noteq> []" by auto
  with v4_scan_sound [OF v, of "[]"] show "length fs = 4 \<and> (\<forall>f\<in>set fs. f \<le> 255) \<and> s = join_dots fs"
    by (auto simp: octet_read_def)
next
  assume a: "length fs = 4 \<and> (\<forall>f\<in>set fs. f \<le> 255) \<and> s = join_dots fs"
  then obtain w x y z where fs: "fs = [w, x, y, z]"
    by (auto simp: length_Suc_conv eval_nat_numeral)
  have dot: "\<not> is_digit (CHR ''.'')" by (simp add: is_digit_def)
  have len: "0 < length (format_nat n)" for n using format_nat_not_Nil [of n] by simp
  have last: "v4_scan (format_nat n) 0 0 gs = v4_scan [] n (length (format_nat n)) gs" if "n \<le> 255" for n gs
    using v4_scan_octet [OF that, of "[]"] by simp
  show "v4_scan s 0 0 [] = Some fs"
    using a fs dot len by (simp add: v4_scan_octet last)
qed

lemma parse_v4_length: "parse_v4 s = Some a \<Longrightarrow> length a = 4"
  by (auto simp: parse_v4_def v4_scan_iff)

section \<open>Lengths of parsed addresses\<close>

lemma v6_loop_length:
  "v6_loop bs el s = Some (bs', el', s') \<Longrightarrow> length bs \<le> 16 \<Longrightarrow> even (length bs) \<Longrightarrow>
     length bs' \<le> 16"
proof (induction bs el s rule: v6_loop.induct)
  case (1 bs el s)
  show ?case
  proof (cases "length bs \<ge> 16")
    case True
    with 1 show ?thesis by (simp add: v6_loop.simps [of bs])
  next
    case False
    then have le: "length bs + 2 \<le> 16" using "1.prems"(3) by presburger
    from False "1.prems"(1) obtain off acc rest where g: "hex_group s 0 0 = Some (off, acc, rest)" "off \<noteq> 0"
      by (auto simp: v6_loop.simps [of bs] split: option.splits if_splits prod.splits)
    show ?thesis
    proof (cases "has_prefix rest ''.''")
      case True
      with False "1.prems"(1) g show ?thesis
        by (auto simp: v6_loop.simps [of bs] dest: parse_v4_length split: if_splits option.splits)
    next
      case ndot: False
      let ?b = "bs @ [word_of_nat (acc div 256), word_of_nat (acc mod 256)]"
      from "1.IH"(1) [OF False g(1) refl refl g(2) ndot refl]
        "1.IH"(2) [OF False g(1) refl refl g(2) ndot refl] "1.prems" False g ndot le
      show ?thesis
        by (auto simp: v6_loop.simps [of bs] Let_def split: if_splits)
    qed
  qed
qed

lemma parse_v6_length: "parse_v6 s = Some a \<Longrightarrow> length a = 16"
  by (auto simp: parse_v6_def Let_def min_def split: if_splits option.splits prod.splits dest!: v6_loop_length)

lemma parse_addr_length: "parse_addr s = Some a \<Longrightarrow> length a = 4 \<or> length a = 16"
  by (auto simp: parse_addr_def parse_v4_length parse_v6_length split: option.splits if_splits)

lemma ParseIP_length: "ParseIP s = Some a \<Longrightarrow> length a = 16"
  by (auto simp: ParseIP_def To16_length split: option.splits)

section \<open>\<open>Contains\<close> compares leading bits\<close>

definition byte_bits :: "byte \<Rightarrow> bool list" where
  "byte_bits b = map (bit b) [7, 6, 5, 4, 3, 2, 1, 0]"

definition ip_bits :: "ip \<Rightarrow> bool list" where
  "ip_bits a = concat (map byte_bits a)"

lemma length_byte_bits [simp]: "length (byte_bits b) = 8"
  by (simp add: byte_bits_def)

lemma ip_bits_simps [simp]: "ip_bits [] = []" "ip_bits (b # a) = byte_bits b @ ip_bits a"
  by (simp_all add: ip_bits_def)

lemma length_ip_bits [simp]: "length (ip_bits a) = 8 * length a"
  by (induction a) auto

lemma byte_eq_iff: "x = y \<longleftrightarrow> (\<forall>i<8. bit x i = bit y i)" for x y :: byte
  by (auto simp: bit_eq_iff)

lemma all_lt8: "(\<forall>i<8. P i) \<longleftrightarrow> P 0 \<and> P 1 \<and> P 2 \<and> P 3 \<and> P 4 \<and> P 5 \<and> P 6 \<and> P (7::nat)"
  by (simp add: numeral_eq_Suc All_less_Suc) blast

lemma mask_byte_bits:
  assumes "n < 8"
  shows "mask_byte n = NOT (mask (8 - n))"
proof -
  have ff: "(0xFF :: byte) = mask 8" by (simp add: mask_eq_exp_minus_1)
  show ?thesis
    using assms unfolding mask_byte_def ff by (auto simp: bit_eq_iff bit_simps)
qed

lemma mask_byte_and:
  "x AND mask_byte n = y AND mask_byte n \<longleftrightarrow> take n (byte_bits x) = take n (byte_bits y)"
proof (cases "n < 8")
  case False
  have "(0xFF :: byte) = - 1" by simp
  then have "mask_byte n = - 1" using False unfolding mask_byte_def by simp
  then have "x AND mask_byte n = x" "y AND mask_byte n = y" by simp_all
  then show ?thesis using False by (simp add: byte_eq_iff all_lt8 byte_bits_def) blast
next
  case True
  have "x AND mask_byte n = y AND mask_byte n \<longleftrightarrow> (\<forall>i<8. 8 - n \<le> i \<longrightarrow> bit x i = bit y i)"
    using True by (auto simp: mask_byte_bits byte_eq_iff bit_and_iff bit_not_iff bit_mask_iff)
  moreover from True consider "n = 0" | "n = 1" | "n = 2" | "n = 3" | "n = 4" | "n = 5" | "n = 6" | "n = 7"
    by linarith
  then have "(\<forall>i<8. 8 - n \<le> i \<longrightarrow> bit x i = bit y i) \<longleftrightarrow> take n (byte_bits x) = take n (byte_bits y)"
    by cases (simp_all add: all_lt8 byte_bits_def, blast+)
  ultimately show ?thesis by simp
qed

lemma masked_eq_iff:
  "length a = k \<Longrightarrow> length b = k \<Longrightarrow>
     and_bytes a (cidr_mask n k) = and_bytes b (cidr_mask n k) \<longleftrightarrow> take n (ip_bits a) = take n (ip_bits b)"
proof (induction k arbitrary: a b n)
  case (Suc k)
  then obtain x a' y b' where ab: "a = x # a'" "b = y # b'" "length a' = k" "length b' = k"
    by (auto simp: length_Suc_conv)
  have "take n (byte_bits x @ ip_bits a') = take n (byte_bits y @ ip_bits b') \<longleftrightarrow>
      take n (byte_bits x) = take n (byte_bits y) \<and> take (n - 8) (ip_bits a') = take (n - 8) (ip_bits b')"
    by (auto simp: take_append)
  with Suc.IH [OF ab(3,4), of "n - 8"] ab(1,2) show ?case
    by (simp add: and_bytes_def mask_byte_and)
qed (auto simp: and_bytes_def)

lemma length_cidr_mask [simp]: "length (cidr_mask n k) = k"
  by (induction k arbitrary: n) auto

lemma length_and_bytes [simp]: "length (and_bytes a m) = min (length a) (length m)"
  by (simp add: and_bytes_def)

lemma and_bytes_idem: "and_bytes (and_bytes a m) m = and_bytes a m"
  by (induction a m rule: list_induct2') (simp_all add: and_bytes_def and.assoc)

lemma zip_and_eq:
  "length a = length m \<Longrightarrow> length b = length m \<Longrightarrow>
     (\<forall>((x, y), k)\<in>set (zip (zip a b) m). x AND k = y AND k) \<longleftrightarrow> and_bytes a m = and_bytes b m"
proof (induction m arbitrary: a b)
  case (Cons k m)
  then obtain x a' y b' where "a = x # a'" "b = y # b'" by (cases a; cases b) auto
  with Cons show ?case by (simp add: and_bytes_def)
qed (simp add: and_bytes_def)

lemma ip_mask_v4:
  assumes "length a = 4"
  shows "ip_mask (v4_in_v6 @ a) (cidr_mask n 4) = and_bytes a (cidr_mask n 4)"
  using assms by (simp add: ip_mask_def)

lemma ip_mask_v6: "length a = 16 \<Longrightarrow> ip_mask a (cidr_mask n 16) = and_bytes a (cidr_mask n 16)"
  by (simp add: ip_mask_def)

text \<open>A network written with an IPv4 address contains the addresses that have a 4-byte form
  with the same leading bits.\<close>

lemma contains_v4:
  assumes "length a = 4" "length ip = 16"
  shows "net_contains \<lparr>net_ip = ip_mask (v4_in_v6 @ a) (cidr_mask n 4), net_mask = cidr_mask n 4\<rparr> ip \<longleftrightarrow>
    (\<exists>b. To4 ip = Some b \<and> take n (ip_bits b) = take n (ip_bits a))"
proof (cases "To4 ip")
  case None
  with assms show ?thesis
    by (simp add: net_contains_def network_number_and_mask_def ip_mask_v4 To4_def)
next
  case (Some b)
  then have "length b = 4" by (rule To4_length)
  with assms Some show ?thesis
    using masked_eq_iff [of b 4 a n]
    by (auto simp: net_contains_def network_number_and_mask_def ip_mask_v4 To4_def [of "and_bytes _ _"]
        zip_and_eq and_bytes_idem)
qed

text \<open>A network written with an IPv6 address compares the 16-byte forms, but never holds an
  IPv4 address unless it lies inside the IPv4-mapped block itself.\<close>

lemma and_bytes_append:
  "length a = length m \<Longrightarrow> and_bytes (a @ b) (m @ k) = and_bytes a m @ and_bytes b k"
  by (simp add: and_bytes_def)

lemma ip_bits_append: "ip_bits (a @ b) = ip_bits a @ ip_bits b"
  by (simp add: ip_bits_def)

lemma contains_v6:
  fixes a ip :: ip and n :: nat
  assumes a: "length a = 16" and ip: "length ip = 16"
  defines "net \<equiv> and_bytes a (cidr_mask n 16)"
  shows "net_contains \<lparr>net_ip = ip_mask a (cidr_mask n 16), net_mask = cidr_mask n 16\<rparr> ip \<longleftrightarrow>
    take n (ip_bits ip) = take n (ip_bits a) \<and> (To4 ip = None \<longleftrightarrow> To4 net = None)"
proof -
  let ?m = "cidr_mask n 16"
  have len: "length net = 16" using a by (simp add: net_def)
  have bits: "and_bytes net ?m = and_bytes ip ?m \<longleftrightarrow> take n (ip_bits ip) = take n (ip_bits a)"
    using masked_eq_iff [OF a ip, of n] by (auto simp: net_def and_bytes_idem)
  show ?thesis
  proof (cases "To4 net")
    case None
    with a ip len bits show ?thesis
      by (auto simp: net_contains_def network_number_and_mask_def ip_mask_v6 net_def [symmetric]
          zip_and_eq dest: To4_length split: option.split)
  next
    case (Some nn)
    then have nn: "net = v4_in_v6 @ nn" "length nn = 4"
      using len by (auto simp: To4_def split: if_splits) (metis append_take_drop_id)
    let ?m1 = "take 12 ?m" and ?m2 = "drop 12 ?m"
    have m: "?m = ?m1 @ ?m2" "length ?m1 = 12" "length ?m2 = 4" by simp_all
    have split: "and_bytes net ?m = and_bytes v4_in_v6 ?m1 @ and_bytes nn ?m2"
      using and_bytes_append [of v4_in_v6 ?m1 nn ?m2] nn m by simp
    show ?thesis
    proof (cases "To4 ip")
      case None
      with a ip len Some show ?thesis
        by (auto simp: net_contains_def network_number_and_mask_def ip_mask_v6 net_def [symmetric]
            dest: To4_length)
    next
      case (Some b)
      then have b: "ip = v4_in_v6 @ b" "length b = 4"
        using ip by (auto simp: To4_def split: if_splits) (metis append_take_drop_id)
      have "and_bytes ip ?m = and_bytes v4_in_v6 ?m1 @ and_bytes b ?m2"
        using and_bytes_append [of v4_in_v6 ?m1 b ?m2] b m by simp
      with split have eq: "and_bytes net ?m = and_bytes ip ?m \<longleftrightarrow> and_bytes nn ?m2 = and_bytes b ?m2" by simp
      with a ip Some \<open>To4 net = Some nn\<close> nn(2) b(2) bits show ?thesis
        by (simp add: net_contains_def network_number_and_mask_def ip_mask_v6 net_def [symmetric] zip_and_eq)
    qed
  qed
qed

lemmas [go_eval] = v4_in_v6_def To4_def To16_def parse_v4_def hex_val_def v6_loop.simps parse_v6_def
  parse_addr_def ParseIP_def mask_byte_def and_bytes_def ip_mask_def dtoi_def ParseCIDR_def
  network_number_and_mask_def net_contains_def

end
