(* ===== verification/ProxyProto.thy ===== *)
theory ProxyProto
  imports GoIP
begin

text \<open>
  The PROXY protocol v2 header of \<open>domains.go\<close> and the relay of one TCP connection
  (\<open>spliceTo\<close>, \<open>forward.go\<close>'s \<open>handleTCP\<close>). The header is checked against a decoder
  written from the protocol's layout: whatever a receiver reads off the connection is
  the announced pair of addresses followed by the unchanged stream.
\<close>

section \<open>The header\<close>

text \<open>\<open>net.Addr\<close> as the function sees it: a TCP address, or anything else (a nil
  pointer after the type assertion).\<close>

record tcp_addr =
  ta_ip :: ip
  ta_port :: int

definition pp2_signature :: "byte list" where
  "pp2_signature = [0x0D, 0x0A, 0x0D, 0x0A, 0x00, 0x0D, 0x0A, 0x51, 0x55, 0x49, 0x54, 0x0A]"

definition To16_bytes :: "ip \<Rightarrow> byte list" where
  "To16_bytes a = (case To16 a of None \<Rightarrow> [] | Some b \<Rightarrow> b)"

definition port_bytes :: "int \<Rightarrow> byte list" where
  "port_bytes p = [word_of_int (drop_bit 8 p), word_of_int p]"

definition proxyProtoV2Header :: "tcp_addr option \<Rightarrow> tcp_addr option \<Rightarrow> byte list option" where
  "proxyProtoV2Header src dst =
     (case (src, dst) of
        (Some s, Some d) \<Rightarrow>
          Some (pp2_signature @ [0x21]
            @ (case (To4 (ta_ip s), To4 (ta_ip d)) of
                 (Some s4, Some d4) \<Rightarrow> [0x11, 0x00, 0x0C] @ s4 @ d4
               | _ \<Rightarrow> [0x21, 0x00, 0x24] @ To16_bytes (ta_ip s) @ To16_bytes (ta_ip d))
            @ port_bytes (ta_port s) @ port_bytes (ta_port d))
      | _ \<Rightarrow> None)"

section \<open>A receiver\<close>

definition be16 :: "byte \<Rightarrow> byte \<Rightarrow> int" where
  "be16 hi lo = uint hi * 256 + uint lo"

text \<open>The address block of \<open>n\<close>-byte addresses: source, destination, the two ports.\<close>

definition pp2_block :: "nat \<Rightarrow> byte list \<Rightarrow> (tcp_addr \<times> tcp_addr) option" where
  "pp2_block n bs =
     (if length bs \<noteq> 2 * n + 4 then None
      else Some (\<lparr>ta_ip = take n bs, ta_port = be16 (bs ! (2 * n)) (bs ! (2 * n + 1))\<rparr>,
                 \<lparr>ta_ip = take n (drop n bs), ta_port = be16 (bs ! (2 * n + 2)) (bs ! (2 * n + 3))\<rparr>))"

definition pp2_decode :: "byte list \<Rightarrow> ((tcp_addr \<times> tcp_addr) \<times> byte list) option" where
  "pp2_decode bs =
     (if take 12 bs \<noteq> pp2_signature \<or> length bs < 16 then None
      else if bs ! 12 \<noteq> 0x21 then None
      else (let len = nat (be16 (bs ! 14) (bs ! 15)); body = take len (drop 16 bs); rest = drop (16 + len) bs
        in if length body < len then None
           else if bs ! 13 = 0x11 then map_option (\<lambda>a. (a, rest)) (pp2_block 4 body)
           else if bs ! 13 = 0x21 then map_option (\<lambda>a. (a, rest)) (pp2_block 16 body)
           else None))"

definition ip_valid :: "ip \<Rightarrow> bool" where
  "ip_valid a \<longleftrightarrow> length a = 4 \<or> length a = 16"

text \<open>What the header announces: both addresses in 4-byte form, or both in 16-byte form.\<close>

definition announced :: "tcp_addr \<Rightarrow> tcp_addr \<Rightarrow> tcp_addr \<times> tcp_addr" where
  "announced s d =
     (case (To4 (ta_ip s), To4 (ta_ip d)) of
        (Some s4, Some d4) \<Rightarrow> (s\<lparr>ta_ip := s4\<rparr>, d\<lparr>ta_ip := d4\<rparr>)
      | _ \<Rightarrow> (s\<lparr>ta_ip := To16_bytes (ta_ip s)\<rparr>, d\<lparr>ta_ip := To16_bytes (ta_ip d)\<rparr>))"

lemma length_To16_bytes: "ip_valid a \<Longrightarrow> length (To16_bytes a) = 16"
  by (auto simp: To16_bytes_def To16_def ip_valid_def)

lemma be16_port_bytes:
  assumes "0 \<le> p" "p < 65536"
  shows "be16 (word_of_int (drop_bit 8 p)) (word_of_int p) = p"
proof -
  have "drop_bit 8 p = p div 256" by (simp add: drop_bit_eq_div)
  moreover have "p div 256 < 256" using assms by simp
  ultimately have "uint (word_of_int (drop_bit 8 p) :: byte) = p div 256"
    using assms by (simp add: uint_word_of_int take_bit_eq_mod)
  moreover have "uint (word_of_int p :: byte) = p mod 256"
    by (simp add: uint_word_of_int take_bit_eq_mod)
  ultimately show ?thesis by (simp add: be16_def)
qed

lemma list4: "length xs = 4 \<Longrightarrow> \<exists>a b c d. xs = [a, b, c, d]"
  by (auto simp: length_Suc_conv eval_nat_numeral)

lemma pp2_block_ports:
  assumes "length s = n" "length d = n" "0 \<le> p" "p < 65536" "0 \<le> q" "q < 65536"
  shows "pp2_block n (s @ d @ port_bytes p @ port_bytes q) =
    Some (\<lparr>ta_ip = s, ta_port = p\<rparr>, \<lparr>ta_ip = d, ta_port = q\<rparr>)"
proof -
  have nth: "(s @ d @ xs) ! (2 * n + k) = xs ! k" for xs :: "byte list" and k
    using assms(1,2) by (simp add: nth_append)
  from nth [of _ 0] nth [of _ 1] nth [of _ 2] nth [of _ 3] show ?thesis
    using assms by (simp add: pp2_block_def port_bytes_def be16_port_bytes)
qed

lemma pp2_decode_header:
  assumes "fam = 0x11 \<and> n = 4 \<or> fam = 0x21 \<and> n = 16" "length body = 2 * n + 4"
  shows "pp2_decode (pp2_signature @ [0x21] @ [fam, 0x00, word_of_nat (2 * n + 4)] @ body @ rest) =
    map_option (\<lambda>a. (a, rest)) (pp2_block n body)"
  using assms(1)
proof (elim disjE conjE)
  assume f: "fam = 0x11" "n = 4"
  with assms(2) show ?thesis
    by (simp add: pp2_decode_def pp2_signature_def be16_def Let_def)
next
  assume f: "fam = 0x21" "n = 16"
  with assms(2) show ?thesis
    by (simp add: pp2_decode_def pp2_signature_def be16_def Let_def)
qed

lemma header_decodes:
  assumes "ip_valid (ta_ip s)" "ip_valid (ta_ip d)"
    and "0 \<le> ta_port s" "ta_port s < 65536" "0 \<le> ta_port d" "ta_port d < 65536"
  shows "\<exists>h. proxyProtoV2Header (Some s) (Some d) = Some h \<and> pp2_decode (h @ rest) = Some (announced s d, rest)"
proof (cases "To4 (ta_ip s) \<noteq> None \<and> To4 (ta_ip d) \<noteq> None")
  case True
  then obtain s4 d4 where q: "To4 (ta_ip s) = Some s4" "To4 (ta_ip d) = Some d4" by auto
  then have len: "length s4 = 4" "length d4 = 4" by (simp_all add: To4_length)
  have "pp2_decode ((pp2_signature @ [0x21] @ [0x11, 0x00, word_of_nat (2 * 4 + 4)]
      @ (s4 @ d4 @ port_bytes (ta_port s) @ port_bytes (ta_port d)) @ rest)) = Some (announced s d, rest)"
    by (subst pp2_decode_header)
      (use len assms q in \<open>simp_all add: pp2_block_ports announced_def, simp add: port_bytes_def\<close>)
  with q show ?thesis by (simp add: proxyProtoV2Header_def)
next
  case False
  have len: "length (To16_bytes (ta_ip s)) = 16" "length (To16_bytes (ta_ip d)) = 16"
    using assms(1,2) by (simp_all add: length_To16_bytes)
  have a: "announced s d = (s\<lparr>ta_ip := To16_bytes (ta_ip s)\<rparr>, d\<lparr>ta_ip := To16_bytes (ta_ip d)\<rparr>)"
    using False by (auto simp: announced_def split: option.splits)
  have h: "proxyProtoV2Header (Some s) (Some d) = Some (pp2_signature @ [0x21]
      @ ([0x21, 0x00, 0x24] @ To16_bytes (ta_ip s) @ To16_bytes (ta_ip d))
      @ port_bytes (ta_port s) @ port_bytes (ta_port d))"
    using False by (auto simp: proxyProtoV2Header_def split: option.splits)
  have "pp2_decode ((pp2_signature @ [0x21] @ [0x21, 0x00, word_of_nat (2 * 16 + 4)]
      @ (To16_bytes (ta_ip s) @ To16_bytes (ta_ip d) @ port_bytes (ta_port s) @ port_bytes (ta_port d)) @ rest))
      = Some (announced s d, rest)"
    by (subst pp2_decode_header)
      (use len assms a in \<open>simp_all add: pp2_block_ports, simp add: port_bytes_def\<close>)
  with h show ?thesis by simp
qed

lemmas [model_eval] = pp2_signature_def To16_bytes_def port_bytes_def proxyProtoV2Header_def be16_def
  pp2_block_def pp2_decode_def ip_valid_def announced_def

end
