(* ===== verification/Sni.thy ===== *)
theory Sni
  imports ProxyProto
begin

text \<open>
  Peeking at a connection and routing it, from \<open>domains.go\<close>: \<open>peekConn\<close>, \<open>prefixConn\<close>,
  \<open>peekClientHelloSNI\<close>, \<open>sniListener\<close> and \<open>spliceTo\<close>. The throwaway TLS handshake is a
  parameter: a function that, from the bytes it has read so far, either asks for another
  read of some size or ends with a server name. Everything holds for every such function,
  so nothing depends on how TLS parses a ClientHello.
\<close>

section \<open>Connections\<close>

text \<open>The client's side of an accepted connection: the bytes still to come, and how many of
  them the network hands out at each \<open>Read\<close> (a list consumed one per call; when it is used
  up, or names 0, one byte). What was written to the client is recorded.\<close>

record conn =
  cn_in :: "byte list"
  cn_chunks :: "nat list"
  cn_out :: "byte list"

definition chunk :: "nat \<Rightarrow> conn \<Rightarrow> nat" where
  "chunk k c = (case cn_chunks c of [] \<Rightarrow> 1 | m # _ \<Rightarrow> max 1 (min m k))"

text \<open>\<open>Read\<close> into a buffer of \<open>k\<close> bytes: \<^const>\<open>None\<close> is the error at the end of the stream
  (or at the deadline).\<close>

definition conn_read :: "nat \<Rightarrow> conn \<Rightarrow> byte list option \<times> conn" where
  "conn_read k c =
     (if k = 0 then (Some [], c)
      else if cn_in c = [] then (None, c)
      else (Some (take (chunk k c) (cn_in c)),
            c\<lparr>cn_in := drop (chunk k c) (cn_in c), cn_chunks := drop 1 (cn_chunks c)\<rparr>))"

definition conn_write :: "byte list \<Rightarrow> conn \<Rightarrow> conn" where
  "conn_write bs c = c\<lparr>cn_out := cn_out c @ bs\<rparr>"

record peek_conn =
  pk_conn :: conn
  pk_recorded :: "byte list"

definition peek_read :: "nat \<Rightarrow> peek_conn \<Rightarrow> byte list option \<times> peek_conn" where
  "peek_read k p =
     (case conn_read k (pk_conn p) of
        (None, c) \<Rightarrow> (None, p\<lparr>pk_conn := c\<rparr>)
      | (Some bs, c) \<Rightarrow> (Some bs, p\<lparr>pk_conn := c,
           pk_recorded := (if bs \<noteq> [] then pk_recorded p @ bs else pk_recorded p)\<rparr>))"

definition peek_write :: "byte list \<Rightarrow> peek_conn \<Rightarrow> nat \<times> peek_conn" where
  "peek_write bs p = (length bs, p)"

record prefix_conn =
  px_conn :: conn
  px_prefix :: "byte list"
  px_off :: nat

definition prefix_read :: "nat \<Rightarrow> prefix_conn \<Rightarrow> byte list option \<times> prefix_conn" where
  "prefix_read k p =
     (if px_off p < length (px_prefix p) then
        (let bs = take k (drop (px_off p) (px_prefix p))
         in (Some bs, p\<lparr>px_off := px_off p + length bs\<rparr>))
      else (case conn_read k (px_conn p) of (r, c) \<Rightarrow> (r, p\<lparr>px_conn := c\<rparr>)))"

section \<open>Peeking the server name\<close>

text \<open>What the handshake does next, given all it has read: read up to \<open>k + 1\<close> bytes, write
  (an alert), or stop with the server name it found.\<close>

datatype handshake_step = HsRead nat | HsDone "byte list" string

type_synonym handshake = "byte list \<Rightarrow> handshake_step"

function peek_loop :: "handshake \<Rightarrow> peek_conn \<Rightarrow> string \<times> peek_conn" where
  "peek_loop hs p =
     (case hs (pk_recorded p) of
        HsDone alert sni \<Rightarrow> (sni, snd (peek_write alert p))
      | HsRead k \<Rightarrow>
          (case peek_read (Suc k) p of
             (None, p') \<Rightarrow> ([], p')
           | (Some bs, p') \<Rightarrow> peek_loop hs p'))"
  by pat_completeness auto

lemma chunk_pos: "0 < chunk k c"
  by (auto simp: chunk_def max_def split: list.split)

lemma drop_length_take: "drop (length (take k d)) d = drop k d"
  by (cases "k \<le> length d") auto

lemma peek_read_Some:
  assumes "peek_read (Suc k) p = (Some bs, p')"
  shows "bs \<noteq> [] \<and> cn_in (pk_conn p) = bs @ cn_in (pk_conn p') \<and> pk_recorded p' = pk_recorded p @ bs
    \<and> cn_out (pk_conn p') = cn_out (pk_conn p)"
proof -
  have "cn_in (pk_conn p) \<noteq> [] \<Longrightarrow> take (chunk (Suc k) (pk_conn p)) (cn_in (pk_conn p)) \<noteq> []"
    using chunk_pos [of "Suc k" "pk_conn p"] by simp
  with assms show ?thesis by (auto simp: peek_read_def conn_read_def split: prod.splits if_splits)
qed

lemma peek_read_None:
  "peek_read (Suc k) p = (None, p') \<Longrightarrow> p' = p"
  by (auto simp: peek_read_def conn_read_def split: prod.splits if_splits)

termination peek_loop
proof (relation "measure (\<lambda>(hs, p). length (cn_in (pk_conn p)))", goal_cases)
  case (2 hs p k r p' bs)
  then have "peek_read (Suc k) p = (Some bs, p')" by simp
  from peek_read_Some [OF this] show ?case by simp
qed simp

declare peek_loop.simps [simp del]

definition peekClientHelloSNI :: "handshake \<Rightarrow> conn \<Rightarrow> string \<times> byte list \<times> conn" where
  "peekClientHelloSNI hs c =
     (let (sni, p) = peek_loop hs \<lparr>pk_conn = c, pk_recorded = []\<rparr> in (sni, pk_recorded p, pk_conn p))"

text \<open>Peeking loses nothing and says nothing: what was recorded followed by what is still to
  come is what was to come before, and nothing was written to the client.\<close>

lemma peek_loop_stream:
  "peek_loop hs p = (sni, p') \<Longrightarrow>
     pk_recorded p' @ cn_in (pk_conn p') = pk_recorded p @ cn_in (pk_conn p)
     \<and> cn_out (pk_conn p') = cn_out (pk_conn p)"
proof (induction hs p arbitrary: sni p' rule: peek_loop.induct)
  case (1 hs p)
  show ?case
  proof (cases "hs (pk_recorded p)")
    case (HsDone a n)
    with "1.prems" show ?thesis by (auto simp: peek_loop.simps [of hs p] peek_write_def)
  next
    case (HsRead k)
    obtain r p1 where r: "peek_read (Suc k) p = (r, p1)" by fastforce
    show ?thesis
    proof (cases r)
      case None
      with "1.prems" HsRead r show ?thesis
        by (auto simp: peek_loop.simps [of hs p] dest: peek_read_None)
    next
      case (Some bs)
      with "1.prems" HsRead r have l: "peek_loop hs p1 = (sni, p')" by (simp add: peek_loop.simps [of hs p])
      from "1.IH" [OF HsRead r [symmetric] Some l] r Some peek_read_Some [of k p bs p1] show ?thesis by simp
    qed
  qed
qed

lemma peek_stream:
  assumes "peekClientHelloSNI hs c = (sni, recorded, c')"
  shows "recorded @ cn_in c' = cn_in c \<and> cn_out c' = cn_out c"
  using assms peek_loop_stream [of hs "\<lparr>pk_conn = c, pk_recorded = []\<rparr>"]
  by (auto simp: peekClientHelloSNI_def split: prod.splits)

section \<open>Replaying\<close>

text \<open>Reads of the given sizes, up to the first error.\<close>

fun read_seq :: "nat list \<Rightarrow> prefix_conn \<Rightarrow> byte list \<times> prefix_conn" where
  "read_seq [] p = ([], p)"
| "read_seq (k # ks) p =
     (case prefix_read k p of
        (None, p') \<Rightarrow> ([], p')
      | (Some bs, p') \<Rightarrow> (let (rest, p'') = read_seq ks p' in (bs @ rest, p'')))"

definition pending :: "prefix_conn \<Rightarrow> byte list" where
  "pending p = drop (px_off p) (px_prefix p) @ cn_in (px_conn p)"

lemma prefix_read_pending:
  "prefix_read k p = (r, p') \<Longrightarrow> pending p = (case r of None \<Rightarrow> [] | Some bs \<Rightarrow> bs) @ pending p'"
proof (cases "px_off p < length (px_prefix p)")
  case True
  let ?d = "drop (px_off p) (px_prefix p)"
  have "drop (px_off p + length (take k ?d)) (px_prefix p) = drop k ?d"
    by (metis add.commute drop_drop drop_length_take)
  then have d: "?d = take k ?d @ drop (px_off p + length (take k ?d)) (px_prefix p)"
    by (metis append_take_drop_id)
  assume "prefix_read k p = (r, p')"
  with True have "r = Some (take k ?d)" "p' = p\<lparr>px_off := px_off p + length (take k ?d)\<rparr>"
    by (simp_all add: prefix_read_def Let_def)
  with d show ?thesis by (simp add: pending_def del: length_take)
next
  case False
  moreover assume "prefix_read k p = (r, p')"
  ultimately show ?thesis
    by (auto simp: prefix_read_def pending_def conn_read_def split: if_splits)
qed

lemma read_seq_stream: "read_seq ks p = (bs, p') \<Longrightarrow> pending p = bs @ pending p'"
proof (induction ks arbitrary: p bs)
  case (Cons k ks)
  obtain r p1 where r: "prefix_read k p = (r, p1)" by fastforce
  with Cons prefix_read_pending [OF r] show ?case
    by (cases r) (auto split: prod.splits)
qed simp

text \<open>A read on a connection with bytes left returns some.\<close>

lemma prefix_read_progress:
  assumes "0 < k" "pending p \<noteq> []"
  shows "\<exists>bs p'. prefix_read k p = (Some bs, p') \<and> bs \<noteq> []"
proof (cases "px_off p < length (px_prefix p)")
  case True
  then show ?thesis using assms(1) by (simp add: prefix_read_def Let_def)
next
  case False
  with chunk_pos [of k "px_conn p"] assms show ?thesis by (simp add: prefix_read_def pending_def conn_read_def)
qed

text \<open>Enough non-empty reads deliver the whole stream.\<close>

lemma read_seq_all:
  "\<forall>k\<in>set ks. 0 < k \<Longrightarrow> length (pending p) \<le> length ks \<Longrightarrow> fst (read_seq ks p) = pending p"
proof (induction ks arbitrary: p)
  case (Cons k ks)
  show ?case
  proof (cases "pending p = []")
    case True
    obtain bs p' where "read_seq (k # ks) p = (bs, p')" by fastforce
    with read_seq_stream [OF this] True show ?thesis by simp
  next
    case False
    with Cons.prems(1) obtain bs p1 where r: "prefix_read k p = (Some bs, p1)" "bs \<noteq> []"
      using prefix_read_progress [of k p] by auto
    have s: "pending p = bs @ pending p1" using prefix_read_pending [OF r(1)] by simp
    with r(2) Cons.prems have "length (pending p1) \<le> length ks" by (cases bs) auto
    with Cons.IH [of p1] Cons.prems(1) have "fst (read_seq ks p1) = pending p1" by simp
    with r(1) s show ?thesis by (simp add: split_beta)
  qed
qed simp

section \<open>Splicing to a backend\<close>

text \<open>What the outside answers: whether the dial succeeds, after how many bytes the write of
  the header or of the recorded bytes fails if it does, and what each side sends until its
  direction ends.\<close>

record relay_env =
  re_dial :: bool
  re_remote :: "tcp_addr option"
  re_local :: "tcp_addr option"
  re_header_fails :: "nat option"
  re_prefix_fails :: "nat option"
  re_down :: "byte list"

record relay_result =
  rr_dialed :: bool
  rr_to_backend :: "byte list"
  rr_to_client :: "byte list"

definition header_for :: "bool \<Rightarrow> relay_env \<Rightarrow> byte list" where
  "header_for sendProxy env =
     (if sendProxy then (case proxyProtoV2Header (re_remote env) (re_local env) of None \<Rightarrow> [] | Some h \<Rightarrow> h)
      else [])"

definition spliceTo :: "relay_env \<Rightarrow> conn \<Rightarrow> byte list \<Rightarrow> bool \<Rightarrow> relay_result" where
  "spliceTo env client prefix sendProxy =
     (if \<not> re_dial env then \<lparr>rr_dialed = False, rr_to_backend = [], rr_to_client = []\<rparr>
      else (let h = header_for sendProxy env
        in case (if h = [] then None else re_header_fails env) of
             Some n \<Rightarrow> \<lparr>rr_dialed = True, rr_to_backend = take n h, rr_to_client = []\<rparr>
           | None \<Rightarrow>
               (case (if prefix = [] then None else re_prefix_fails env) of
                  Some n \<Rightarrow> \<lparr>rr_dialed = True, rr_to_backend = h @ take n prefix, rr_to_client = []\<rparr>
                | None \<Rightarrow> \<lparr>rr_dialed = True, rr_to_backend = h @ prefix @ cn_in client,
                           rr_to_client = re_down env\<rparr>)))"

section \<open>The listener\<close>

datatype sniDecision = ActAccept | ActPassthrough string bool | ActDrop

datatype fate =
    Spliced string relay_result
  | Closed
  | Delivered prefix_conn

text \<open>\<open>handle\<close> up to the point where an accepted connection waits to be taken.\<close>

definition handle :: "handshake \<Rightarrow> (string \<Rightarrow> sniDecision) \<Rightarrow> (string \<Rightarrow> relay_env) \<Rightarrow> conn \<Rightarrow> fate" where
  "handle hs decide env c =
     (let (sni, recorded, c') = peekClientHelloSNI hs c
      in case decide sni of
           ActPassthrough target proxyProto \<Rightarrow> Spliced target (spliceTo (env target) c' recorded proxyProto)
         | ActDrop \<Rightarrow> Closed
         | ActAccept \<Rightarrow> Delivered \<lparr>px_conn = c', px_prefix = recorded, px_off = 0\<rparr>)"

text \<open>The backend of a passthrough connection receives the header, if asked for, and then the
  client's stream from its first byte; a delivered connection replays it; a client that is
  spliced or delivered has been sent nothing by the peek.\<close>

lemma handle_passthrough:
  assumes "decide (fst (peekClientHelloSNI hs c)) = ActPassthrough target pp"
    and "re_dial (env target)" "re_header_fails (env target) = None" "re_prefix_fails (env target) = None"
  shows "\<exists>r. handle hs decide env c = Spliced target r
    \<and> rr_to_backend r = header_for pp (env target) @ cn_in c \<and> rr_to_client r = re_down (env target)"
proof -
  obtain sni recorded c' where p: "peekClientHelloSNI hs c = (sni, recorded, c')" using prod_cases3 by blast
  with assms peek_stream [OF p] show ?thesis by (auto simp: handle_def spliceTo_def Let_def)
qed

lemma handle_accept:
  assumes "decide (fst (peekClientHelloSNI hs c)) = ActAccept"
  shows "\<exists>p. handle hs decide env c = Delivered p \<and> pending p = cn_in c \<and> cn_out (px_conn p) = cn_out c"
proof -
  obtain sni recorded c' where p: "peekClientHelloSNI hs c = (sni, recorded, c')" using prod_cases3 by blast
  with assms peek_stream [OF p] show ?thesis by (simp add: handle_def pending_def)
qed

section \<open>The listener as a state machine\<close>

text \<open>The goroutines around one listener: the accept loop, one \<open>handle\<close> for every connection it
  took, and the server that calls \<open>Accept\<close> (its consumer). A connection that is to be served waits
  at the \<open>select\<close> of \<open>handle\<close> until the consumer takes it or \<open>done\<close> is closed. \<open>Close\<close> is two
  steps, closing \<open>done\<close> and then the inner listener; between them the loop may still take a
  connection, and it goes on until the inner \<open>Accept\<close> gives an error, on which it closes \<open>done\<close>
  itself. Once \<open>done\<close> is closed the \<open>select\<close> of \<open>Accept\<close> may hand out a waiting connection or tell
  the consumer that the listener is closed, on which it stops calling.\<close>

datatype final = FSpliced string relay_result | FClosed | FServed prefix_conn

record listener =
  ls_done :: bool
  ls_inner :: bool
  ls_loop :: bool
  ls_consumer :: bool
  ls_next :: nat
  ls_peeking :: "(nat \<times> conn) list"
  ls_waiting :: "(nat \<times> conn \<times> prefix_conn) list"
  ls_final :: "(nat \<times> conn \<times> final) list"

definition newSNIListener :: listener where
  "newSNIListener = \<lparr>ls_done = False, ls_inner = True, ls_loop = True, ls_consumer = True, ls_next = 0, ls_peeking = [], ls_waiting = [], ls_final = []\<rparr>"

inductive sni_step ::
  "handshake \<Rightarrow> (string \<Rightarrow> sniDecision) \<Rightarrow> (string \<Rightarrow> relay_env) \<Rightarrow> listener \<Rightarrow> listener \<Rightarrow> bool"
  for hs decide env where
  step_arrive: "ls_loop l \<Longrightarrow> ls_inner l \<Longrightarrow>
     sni_step hs decide env l (l\<lparr>ls_next := Suc (ls_next l), ls_peeking := (ls_next l, c) # ls_peeking l\<rparr>)"
| step_spliced: "ls_peeking l = us @ (i, c) # vs \<Longrightarrow> handle hs decide env c = Spliced t r \<Longrightarrow>
     sni_step hs decide env l (l\<lparr>ls_peeking := us @ vs, ls_final := (i, c, FSpliced t r) # ls_final l\<rparr>)"
| step_dropped: "ls_peeking l = us @ (i, c) # vs \<Longrightarrow> handle hs decide env c = Closed \<Longrightarrow>
     sni_step hs decide env l (l\<lparr>ls_peeking := us @ vs, ls_final := (i, c, FClosed) # ls_final l\<rparr>)"
| step_ready: "ls_peeking l = us @ (i, c) # vs \<Longrightarrow> handle hs decide env c = Delivered p \<Longrightarrow>
     sni_step hs decide env l (l\<lparr>ls_peeking := us @ vs, ls_waiting := (i, c, p) # ls_waiting l\<rparr>)"
| step_accept: "ls_waiting l = us @ (i, c, p) # vs \<Longrightarrow> ls_consumer l \<Longrightarrow>
     sni_step hs decide env l (l\<lparr>ls_waiting := us @ vs, ls_final := (i, c, FServed p) # ls_final l\<rparr>)"
| step_abandon: "ls_waiting l = us @ (i, c, p) # vs \<Longrightarrow> ls_done l \<Longrightarrow>
     sni_step hs decide env l (l\<lparr>ls_waiting := us @ vs, ls_final := (i, c, FClosed) # ls_final l\<rparr>)"
| step_accept_ends: "ls_consumer l \<Longrightarrow> ls_done l \<Longrightarrow> sni_step hs decide env l (l\<lparr>ls_consumer := False\<rparr>)"
| step_loop_ends: "ls_loop l \<Longrightarrow> sni_step hs decide env l (l\<lparr>ls_loop := False, ls_done := True\<rparr>)"
| step_close: "sni_step hs decide env l (l\<lparr>ls_done := True\<rparr>)"
| step_close_inner: "ls_done l \<Longrightarrow> sni_step hs decide env l (l\<lparr>ls_inner := False\<rparr>)"

inductive sni_reach ::
  "handshake \<Rightarrow> (string \<Rightarrow> sniDecision) \<Rightarrow> (string \<Rightarrow> relay_env) \<Rightarrow> listener \<Rightarrow> bool"
  for hs decide env where
  sni_start: "sni_reach hs decide env newSNIListener"
| sni_next: "sni_reach hs decide env l \<Longrightarrow> sni_step hs decide env l l' \<Longrightarrow> sni_reach hs decide env l'"

inductive_cases sni_stepE: "sni_step hs decide env l l'"

definition ids :: "listener \<Rightarrow> nat list" where
  "ids l = map fst (ls_peeking l) @ map fst (ls_waiting l) @ map fst (ls_final l)"

definition decided :: "handshake \<Rightarrow> (string \<Rightarrow> sniDecision) \<Rightarrow> conn \<Rightarrow> sniDecision" where
  "decided hs decide c = decide (fst (peekClientHelloSNI hs c))"

fun final_ok :: "handshake \<Rightarrow> (string \<Rightarrow> sniDecision) \<Rightarrow> bool \<Rightarrow> nat \<times> conn \<times> final \<Rightarrow> bool" where
  "final_ok hs decide dn (i, c, FServed p) \<longleftrightarrow> decided hs decide c = ActAccept \<and> pending p = cn_in c"
| "final_ok hs decide dn (i, c, FSpliced t r) \<longleftrightarrow> (\<exists>pp. decided hs decide c = ActPassthrough t pp)"
| "final_ok hs decide dn (i, c, FClosed) \<longleftrightarrow>
     decided hs decide c = ActDrop \<or> decided hs decide c = ActAccept \<and> dn"

definition sni_ok :: "handshake \<Rightarrow> (string \<Rightarrow> sniDecision) \<Rightarrow> (string \<Rightarrow> relay_env) \<Rightarrow> listener \<Rightarrow> bool" where
  "sni_ok hs decide env l \<longleftrightarrow>
     distinct (ids l) \<and> set (ids l) = {..<ls_next l}
     \<and> (\<forall>(i, c, p)\<in>set (ls_waiting l). decided hs decide c = ActAccept \<and> pending p = cn_in c)
     \<and> (\<forall>e\<in>set (ls_final l). final_ok hs decide (ls_done l) e)"

lemma final_ok_done: "final_ok hs decide d e \<Longrightarrow> final_ok hs decide True e"
  by (induction hs decide d e rule: final_ok.induct) auto

lemma handle_cases:
  "handle hs decide env c = Delivered p \<Longrightarrow> decided hs decide c = ActAccept \<and> pending p = cn_in c"
  "handle hs decide env c = Spliced t r \<Longrightarrow> \<exists>pp. decided hs decide c = ActPassthrough t pp"
  "handle hs decide env c = Closed \<Longrightarrow> decided hs decide c = ActDrop"
  using handle_accept [of decide hs c env]
  by (auto simp: handle_def decided_def split: prod.splits sniDecision.splits)

lemma sni_step_ok: "sni_step hs decide env l l' \<Longrightarrow> sni_ok hs decide env l \<Longrightarrow> sni_ok hs decide env l'"
proof (induction rule: sni_step.induct)
  case (step_arrive l c)
  then show ?case by (auto simp: sni_ok_def ids_def lessThan_Suc)
next
  case (step_spliced l us i c vs t r)
  with handle_cases(2) [OF step_spliced(2)] show ?case by (auto simp: sni_ok_def ids_def)
next
  case (step_dropped l us i c vs)
  with handle_cases(3) [OF step_dropped(2)] show ?case by (auto simp: sni_ok_def ids_def)
next
  case (step_ready l us i c vs p)
  with handle_cases(1) [OF step_ready(2)] show ?case by (auto simp: sni_ok_def ids_def)
next
  case (step_accept l us i c p vs)
  then show ?case by (auto simp: sni_ok_def ids_def)
next
  case (step_abandon l us i c p vs)
  then show ?case by (auto simp: sni_ok_def ids_def)
next
  case (step_loop_ends l)
  then show ?case by (auto simp: sni_ok_def ids_def dest: final_ok_done)
next
  case (step_close l)
  then show ?case by (auto simp: sni_ok_def ids_def dest: final_ok_done)
qed (auto simp: sni_ok_def ids_def)

lemma sni_reach_ok: "sni_reach hs decide env l \<Longrightarrow> sni_ok hs decide env l"
proof (induction rule: sni_reach.induct)
  case sni_start
  then show ?case by (simp add: sni_ok_def ids_def newSNIListener_def)
qed (rule sni_step_ok)

text \<open>Once the listener is done, a state in which no goroutine can move has resolved every
  connection, and the accept loop and the consumer have ended.\<close>

lemma stuck_step: "\<forall>l'. sni_step hs decide env l l' \<longrightarrow> l' = l \<Longrightarrow> sni_step hs decide env l l' \<Longrightarrow> f l' = f l"
  by blast

lemma sni_quiet:
  assumes "ls_done l" and quiet: "\<And>l'. sni_step hs decide env l l' \<Longrightarrow> l' = l"
  shows "ls_peeking l = [] \<and> ls_waiting l = [] \<and> \<not> ls_loop l \<and> \<not> ls_consumer l"
proof (intro conjI)
  have "\<forall>l'. sni_step hs decide env l l' \<longrightarrow> l' = l" using quiet by blast
  note stuck = stuck_step [OF this]
  show "\<not> ls_loop l" using stuck [OF step_loop_ends, of ls_loop] by auto
  show "\<not> ls_consumer l" using stuck [OF step_accept_ends, of ls_consumer] assms(1) by auto
  show "ls_waiting l = []"
  proof (cases "ls_waiting l")
    case (Cons w ws)
    obtain i c p where "ls_waiting l = [] @ (i, c, p) # ws" using Cons by (cases w) auto
    from stuck [OF step_abandon [OF this assms(1)], of ls_waiting] Cons show ?thesis by simp
  qed
  show "ls_peeking l = []"
  proof (cases "ls_peeking l")
    case (Cons w vs)
    obtain i c where w: "ls_peeking l = [] @ (i, c) # vs" using Cons by (cases w) auto
    then show ?thesis
      using stuck [OF step_spliced [OF w], of _ _ ls_peeking] stuck [OF step_dropped [OF w], of ls_peeking]
        stuck [OF step_ready [OF w], of _ ls_peeking]
      by (cases "handle hs decide env c") auto
  qed
qed

lemmas [model_eval] = chunk_def conn_read_def conn_write_def peek_read_def peek_write_def prefix_read_def
  peek_loop.simps peekClientHelloSNI_def header_for_def spliceTo_def handle_def newSNIListener_def

end
