(* ===== verification/Forward.thy ===== *)
theory Forward
  imports Reconcile Types Sni
begin

text \<open>
  The L4 forwarder of \<open>forward.go\<close>: opening and closing the sockets of one forward, the
  reconciliation of the running listeners with the configuration, the status it reports,
  and the relay of a TCP connection. The process's listening sockets are a list of
  network and address; what the operating system answers to a \<open>Listen\<close>, given the
  sockets the process holds already, and to the resolution of a UDP target are parameters.
\<close>

type_synonym socket = "string \<times> string"
type_synonym os_listen = "socket list \<Rightarrow> socket \<Rightarrow> string option"
type_synonym os_resolve = "string \<Rightarrow> string option"

definition net_listen :: "os_listen \<Rightarrow> socket \<Rightarrow> socket list \<Rightarrow> string option \<times> socket list" where
  "net_listen refuse sk held =
     (case refuse held sk of Some e \<Rightarrow> (Some e, held) | None \<Rightarrow> (None, sk # held))"

lemma net_listen_free:
  assumes "\<forall>held sk. refuse held sk = None"
  shows "net_listen refuse sk held = (None, sk # held)"
  using assms [rule_format, of held sk] by (simp add: net_listen_def)

section \<open>One forward's listener\<close>

record fwd_listener =
  fl_fwd :: forward
  fl_ln :: bool
  fl_pc :: bool

definition beginTCP :: "os_listen \<Rightarrow> fwd_listener \<Rightarrow> socket list \<Rightarrow> string option \<times> fwd_listener \<times> socket list" where
  "beginTCP refuse l held =
     (case net_listen refuse (''tcp'', fw_listen (fl_fwd l)) held of
        (Some e, held') \<Rightarrow> (Some e, l, held')
      | (None, held') \<Rightarrow> (None, l\<lparr>fl_ln := True\<rparr>, held'))"

definition beginUDP ::
  "os_listen \<Rightarrow> os_resolve \<Rightarrow> fwd_listener \<Rightarrow> socket list \<Rightarrow> string option \<times> fwd_listener \<times> socket list" where
  "beginUDP refuse resolve l held =
     (case resolve (fw_target (fl_fwd l)) of
        Some e \<Rightarrow> (Some e, l, held)
      | None \<Rightarrow>
          (case net_listen refuse (''udp'', fw_listen (fl_fwd l)) held of
             (Some e, held') \<Rightarrow> (Some e, l, held')
           | (None, held') \<Rightarrow> (None, l\<lparr>fl_pc := True\<rparr>, held')))"

definition stop_listener :: "fwd_listener \<Rightarrow> socket list \<Rightarrow> socket list" where
  "stop_listener l held =
     (let held1 = (if fl_ln l then remove1 (''tcp'', fw_listen (fl_fwd l)) held else held)
      in if fl_pc l then remove1 (''udp'', fw_listen (fl_fwd l)) held1 else held1)"

definition startListener ::
  "os_listen \<Rightarrow> os_resolve \<Rightarrow> forward \<Rightarrow> socket list \<Rightarrow> (string + fwd_listener) \<times> socket list" where
  "startListener refuse resolve fw held =
     (let l0 = \<lparr>fl_fwd = fw, fl_ln = False, fl_pc = False\<rparr>
      in case (if fw_proto fw \<noteq> ''udp'' then beginTCP refuse l0 held else (None, l0, held)) of
           (Some e, l1, held1) \<Rightarrow> (Inl e, stop_listener l1 held1)
         | (None, l1, held1) \<Rightarrow>
             (case (if fw_proto fw = ''udp'' \<or> fw_proto fw = ''tcp+udp''
                    then beginUDP refuse resolve l1 held1 else (None, l1, held1)) of
                (Some e, l2, held2) \<Rightarrow> (Inl e, stop_listener l2 held2)
              | (None, l2, held2) \<Rightarrow> (Inr l2, held2)))"

text \<open>A running listener is kept when what it was opened with is still what is asked.\<close>

definition same_listener :: "forward \<Rightarrow> fwd_listener \<Rightarrow> bool" where
  "same_listener w l \<longleftrightarrow> fw_proto w = fw_proto (fl_fwd l) \<and> fw_listen w = fw_listen (fl_fwd l)
     \<and> fw_target w = fw_target (fl_fwd l) \<and> fw_proxy_proto w = fw_proxy_proto (fl_fwd l)"

definition listener_sockets :: "fwd_listener \<Rightarrow> socket multiset" where
  "listener_sockets l =
     (if fl_ln l then {#(''tcp'', fw_listen (fl_fwd l))#} else {#})
     + (if fl_pc l then {#(''udp'', fw_listen (fl_fwd l))#} else {#})"

section \<open>The forwarder\<close>

record forwarder =
  fr_active :: "(string \<times> fwd_listener) list"
  fr_status :: "(string \<times> string) list"
  fr_held :: "socket list"

definition NewForwarder :: "socket list \<Rightarrow> forwarder" where
  "NewForwarder held = \<lparr>fr_active = [], fr_status = [], fr_held = held\<rparr>"

fun status_text :: "string outcome \<Rightarrow> string" where
  "status_text Disabled = ''disabled''"
| "status_text Running = []"
| "status_text (Failed e) = ''error: '' @ e"

text \<open>The writes to the fresh status map, in order.\<close>

definition status_map :: "(string \<times> string outcome) list \<Rightarrow> (string \<times> string) list" where
  "status_map out = fold (\<lambda>(k, r). AList.update k (status_text r)) out []"

definition ForwarderApply :: "os_listen \<Rightarrow> os_resolve \<Rightarrow> forward list \<Rightarrow> forwarder \<Rightarrow> forwarder" where
  "ForwarderApply refuse resolve fws f =
     (let (act, out, held) = reconcile fw_name fw_enabled same_listener (startListener refuse resolve)
            stop_listener fws (fr_active f) (fr_held f)
      in \<lparr>fr_active = act, fr_status = status_map out, fr_held = held\<rparr>)"

definition ForwarderStatus :: "forwarder \<Rightarrow> (string \<times> string) list" where
  "ForwarderStatus f = fr_status f"

definition ForwarderShutdown :: "forwarder \<Rightarrow> forwarder" where
  "ForwarderShutdown f =
     (let (act, held) = stop_loop (\<lambda>_ _. False) stop_listener (fr_active f) (fr_held f)
      in f\<lparr>fr_active := act, fr_held := held\<rparr>)"

text \<open>\<open>handleTCP\<close>: what the target of a relayed connection receives.\<close>

definition handleTCP :: "relay_env \<Rightarrow> forward \<Rightarrow> byte list \<Rightarrow> relay_result" where
  "handleTCP env fw up =
     (if \<not> re_dial env then \<lparr>rr_dialed = False, rr_to_backend = [], rr_to_client = []\<rparr>
      else (let h = header_for (fw_proxy_proto fw) env
        in case (if h = [] then None else re_header_fails env) of
             Some n \<Rightarrow> \<lparr>rr_dialed = True, rr_to_backend = take n h, rr_to_client = []\<rparr>
           | None \<Rightarrow> \<lparr>rr_dialed = True, rr_to_backend = h @ up, rr_to_client = re_down env\<rparr>))"

section \<open>Starting and stopping meet the contract\<close>

lemma stop_listener_mset:
  "listener_sockets l \<subseteq># mset held \<Longrightarrow> mset (stop_listener l held) = mset held - listener_sockets l"
  by (auto simp: stop_listener_def listener_sockets_def Let_def diff_diff_add)

lemma startListener_cases:
  assumes "startListener refuse resolve fw held = (r, held')"
  shows "case r of
      Inl e \<Rightarrow> mset held' = mset held
    | Inr l \<Rightarrow> fl_fwd l = fw \<and> mset held' = mset held + listener_sockets l
        \<and> (fl_ln l \<longleftrightarrow> fw_proto fw \<noteq> ''udp'')
        \<and> (fl_pc l \<longleftrightarrow> fw_proto fw = ''udp'' \<or> fw_proto fw = ''tcp+udp'')"
  using assms
  by (auto simp: startListener_def beginTCP_def beginUDP_def net_listen_def stop_listener_def
      listener_sockets_def Let_def split: if_splits option.splits prod.splits sum.splits)

interpretation fwd: reconciler fw_name fw_enabled same_listener "startListener refuse resolve"
    stop_listener listener_sockets mset
  for refuse :: os_listen and resolve :: os_resolve
proof unfold_locales
  fix w l n n' e
  show "startListener refuse resolve w n = (Inr l, n') \<Longrightarrow>
      same_listener w l \<and> mset n' = mset n + listener_sockets l"
    by (auto simp: same_listener_def dest: startListener_cases)
  show "startListener refuse resolve w n = (Inl e, n') \<Longrightarrow> mset n' = mset n"
    by (auto dest: startListener_cases)
  show "listener_sockets l \<subseteq># mset n \<Longrightarrow> mset (stop_listener l n) = mset n - listener_sockets l"
    by (rule stop_listener_mset)
qed

section \<open>What reconciling gives\<close>

text \<open>The books of the forwarder: the process holds exactly the sockets of the listeners in
  the map.\<close>

definition forwarder_ok :: "forwarder \<Rightarrow> bool" where
  "forwarder_ok f \<longleftrightarrow> mset (fr_held f) = sum_list (map (listener_sockets \<circ> snd) (fr_active f))
     \<and> distinct (map fst (fr_active f))"

lemma forwarder_books: "forwarder_ok f \<longleftrightarrow> fwd.books (fr_active f) (fr_held f)"
  by (simp add: forwarder_ok_def fwd.books_def fwd.owned_by_def)

lemma ForwarderApply_ok: "forwarder_ok f \<Longrightarrow> forwarder_ok (ForwarderApply refuse resolve fws f)"
  by (auto simp: forwarder_books ForwarderApply_def split: prod.splits
      intro: fwd.reconcile_books [where ws = fws])

lemma ForwarderShutdown_ok:
  assumes "forwarder_ok f"
  shows "fr_active (ForwarderShutdown f) = [] \<and> fr_held (ForwarderShutdown f) = []"
proof -
  obtain act held where s: "stop_loop (\<lambda>_ _. False) stop_listener (fr_active f) (fr_held f) = (act, held)"
    by fastforce
  have "act = []"
    using stop_loop_filter [of "\<lambda>_ _. False" stop_listener "fr_active f" "fr_held f"] s
    by (simp add: case_prod_beta)
  moreover have "mset held = fwd.owned_by act + {#}"
    using fwd.stop_loop_held [OF s, of "{#}"] assms by (simp add: forwarder_books fwd.books_def)
  ultimately show ?thesis using s by (simp add: ForwarderShutdown_def)
qed

lemma map_of_fold_update:
  "distinct (map fst out) \<Longrightarrow>
     map_of (fold (\<lambda>(k, r). AList.update k (h r)) out m) k =
       (case map_of out k of None \<Rightarrow> map_of m k | Some r \<Rightarrow> Some (h r))"
proof (induction out arbitrary: m)
  case (Cons kr out)
  obtain j r where kr: "kr = (j, r)" by (cases kr)
  have "map_of out j = None" using Cons.prems kr by (simp add: map_of_eq_None_iff)
  with Cons kr show ?case by (auto simp: update_conv' split: option.splits)
qed simp

lemma status_map_of: "distinct (map fst out) \<Longrightarrow> map_of (status_map out) k = map_option status_text (map_of out k)"
  by (simp add: status_map_def map_of_fold_update option.map_comp split: option.splits)

lemma ForwarderApply_active:
  assumes "distinct (map fw_name fws)" "(n, l) \<in> set (fr_active (ForwarderApply refuse resolve fws f))"
  shows "\<exists>w\<in>set fws. fw_name w = n \<and> fw_enabled w \<and> same_listener w l"
  using assms fwd.reconcile_active [of refuse resolve fws "fr_active f" "fr_held f"]
  by (auto simp: ForwarderApply_def split: prod.splits)

lemma ForwarderApply_status:
  fixes f :: forwarder and refuse :: os_listen and resolve :: os_resolve and fws :: "forward list"
  assumes "distinct (map fw_name fws)" "w \<in> set fws"
  defines "f' \<equiv> ForwarderApply refuse resolve fws f"
  shows "case map_of (fr_status f') (fw_name w) of
      None \<Rightarrow> False
    | Some s \<Rightarrow> (if \<not> fw_enabled w then s = ''disabled''
                else if fw_name w \<in> fst ` set (fr_active f') then s = []
                else (\<exists>e. s = ''error: '' @ e))"
proof -
  obtain act out held where r: "reconcile fw_name fw_enabled same_listener (startListener refuse resolve)
      stop_listener fws (fr_active f) (fr_held f) = (act, out, held)" using prod_cases3 by blast
  have "distinct (map fst out)" using fwd.reconcile_report_keys [OF r] assms(1) by simp
  from status_map_of [OF this, of "fw_name w"] fwd.reconcile_report [OF r assms(1,2)]
  show ?thesis
    by (auto simp: f'_def ForwarderApply_def r fwd.reported_def map_of_eq_None_iff split: if_splits)
qed

lemma ForwarderApply_keeps:
  assumes "distinct (map fw_name fws)" "(fw_name w, l) \<in> set (fr_active f)" "w \<in> set fws"
    and "fw_enabled w" "same_listener w l"
  shows "(fw_name w, l) \<in> set (fr_active (ForwarderApply refuse resolve fws f))"
  using fwd.reconcile_keeps [of refuse resolve fws "fr_active f" "fr_held f" _ _ _ "fw_name w" l w] assms
  by (auto simp: ForwarderApply_def split: prod.splits)

lemma ForwarderApply_idle:
  assumes "distinct (map fw_name fws)"
    and "\<forall>w\<in>set fws. fw_enabled w \<longrightarrow> fw_name w \<in> fst ` set (fr_active f)"
    and "\<forall>(n, l)\<in>set (fr_active f). \<exists>w\<in>set fws. fw_name w = n \<and> fw_enabled w \<and> same_listener w l"
  shows "fr_active (ForwarderApply refuse resolve fws f) = fr_active f
    \<and> fr_held (ForwarderApply refuse resolve fws f) = fr_held f"
proof -
  have "\<forall>w\<in>set fws. fw_enabled w \<longrightarrow> map_of (fr_active f) (fw_name w) \<noteq> None"
    using assms(2) by (auto simp: map_of_eq_None_iff)
  from fwd.reconcile_idle [OF assms(1) this assms(3), of refuse resolve "fr_held f"]
  show ?thesis by (auto simp: ForwarderApply_def)
qed

text \<open>When the system refuses nothing, every enabled forward runs.\<close>

lemma ForwarderApply_serves:
  assumes "\<forall>held sk. refuse held sk = None" "\<forall>a. resolve a = None" "w \<in> set fws" "fw_enabled w"
  shows "fw_name w \<in> fst ` set (fr_active (ForwarderApply refuse resolve fws f))"
proof -
  obtain act out held where r: "reconcile fw_name fw_enabled same_listener (startListener refuse resolve)
      stop_listener fws (fr_active f) (fr_held f) = (act, out, held)" using prod_cases3 by blast
  have "\<exists>l held'. startListener refuse resolve v held = (Inr l, held')" for v held
    using assms(2) by (simp add: startListener_def beginTCP_def beginUDP_def net_listen_free [OF assms(1)] Let_def)
  from reconcile_serves [OF r this assms(3,4)] show ?thesis by (simp add: ForwarderApply_def r)
qed

text \<open>The sockets of a listener follow its protocol.\<close>

definition proto_sockets :: "forward \<Rightarrow> socket multiset" where
  "proto_sockets w = (if fw_proto w \<noteq> ''udp'' then {#(''tcp'', fw_listen w)#} else {#})
     + (if fw_proto w = ''udp'' \<or> fw_proto w = ''tcp+udp'' then {#(''udp'', fw_listen w)#} else {#})"

definition listeners_ok :: "forwarder \<Rightarrow> bool" where
  "listeners_ok f \<longleftrightarrow> (\<forall>(n, l)\<in>set (fr_active f). fw_name (fl_fwd l) = n \<and> listener_sockets l = proto_sockets (fl_fwd l))"

lemma ForwarderApply_listeners_ok:
  assumes "listeners_ok f"
  shows "listeners_ok (ForwarderApply refuse resolve fws f)"
proof -
  obtain act out held where r: "reconcile fw_name fw_enabled same_listener (startListener refuse resolve)
      stop_listener fws (fr_active f) (fr_held f) = (act, out, held)" using prod_cases3 by blast
  have "fw_name (fl_fwd l) = n \<and> listener_sockets l = proto_sockets (fl_fwd l)" if "(n, l) \<in> set act" for n l
    using fwd.reconcile_origin [OF r that]
  proof
    assume "(n, l) \<in> set (fr_active f)"
    with assms show ?thesis by (auto simp: listeners_ok_def)
  next
    assume "\<exists>w\<in>set fws. \<exists>m m'. fw_name w = n \<and> startListener refuse resolve w m = (Inr l, m')"
    then show ?thesis
      by (auto dest!: startListener_cases simp: listener_sockets_def proto_sockets_def)
  qed
  then show ?thesis by (auto simp: listeners_ok_def ForwarderApply_def r)
qed

lemma same_listener_sockets: "same_listener w l \<Longrightarrow> proto_sockets (fl_fwd l) = proto_sockets w"
  by (simp add: same_listener_def proto_sockets_def)

text \<open>After an \<open>Apply\<close> the process holds, for every running forward, exactly the sockets the
  configured protocol and listen address ask for.\<close>

lemma ForwarderApply_sockets:
  fixes f :: forwarder and refuse :: os_listen and resolve :: os_resolve and fws :: "forward list"
  assumes "forwarder_ok f" "listeners_ok f" "distinct (map fw_name fws)"
  defines "f' \<equiv> ForwarderApply refuse resolve fws f"
  shows "mset (fr_held f') = (\<Sum>w\<leftarrow>filter (\<lambda>w. fw_name w \<in> fst ` set (fr_active f')) fws. proto_sockets w)"
proof -
  have ok: "forwarder_ok f'" "listeners_ok f'"
    unfolding f'_def by (rule ForwarderApply_ok [OF assms(1)], rule ForwarderApply_listeners_ok [OF assms(2)])
  have act: "\<exists>w\<in>set fws. fw_name w = n \<and> same_listener w l" if "(n, l) \<in> set (fr_active f')" for n l
    using ForwarderApply_active [OF assms(3)] that unfolding f'_def by blast
  let ?W = "filter (\<lambda>w. fw_name w \<in> fst ` set (fr_active f')) fws"
  let ?g = "\<lambda>n. proto_sockets (the (find (\<lambda>w. fw_name w = n) fws))"
  have find: "find (\<lambda>w. fw_name w = fw_name v) fws = Some v" if "v \<in> set fws" for v
    using assms(3) that by (induction fws) (auto simp: image_iff)
  have "mset (fr_held f') = (\<Sum>(n, l)\<leftarrow>fr_active f'. listener_sockets l)"
    using ok(1) by (simp add: forwarder_ok_def comp_def case_prod_unfold)
  also have "\<dots> = (\<Sum>(n, l)\<leftarrow>fr_active f'. ?g n)"
  proof (rule arg_cong [where f = sum_list], rule map_cong [OF refl], clarify)
    fix n l
    assume nl: "(n, l) \<in> set (fr_active f')"
    with act obtain w where "w \<in> set fws" "fw_name w = n" "same_listener w l" by blast
    with find [of w] nl ok(2) same_listener_sockets [of w l] show "listener_sockets l = ?g n"
      by (auto simp: listeners_ok_def)
  qed
  also have "\<dots> = (\<Sum>n\<leftarrow>map fst (fr_active f'). ?g n)" by (simp add: comp_def case_prod_unfold)
  also have "\<dots> = (\<Sum>n\<in>fst ` set (fr_active f'). ?g n)"
    using sum_list_distinct_conv_sum_set [of "map fst (fr_active f')" ?g] ok(1)
    by (simp add: forwarder_ok_def)
  also have "fst ` set (fr_active f') = set (map fw_name ?W)" using act by force
  also have "(\<Sum>n\<in>set (map fw_name ?W). ?g n) = (\<Sum>n\<leftarrow>map fw_name ?W. ?g n)"
    using assms(3) by (intro sum_list_distinct_conv_sum_set [symmetric] distinct_map_filter)
  also have "\<dots> = (\<Sum>w\<leftarrow>?W. proto_sockets w)"
    using find by (simp add: comp_def) (intro arg_cong [where f = sum_list] map_cong refl; simp)
  finally show ?thesis .
qed

lemmas [model_eval] = net_listen_def beginTCP_def beginUDP_def stop_listener_def startListener_def
  same_listener_def NewForwarder_def status_map_def ForwarderApply_def ForwarderStatus_def
  ForwarderShutdown_def handleTCP_def

end
