(* ===== verification/Domains.thy ===== *)
theory Domains
  imports StoreRouting Forward
begin

text \<open>
  The domain router of \<open>domains.go\<close>: the listeners on the ports of domain forwards
  other than the two main ports, reconciled with \<open>DomainPorts\<close>, and what each of them
  does with a connection and with a terminated request. Both read the store when the
  connection or request comes in. \<open>hostOnly\<close> is from \<open>main.go\<close>.
\<close>

definition hostOnly :: "string \<Rightarrow> string" where
  "hostOnly host = (case split_host_port host of Inr (h, p) \<Rightarrow> h | Inl e \<Rightarrow> host)"

record router =
  ro_tls :: bool
  ro_main :: int
  ro_http :: int
  ro_active :: "(int \<times> int) list"
  ro_held :: "socket list"

definition NewDomainRouter :: "bool \<Rightarrow> int \<Rightarrow> int \<Rightarrow> socket list \<Rightarrow> router" where
  "NewDomainRouter tls mainPort httpPort held =
     \<lparr>ro_tls = tls, ro_main = mainPort, ro_http = httpPort, ro_active = [], ro_held = held\<rparr>"

text \<open>A port server is known by its port, which names its socket.\<close>

definition port_socket :: "int \<Rightarrow> socket" where
  "port_socket p = (''tcp'', colon # format_int p)"

definition startPort :: "os_listen \<Rightarrow> int \<Rightarrow> socket list \<Rightarrow> (string + int) \<times> socket list" where
  "startPort refuse p held =
     (case net_listen refuse (port_socket p) held of
        (Some e, held') \<Rightarrow> (Inl e, held')
      | (None, held') \<Rightarrow> (Inr p, held'))"

definition stop_port :: "int \<Rightarrow> socket list \<Rightarrow> socket list" where
  "stop_port p held = remove1 (port_socket p) held"

definition wanted_ports :: "router \<Rightarrow> store \<Rightarrow> int list" where
  "wanted_ports r s = filter (\<lambda>p. p \<noteq> ro_main r \<and> p \<noteq> ro_http r) (DomainPorts s)"

definition RouterApply :: "os_listen \<Rightarrow> store \<Rightarrow> router \<Rightarrow> router" where
  "RouterApply refuse s r =
     (let (act, out, held) = reconcile (\<lambda>p. p) (\<lambda>_. True) (=) (startPort refuse) stop_port
            (wanted_ports r s) (ro_active r) (ro_held r)
      in r\<lparr>ro_active := act, ro_held := held\<rparr>)"

definition RouterShutdown :: "router \<Rightarrow> router" where
  "RouterShutdown r =
     (let (act, held) = stop_loop (\<lambda>_ _. False) stop_port (ro_active r) (ro_held r)
      in r\<lparr>ro_active := act, ro_held := held\<rparr>)"

text \<open>The decision on a new connection, on an extra port and on the main HTTPS port (the
  closure \<open>main\<close> wraps its listener with).\<close>

definition port_decide :: "bool \<Rightarrow> store \<Rightarrow> int \<Rightarrow> string \<Rightarrow> sniDecision" where
  "port_decide tls s p sni =
     (case MatchDomain s sni p of
        None \<Rightarrow> ActDrop
      | Some cp \<Rightarrow>
          if pf_manage (cp_fwd cp) then (if \<not> tls then ActDrop else ActAccept)
          else ActPassthrough (pf_target (cp_fwd cp)) (pf_proxy_proto (cp_fwd cp)))"

definition main_decide :: "store \<Rightarrow> int \<Rightarrow> string \<Rightarrow> sniDecision" where
  "main_decide s mainPort host =
     (case MatchDomain s host mainPort of
        Some cp \<Rightarrow> if \<not> pf_manage (cp_fwd cp)
          then ActPassthrough (pf_target (cp_fwd cp)) (pf_proxy_proto (cp_fwd cp)) else ActAccept
      | None \<Rightarrow> ActAccept)"

text \<open>The HTTP handler behind a port server: the proxy that serves the request, or not found.\<close>

definition port_handler :: "store \<Rightarrow> int \<Rightarrow> string \<Rightarrow> compiled_pf option" where
  "port_handler s p host =
     (case MatchDomain s (hostOnly host) p of
        Some cp \<Rightarrow> if pf_manage (cp_fwd cp) then Some cp else None
      | None \<Rightarrow> None)"

section \<open>The listeners\<close>

interpretation ports: reconciler "\<lambda>p. p" "\<lambda>_. True" "(=)" "startPort refuse" stop_port
    "\<lambda>p. {#port_socket p#}" mset
  for refuse :: os_listen
proof unfold_locales
  fix w l n n' e
  show "startPort refuse w n = (Inr l, n') \<Longrightarrow> w = l \<and> mset n' = mset n + {#port_socket l#}"
    by (auto simp: startPort_def net_listen_def split: option.splits)
  show "startPort refuse w n = (Inl e, n') \<Longrightarrow> mset n' = mset n"
    by (auto simp: startPort_def net_listen_def split: option.splits)
  show "{#port_socket l#} \<subseteq># mset n \<Longrightarrow> mset (stop_port l n) = mset n - {#port_socket l#}"
    by (simp add: stop_port_def)
qed

definition router_ok :: "router \<Rightarrow> bool" where
  "router_ok r \<longleftrightarrow> mset (ro_held r) = mset (map (port_socket \<circ> snd) (ro_active r))
     \<and> distinct (map fst (ro_active r)) \<and> (\<forall>(p, q)\<in>set (ro_active r). p = q)"

lemma sum_list_singletons: "(\<Sum>x\<leftarrow>xs. {#f x#}) = mset (map f xs)"
  by (induction xs) auto

lemma router_books: "router_ok r \<longleftrightarrow> ports.books (ro_active r) (ro_held r) \<and> (\<forall>(p, q)\<in>set (ro_active r). p = q)"
  by (simp add: router_ok_def ports.books_def ports.owned_by_def comp_def sum_list_singletons conj_assoc)

lemma wanted_ports_distinct: "synced s \<Longrightarrow> distinct (wanted_ports r s)"
  using DomainPorts_exact(3) by (simp add: wanted_ports_def)

lemma RouterApply_frame [simp]:
  "ro_main (RouterApply refuse s r) = ro_main r" "ro_http (RouterApply refuse s r) = ro_http r"
  "ro_tls (RouterApply refuse s r) = ro_tls r"
  by (simp_all add: RouterApply_def split: prod.splits)

lemma RouterApply_active:
  assumes "synced s" "(p, q) \<in> set (ro_active (RouterApply refuse s r))"
  shows "p = q \<and> p \<in> set (wanted_ports r s)"
proof -
  obtain act out held where r: "reconcile (\<lambda>p. p) (\<lambda>_. True) (=) (startPort refuse) stop_port
      (wanted_ports r s) (ro_active r) (ro_held r) = (act, out, held)" using prod_cases3 by blast
  with assms ports.reconcile_active [OF r, of p q] wanted_ports_distinct [OF assms(1), of r]
  show ?thesis by (auto simp: RouterApply_def)
qed

lemma RouterApply_ok:
  assumes "router_ok r" "synced s"
  shows "router_ok (RouterApply refuse s r)"
proof -
  obtain act out held where r: "reconcile (\<lambda>p. p) (\<lambda>_. True) (=) (startPort refuse) stop_port
      (wanted_ports r s) (ro_active r) (ro_held r) = (act, out, held)" using prod_cases3 by blast
  have "ports.books act held"
    using ports.reconcile_books [OF _ r] assms(1) by (simp add: router_books)
  moreover have "\<forall>(p, q)\<in>set act. p = q"
    using RouterApply_active [OF assms(2), of _ _ refuse r] by (auto simp: RouterApply_def r)
  ultimately show ?thesis by (simp add: router_books RouterApply_def r)
qed

text \<open>A wanted port that is not served was refused by the system; in particular every
  wanted port is served when the system refuses nothing.\<close>

lemma RouterApply_serves:
  assumes "\<forall>held sk. refuse held sk = None" "synced s"
  shows "fst ` set (ro_active (RouterApply refuse s r)) = set (wanted_ports r s)"
proof
  show "fst ` set (ro_active (RouterApply refuse s r)) \<subseteq> set (wanted_ports r s)"
    using RouterApply_active [OF assms(2)] by auto
  obtain act out held where r: "reconcile (\<lambda>p. p) (\<lambda>_. True) (=) (startPort refuse) stop_port
      (wanted_ports r s) (ro_active r) (ro_held r) = (act, out, held)" using prod_cases3 by blast
  have "\<exists>q held'. startPort refuse p held = (Inr q, held')" for p held
    by (simp add: startPort_def net_listen_free [OF assms(1)])
  from reconcile_serves [OF r this] show "set (wanted_ports r s) \<subseteq> fst ` set (ro_active (RouterApply refuse s r))"
    by (auto simp: RouterApply_def r)
qed

lemma RouterShutdown_ok:
  assumes "router_ok r"
  shows "ro_active (RouterShutdown r) = [] \<and> ro_held (RouterShutdown r) = []"
proof -
  obtain act held where s: "stop_loop (\<lambda>_ _. False) stop_port (ro_active r) (ro_held r) = (act, held)"
    by fastforce
  have "act = []"
    using stop_loop_filter [of "\<lambda>_ _. False" stop_port "ro_active r" "ro_held r"] s
    by (simp add: case_prod_beta)
  moreover have "mset held = ports.owned_by act + {#}"
    using ports.stop_loop_held [OF s, of "{#}"] assms by (simp add: router_books ports.books_def)
  ultimately show ?thesis using s by (simp add: RouterShutdown_def)
qed

section \<open>The decisions\<close>

lemma port_decide_spec:
  assumes "config_ok (config_of s)" "synced s"
  shows "port_decide tls s p sni = ActPassthrough t pp \<longleftrightarrow>
      (\<exists>d\<in>set (st_domains s). \<exists>f\<in>set (dm_forwards d). dm_host d = to_lower sni \<and> pf_port f = p
         \<and> pf_enabled f \<and> \<not> pf_manage f \<and> pf_target f = t \<and> pf_proxy_proto f = pp)"
    and "port_decide tls s p sni = ActAccept \<longleftrightarrow>
      tls \<and> (\<exists>d\<in>set (st_domains s). \<exists>f\<in>set (dm_forwards d). dm_host d = to_lower sni \<and> pf_port f = p
         \<and> pf_enabled f \<and> pf_manage f)"
proof -
  have "port_decide tls s p sni = ActPassthrough t pp \<longleftrightarrow>
      (\<exists>f. (\<exists>cp. MatchDomain s sni p = Some cp \<and> cp_fwd cp = f) \<and> \<not> pf_manage f \<and> pf_target f = t
         \<and> pf_proxy_proto f = pp)"
    by (auto simp: port_decide_def split: option.splits)
  then show "port_decide tls s p sni = ActPassthrough t pp \<longleftrightarrow>
      (\<exists>d\<in>set (st_domains s). \<exists>f\<in>set (dm_forwards d). dm_host d = to_lower sni \<and> pf_port f = p
         \<and> pf_enabled f \<and> \<not> pf_manage f \<and> pf_target f = t \<and> pf_proxy_proto f = pp)"
    unfolding MatchDomain_forward [OF assms] by blast
  have "port_decide tls s p sni = ActAccept \<longleftrightarrow>
      tls \<and> (\<exists>f. (\<exists>cp. MatchDomain s sni p = Some cp \<and> cp_fwd cp = f) \<and> pf_manage f)"
    by (auto simp: port_decide_def split: option.splits)
  then show "port_decide tls s p sni = ActAccept \<longleftrightarrow>
      tls \<and> (\<exists>d\<in>set (st_domains s). \<exists>f\<in>set (dm_forwards d). dm_host d = to_lower sni \<and> pf_port f = p
         \<and> pf_enabled f \<and> pf_manage f)"
    unfolding MatchDomain_forward [OF assms] by blast
qed

lemma main_decide_spec:
  assumes "config_ok (config_of s)" "synced s"
  shows "main_decide s p host = ActPassthrough t pp \<longleftrightarrow>
      (\<exists>d\<in>set (st_domains s). \<exists>f\<in>set (dm_forwards d). dm_host d = to_lower host \<and> pf_port f = p
         \<and> pf_enabled f \<and> \<not> pf_manage f \<and> pf_target f = t \<and> pf_proxy_proto f = pp)"
    and "main_decide s p host \<noteq> ActDrop"
proof -
  have "main_decide s p host = ActPassthrough t pp \<longleftrightarrow>
      (\<exists>f. (\<exists>cp. MatchDomain s host p = Some cp \<and> cp_fwd cp = f) \<and> \<not> pf_manage f \<and> pf_target f = t
         \<and> pf_proxy_proto f = pp)"
    by (auto simp: main_decide_def split: option.splits)
  then show "main_decide s p host = ActPassthrough t pp \<longleftrightarrow>
      (\<exists>d\<in>set (st_domains s). \<exists>f\<in>set (dm_forwards d). dm_host d = to_lower host \<and> pf_port f = p
         \<and> pf_enabled f \<and> \<not> pf_manage f \<and> pf_target f = t \<and> pf_proxy_proto f = pp)"
    unfolding MatchDomain_forward [OF assms] by blast
  show "main_decide s p host \<noteq> ActDrop" by (auto simp: main_decide_def split: option.splits)
qed

text \<open>A passthrough connection is never terminated here: whatever name a request inside a
  terminated connection carries, the handler serves managed forwards only.\<close>

lemma port_handler_managed:
  "port_handler s p host = Some cp \<Longrightarrow> pf_manage (cp_fwd cp) \<and> MatchDomain s (hostOnly host) p = Some cp"
  by (auto simp: port_handler_def split: option.splits if_splits)

text \<open>On a well-formed synchronised store a request that is served has a proxy to serve it.\<close>

lemma MatchDomain_proxy:
  assumes "config_ok (config_of s)" "synced s" "MatchDomain s host p = Some cp"
  shows "cp_proxy cp \<noteq> None \<longleftrightarrow> p = 80 \<or> pf_manage (cp_fwd cp)"
  using assms(3) unfolding MatchDomain_exact [OF assms(1,2)] by (auto dest!: compile_pf_fields)

lemmas [model_eval] = hostOnly_def NewDomainRouter_def port_socket_def startPort_def stop_port_def
  wanted_ports_def RouterApply_def RouterShutdown_def port_decide_def main_decide_def port_handler_def

end
