(* ===== verification/LivePort.thy ===== *)
theory LivePort
  imports Domains
begin

text \<open>
  A port while the configuration changes under it (\<open>domains.go\<close>): the goroutines of its
  listener run in any order with the operations of the store, accepted or failed in any way, and
  each connection is decided on the tables that are current when its server name has been read.
  The decision function is a parameter, so the same holds for the ports of the domain router and
  for the main port.
\<close>

record live_port =
  lp_store :: store
  lp_listener :: listener

inductive live_step ::
  "(store \<Rightarrow> string \<Rightarrow> sniDecision) \<Rightarrow> handshake \<Rightarrow> (string \<Rightarrow> relay_env) \<Rightarrow> live_port \<Rightarrow> live_port \<Rightarrow> bool"
  for decide hs env where
  live_conn: "sni_step hs (decide (lp_store v)) env (lp_listener v) l' \<Longrightarrow>
     live_step decide hs env v (v\<lparr>lp_listener := l'\<rparr>)"
| live_edit: "run_op io op (lp_store v) = (e, s', ns) \<Longrightarrow>
     live_step decide hs env v (v\<lparr>lp_store := s'\<rparr>)"

inductive_cases live_stepE: "live_step decide hs env v v'"

lemma live_step_config:
  assumes "live_step decide hs env v v'" "config_ok (config_of (lp_store v))"
  shows "config_ok (config_of (lp_store v'))"
  using assms by (auto elim!: live_stepE dest: run_op_config_ok)

text \<open>The configuration in force at a moment: the stored one, or, while the stored one cannot be
  compiled, the last one that could.\<close>

definition in_force :: "(nat \<Rightarrow> live_port) \<Rightarrow> nat \<Rightarrow> nat \<Rightarrow> bool" where
  "in_force f k m \<longleftrightarrow> m \<le> k \<and> synced (lp_store (f m)) \<and> (\<forall>j. m < j \<and> j \<le> k \<longrightarrow> \<not> synced (lp_store (f j)))"

lemma recompile_domains:
  "recompileLocked s = (e, s') \<Longrightarrow> st_cdom s' = st_cdom s \<or> e = None \<and> synced s'"
  by (auto simp: recompileLocked_def synced_def Let_def split: sum.splits prod.splits) blast

lemma commit_domains: "commitLocked io s = (e, s') \<Longrightarrow> st_cdom s' = st_cdom s \<or> synced s'"
  using recompile_domains [of s] persistLocked_tables persistLocked_synced
  by (fastforce simp: commitLocked_def split: prod.splits option.splits)

lemma run_op_domains:
  assumes "run_op io op s = (e, s', ns)"
  shows "st_cdom s' = st_cdom s \<or> synced s'"
proof -
  have w: "st_cdom (with_config c s) = st_cdom s" for c by (simp add: with_config_def)
  from run_op_config [OF assms] show ?thesis
  proof (elim disjE exE conjE)
    assume "op_write op io (with_config (config_of s') s) = (e, s')"
    then show ?thesis
      using commit_domains [of io "with_config (config_of s') s" e s'] persistLocked_tables [of io "with_config (config_of s') s" e s']
      by (simp add: op_write_def w split: if_splits)
  qed simp
qed

lemma live_step_domains:
  "live_step decide hs env v v' \<Longrightarrow> st_cdom (lp_store v') = st_cdom (lp_store v) \<or> synced (lp_store v')"
  by (auto elim!: live_stepE dest: run_op_domains)

section \<open>One connection\<close>

text \<open>Identifiers are given out once.\<close>

definition ids_ok :: "listener \<Rightarrow> bool" where
  "ids_ok l \<longleftrightarrow> distinct (ids l) \<and> set (ids l) = {..<ls_next l}"

lemma sni_step_ids: "sni_step hs decide env l l' \<Longrightarrow> ids_ok l \<Longrightarrow> ids_ok l'"
  by (induction rule: sni_step.induct) (auto simp: ids_ok_def ids_def lessThan_Suc)

lemma live_step_ids: "live_step decide hs env v v' \<Longrightarrow> ids_ok (lp_listener v) \<Longrightarrow> ids_ok (lp_listener v')"
  by (auto elim!: live_stepE dest: sni_step_ids)

text \<open>Where connection \<open>i\<close>, still being peeked at the start of the time looked at, is now:
  \<open>seen\<close> holds the stores of that time.\<close>

fun fate_of :: "final \<Rightarrow> bool \<Rightarrow> fate \<Rightarrow> bool" where
  "fate_of (FSpliced t r) dn f \<longleftrightarrow> f = Spliced t r"
| "fate_of (FServed p) dn f \<longleftrightarrow> f = Delivered p"
| "fate_of FClosed dn f \<longleftrightarrow> f = Closed \<or> dn \<and> (\<exists>p. f = Delivered p)"

definition tracked ::
  "(store \<Rightarrow> string \<Rightarrow> sniDecision) \<Rightarrow> handshake \<Rightarrow> (string \<Rightarrow> relay_env) \<Rightarrow> nat \<Rightarrow> conn \<Rightarrow> store set \<Rightarrow> listener \<Rightarrow> bool" where
  "tracked decide hs env i c seen l \<longleftrightarrow> i < ls_next l
     \<and> (\<forall>c'. (i, c') \<in> set (ls_peeking l) \<longrightarrow> c' = c)
     \<and> (\<forall>c' p. (i, c', p) \<in> set (ls_waiting l) \<longrightarrow> c' = c \<and> (\<exists>s\<in>seen. handle hs (decide s) env c = Delivered p))
     \<and> (\<forall>c' fin. (i, c', fin) \<in> set (ls_final l) \<longrightarrow>
          c' = c \<and> (\<exists>s\<in>seen. fate_of fin (ls_done l) (handle hs (decide s) env c)))"

lemma fate_of_done: "fate_of fin d f \<Longrightarrow> fate_of fin True f"
  by (cases fin) auto

lemma tracked_start:
  assumes "ids_ok l" "(i, c) \<in> set (ls_peeking l)"
  shows "tracked decide hs env i c {} l"
proof -
  have i: "i \<in> set (map fst (ls_peeking l))" using assms(2) by force
  then have "i \<in> set (ids l)" by (simp add: ids_def)
  then have "i < ls_next l" using assms(1) by (simp add: ids_ok_def)
  moreover have "i \<notin> fst ` set (ls_waiting l)" "i \<notin> fst ` set (ls_final l)"
    using assms(1) i by (auto simp: ids_ok_def ids_def)
  moreover have "c' = c" if "(i, c') \<in> set (ls_peeking l)" for c'
    using assms that by (auto simp: ids_ok_def ids_def dest: eq_key_imp_eq_value)
  ultimately show ?thesis unfolding tracked_def by (metis fst_conv image_eqI)
qed

lemma tracked_mono: "tracked decide hs env i c seen l \<Longrightarrow> seen \<subseteq> seen' \<Longrightarrow> tracked decide hs env i c seen' l"
  unfolding tracked_def by blast

lemma tracked_close:
  "tracked decide hs env i c seen l \<Longrightarrow> tracked decide hs env i c seen (l\<lparr>ls_done := True\<rparr>)"
  "tracked decide hs env i c seen l \<Longrightarrow> tracked decide hs env i c seen (l\<lparr>ls_loop := False, ls_done := True\<rparr>)"
  by (simp_all add: tracked_def) (metis fate_of_done)+

lemma tracked_sni_step:
  assumes "sni_step hs (decide s) env l l'" "tracked decide hs env i c seen l" "s \<in> seen"
  shows "tracked decide hs env i c seen l'"
  using assms(1)
proof cases
  case (step_arrive c')
  with assms(2) show ?thesis by (auto simp: tracked_def)
next
  case (step_spliced us j c' vs t r)
  with assms(2,3) show ?thesis by (auto simp: tracked_def)
next
  case (step_dropped us j c' vs)
  with assms(2,3) show ?thesis by (auto simp: tracked_def)
next
  case (step_ready us j c' vs p)
  with assms(2,3) show ?thesis by (auto simp: tracked_def)
next
  case (step_accept us j c' p vs)
  with assms(2) show ?thesis by (auto simp: tracked_def)
next
  case (step_abandon us j c' p vs)
  then have "(j, c', p) \<in> set (ls_waiting l)" by simp
  with assms(2) step_abandon(3) have "i = j \<Longrightarrow> c' = c \<and> (\<exists>s\<in>seen. fate_of FClosed True (handle hs (decide s) env c))"
    unfolding tracked_def fate_of.simps by blast
  with assms(2) step_abandon show ?thesis by (auto simp: tracked_def simp del: fate_of.simps)
next
  case step_loop_ends
  with assms(2) show ?thesis by (simp add: tracked_close)
next
  case step_close
  with assms(2) show ?thesis by (simp add: tracked_close)
qed (use assms(2) in \<open>auto simp: tracked_def\<close>)

lemma live_run_config:
  assumes "config_ok (config_of (lp_store (f 0)))" "\<forall>j<n. live_step decide hs env (f j) (f (Suc j))" "j \<le> n"
  shows "config_ok (config_of (lp_store (f j)))"
  using assms(3) by (induction j) (use assms(1,2) live_step_config in \<open>auto dest!: Suc_le_lessD\<close>)

lemma live_run_in_force:
  assumes "synced (lp_store (f 0))" "\<forall>j<n. live_step decide hs env (f j) (f (Suc j))" "k \<le> n"
  shows "\<exists>m. in_force f k m \<and> st_cdom (lp_store (f k)) = st_cdom (lp_store (f m))"
  using assms(3)
proof (induction k)
  case 0
  with assms(1) show ?case by (intro exI [of _ 0]) (auto simp: in_force_def)
next
  case (Suc k)
  show ?case
  proof (cases "synced (lp_store (f (Suc k)))")
    case True
    then show ?thesis by (intro exI [of _ "Suc k"]) (auto simp: in_force_def)
  next
    case False
    from Suc obtain m where m: "in_force f k m" "st_cdom (lp_store (f k)) = st_cdom (lp_store (f m))" by auto
    have "live_step decide hs env (f k) (f (Suc k))" using assms(2) Suc.prems by simp
    from live_step_domains [OF this] False have "st_cdom (lp_store (f (Suc k))) = st_cdom (lp_store (f k))" by simp
    with m False show ?thesis by (intro exI [of _ m]) (auto simp: in_force_def le_Suc_eq)
  qed
qed

lemma live_run_ids:
  assumes "ids_ok (lp_listener (f 0))" "\<forall>j<n. live_step decide hs env (f j) (f (Suc j))" "j \<le> n"
  shows "ids_ok (lp_listener (f j))"
  using assms(3) by (induction j) (use assms(1,2) live_step_ids in \<open>auto dest!: Suc_le_lessD\<close>)

text \<open>A connection that has its end got it from the decision on a configuration that was current
  between its arrival and its end.\<close>

lemma live_run_fate:
  assumes "ids_ok (lp_listener (f 0))" "\<forall>j<n. live_step decide hs env (f j) (f (Suc j))"
    and "(i, c) \<in> set (ls_peeking (lp_listener (f a)))" "(i, c', fin) \<in> set (ls_final (lp_listener (f b)))" "a \<le> b" "b \<le> n"
  shows "c' = c \<and> (\<exists>k. a \<le> k \<and> k < b
    \<and> fate_of fin (ls_done (lp_listener (f b))) (handle hs (decide (lp_store (f k))) env c))"
proof -
  have "a + m \<le> n \<Longrightarrow> tracked decide hs env i c ((\<lambda>k. lp_store (f k)) ` {a..<a + m}) (lp_listener (f (a + m)))" for m
  proof (induction m)
    case 0
    then show ?case
      using tracked_start [OF live_run_ids [OF assms(1,2)] assms(3)] by simp
  next
    case (Suc m)
    let ?S = "(\<lambda>k. lp_store (f k)) ` {a..<a + Suc m}"
    have t: "tracked decide hs env i c ?S (lp_listener (f (a + m)))"
      by (rule tracked_mono [OF Suc.IH]) (use Suc.prems in auto)
    from assms(2) Suc.prems have "live_step decide hs env (f (a + m)) (f (Suc (a + m)))" by simp
    then show ?case
    proof cases
      case (live_conn l')
      with tracked_sni_step [OF live_conn(2) t] show ?thesis by simp
    next
      case (live_edit io op e s' ns)
      with t show ?thesis by simp
    qed
  qed
  from this [of "b - a"] assms(4-6) show ?thesis by (force simp: tracked_def)
qed

section \<open>The decisions on a port of the domain router\<close>

text \<open>The enabled forwards the configuration has for a host on a port.\<close>

definition forwards_at :: "store \<Rightarrow> string \<Rightarrow> int \<Rightarrow> port_forward list" where
  "forwards_at s host port =
     concat (map (\<lambda>d. filter (\<lambda>f. pf_port f = port \<and> pf_enabled f) (dm_forwards d))
       (filter (\<lambda>d. dm_host d = to_lower host) (st_domains s)))"

lemma forwards_at_iff:
  "f \<in> set (forwards_at s host port) \<longleftrightarrow>
     (\<exists>d\<in>set (st_domains s). f \<in> set (dm_forwards d) \<and> dm_host d = to_lower host \<and> pf_port f = port \<and> pf_enabled f)"
  by (auto simp: forwards_at_def)

lemma MatchDomain_at:
  assumes "config_ok (config_of s)" "synced s"
  shows "map_option cp_fwd (MatchDomain s host port) = Some f \<longleftrightarrow> f \<in> set (forwards_at s host port)"
  using MatchDomain_forward [OF assms, of host port f] by (simp add: forwards_at_iff)

lemma MatchDomain_none_at:
  assumes "config_ok (config_of s)" "synced s"
  shows "MatchDomain s host port = None \<longleftrightarrow> forwards_at s host port = []"
  using MatchDomain_at [OF assms, of host port]
  by (cases "MatchDomain s host port"; cases "forwards_at s host port") auto

lemma port_decide_cong: "st_cdom s' = st_cdom s \<Longrightarrow> port_decide tls s' p = port_decide tls s p"
  by (simp add: fun_eq_iff port_decide_def MatchDomain_def)

lemma port_decide_at:
  assumes "config_ok (config_of s)" "synced s"
  shows "port_decide tls s p sni = ActPassthrough t pp \<Longrightarrow>
      \<exists>w\<in>set (forwards_at s sni p). \<not> pf_manage w \<and> pf_target w = t \<and> pf_proxy_proto w = pp"
    and "port_decide tls s p sni = ActAccept \<Longrightarrow> tls \<and> (\<exists>w\<in>set (forwards_at s sni p). pf_manage w)"
    and "port_decide tls s p sni = ActDrop \<Longrightarrow>
      forwards_at s sni p = [] \<or> \<not> tls \<and> (\<exists>w\<in>set (forwards_at s sni p). pf_manage w)"
  using MatchDomain_at [OF assms, of sni p] MatchDomain_none_at [OF assms, of sni p]
  by (auto simp: port_decide_def split: option.splits if_splits)

text \<open>What \<open>handle\<close> did with a spliced connection.\<close>

lemma handle_spliced:
  assumes "handle hs decide env c = Spliced t r"
  shows "\<exists>pp. decide (fst (peekClientHelloSNI hs c)) = ActPassthrough t pp
    \<and> (re_dial (env t) \<and> re_header_fails (env t) = None \<and> re_prefix_fails (env t) = None \<longrightarrow>
         rr_to_backend r = header_for pp (env t) @ cn_in c)"
proof -
  from handle_cases(2) [OF assms] obtain pp where d: "decide (fst (peekClientHelloSNI hs c)) = ActPassthrough t pp"
    by (auto simp: decided_def)
  with handle_passthrough [of decide hs c t pp env, OF d] assms show ?thesis by auto
qed

lemmas [model_eval] = forwards_at_def

end
