(* ===== verification/Pipe.thy ===== *)
theory Pipe
  imports Forward
begin

text \<open>
  The two copying goroutines of a relayed connection (\<open>pipe\<close> in \<open>handleTCP\<close>, \<open>cp\<close> in
  \<open>spliceTo\<close>, the same code) and the function that waits for both. Each goroutine runs
  \<open>io.Copy\<close> until the source ends or something breaks, half-closes the destination and reports;
  after two reports both connections are closed. The events are one chunk copied in a direction
  (of any size), the end of a source, a read or write error, and the return. What each side will
  send before it closes is given at the start. The theorems justify the results that
  \<^const>\<open>spliceTo\<close> and \<^const>\<open>handleTCP\<close> name.
\<close>

record pipes =
  pi_up :: "byte list"
  pi_down :: "byte list"
  pi_to_target :: "byte list"
  pi_to_client :: "byte list"
  pi_up_done :: bool
  pi_down_done :: bool
  pi_returned :: bool

datatype pipe_event = CopyUp nat | CopyDown nat | EofUp | EofDown | BreakUp | BreakDown | Return

text \<open>\<open>written\<close> is what has been sent to the target before the goroutines start.\<close>

definition pipe_start :: "byte list \<Rightarrow> byte list \<Rightarrow> byte list \<Rightarrow> pipes" where
  "pipe_start written up down = \<lparr>pi_up = up, pi_down = down, pi_to_target = written, pi_to_client = [],
     pi_up_done = False, pi_down_done = False, pi_returned = False\<rparr>"

fun pipe_step :: "pipe_event \<Rightarrow> pipes \<Rightarrow> pipes option" where
  "pipe_step (CopyUp n) st =
     (if pi_up_done st \<or> pi_up st = [] then None
      else Some (st\<lparr>pi_to_target := pi_to_target st @ take (Suc n) (pi_up st), pi_up := drop (Suc n) (pi_up st)\<rparr>))"
| "pipe_step (CopyDown n) st =
     (if pi_down_done st \<or> pi_down st = [] then None
      else Some (st\<lparr>pi_to_client := pi_to_client st @ take (Suc n) (pi_down st), pi_down := drop (Suc n) (pi_down st)\<rparr>))"
| "pipe_step EofUp st = (if pi_up_done st \<or> pi_up st \<noteq> [] then None else Some (st\<lparr>pi_up_done := True\<rparr>))"
| "pipe_step EofDown st = (if pi_down_done st \<or> pi_down st \<noteq> [] then None else Some (st\<lparr>pi_down_done := True\<rparr>))"
| "pipe_step BreakUp st = (if pi_up_done st then None else Some (st\<lparr>pi_up_done := True\<rparr>))"
| "pipe_step BreakDown st = (if pi_down_done st then None else Some (st\<lparr>pi_down_done := True\<rparr>))"
| "pipe_step Return st =
     (if pi_up_done st \<and> pi_down_done st \<and> \<not> pi_returned st then Some (st\<lparr>pi_returned := True\<rparr>) else None)"

fun pipe_run :: "pipe_event list \<Rightarrow> pipes \<Rightarrow> pipes option" where
  "pipe_run [] st = Some st"
| "pipe_run (e # es) st = (case pipe_step e st of None \<Rightarrow> None | Some st' \<Rightarrow> pipe_run es st')"

definition unbroken :: "pipe_event list \<Rightarrow> bool" where
  "unbroken es \<longleftrightarrow> BreakUp \<notin> set es \<and> BreakDown \<notin> set es"

section \<open>Nothing is lost or reordered\<close>

lemma pipe_step_stream:
  "pipe_step e st = Some st' \<Longrightarrow> pi_to_target st' @ pi_up st' = pi_to_target st @ pi_up st
     \<and> pi_to_client st' @ pi_down st' = pi_to_client st @ pi_down st"
  by (cases e) (auto split: if_splits)

lemma pipe_run_stream:
  "pipe_run es st = Some st' \<Longrightarrow> pi_to_target st' @ pi_up st' = pi_to_target st @ pi_up st
     \<and> pi_to_client st' @ pi_down st' = pi_to_client st @ pi_down st"
  by (induction es arbitrary: st) (auto split: option.splits dest: pipe_step_stream)

text \<open>A destination is half-closed only behind the last byte, unless something broke.\<close>

definition ends_last :: "pipes \<Rightarrow> bool" where
  "ends_last st \<longleftrightarrow> (pi_up_done st \<longrightarrow> pi_up st = []) \<and> (pi_down_done st \<longrightarrow> pi_down st = [])"

lemma pipe_step_ends: "pipe_step e st = Some st' \<Longrightarrow> e \<noteq> BreakUp \<and> e \<noteq> BreakDown \<Longrightarrow> ends_last st \<Longrightarrow> ends_last st'"
  by (cases e) (auto simp: ends_last_def split: if_splits)

lemma pipe_run_ends: "pipe_run es st = Some st' \<Longrightarrow> unbroken es \<Longrightarrow> ends_last st \<Longrightarrow> ends_last st'"
  by (induction es arbitrary: st) (auto simp: unbroken_def split: option.splits dest: pipe_step_ends)

section \<open>The relay ends\<close>

definition pipe_load :: "pipes \<Rightarrow> nat" where
  "pipe_load st = length (pi_up st) + length (pi_down st) + (if pi_up_done st then 0 else 1)
     + (if pi_down_done st then 0 else 1) + (if pi_returned st then 0 else 1)"

lemma pipe_step_load: "pipe_step e st = Some st' \<Longrightarrow> pipe_load st' < pipe_load st"
  by (cases e) (auto simp: pipe_load_def split: if_splits)

lemma pipe_run_load: "pipe_run es st = Some st' \<Longrightarrow> length es + pipe_load st' \<le> pipe_load st"
  by (induction es arbitrary: st) (fastforce split: option.splits dest: pipe_step_load)+

lemma pipe_stuck:
  assumes "\<And>e. e \<noteq> BreakUp \<Longrightarrow> e \<noteq> BreakDown \<Longrightarrow> pipe_step e st = None"
  shows "pi_returned st"
  using assms [of "CopyUp 0"] assms [of "CopyDown 0"] assms [of EofUp] assms [of EofDown] assms [of Return]
  by (auto split: if_splits)

lemma pipe_complete:
  assumes run: "pipe_run es (pipe_start written up down) = Some st" and ok: "unbroken es"
    and stuck: "\<And>e. e \<noteq> BreakUp \<Longrightarrow> e \<noteq> BreakDown \<Longrightarrow> pipe_step e st = None"
  shows "pi_returned st \<and> pi_to_target st = written @ up \<and> pi_to_client st = down"
proof -
  have e: "ends_last st" by (rule pipe_run_ends [OF run ok]) (simp add: ends_last_def pipe_start_def)
  have "pi_up st = []" "pi_down st = []"
    using e stuck [of "CopyUp 0"] stuck [of "CopyDown 0"] by (auto simp: ends_last_def split: if_splits)
  with pipe_run_stream [OF run] pipe_stuck [OF stuck] show ?thesis by (simp add: pipe_start_def)
qed

lemmas [model_eval] = pipe_start_def

end
