(* ===== verification/TcpRelay.thy ===== *)
theory TcpRelay
  imports Pipe
begin

text \<open>
  The TCP side of one running forward (\<open>acceptLoop\<close>, \<open>handleTCP\<close>, \<open>stop\<close> of \<open>forward.go\<close>) as an
  event machine: clients connect and wait in the kernel's queue, the accept loop takes them in
  order, each accepted connection runs \<open>handleTCP\<close> in a goroutine of its own, whose relay is the
  machine of \<open>Pipe\<close>. Closing the socket ends the loop and not the connections; so does any error
  of \<open>Accept\<close>, after which the socket stays open with no one to take connections from it. What
  each client and its target send is given in advance.
\<close>

datatype tcp_conn = Dialing | Relaying pipes | Finished relay_result

record tcp_forward =
  tf_open :: bool
  tf_looping :: bool
  tf_backlog :: "nat list"
  tf_conns :: "(nat \<times> tcp_conn) list"

datatype tcp_event =
    Connect nat
  | AcceptNext
  | AcceptError
  | DialDone nat
  | CopyStep nat pipe_event
  | CloseListener

definition tcp_start :: tcp_forward where
  "tcp_start = \<lparr>tf_open = True, tf_looping = True, tf_backlog = [], tf_conns = []\<rparr>"

text \<open>\<open>handleTCP\<close> up to the two goroutines: no target, a header that could not be written, or
  the relay.\<close>

definition dialed :: "forward \<Rightarrow> relay_env \<Rightarrow> byte list \<Rightarrow> tcp_conn" where
  "dialed fw env up =
     (if \<not> re_dial env then Finished \<lparr>rr_dialed = False, rr_to_backend = [], rr_to_client = []\<rparr>
      else (let h = header_for (fw_proxy_proto fw) env
        in case (if h = [] then None else re_header_fails env) of
             Some n \<Rightarrow> Finished \<lparr>rr_dialed = True, rr_to_backend = take n h, rr_to_client = []\<rparr>
           | None \<Rightarrow> Relaying (pipe_start h up (re_down env))))"

definition set_conn :: "nat \<Rightarrow> tcp_conn \<Rightarrow> (nat \<times> tcp_conn) list \<Rightarrow> (nat \<times> tcp_conn) list" where
  "set_conn i c cs = map (\<lambda>(j, x). if j = i then (j, c) else (j, x)) cs"

fun tcp_step :: "forward \<Rightarrow> (nat \<Rightarrow> relay_env) \<Rightarrow> (nat \<Rightarrow> byte list) \<Rightarrow> tcp_event \<Rightarrow> tcp_forward \<Rightarrow> tcp_forward option" where
  "tcp_step fw env up (Connect i) st =
     (if tf_open st \<and> i \<notin> set (tf_backlog st) \<union> fst ` set (tf_conns st)
      then Some (st\<lparr>tf_backlog := tf_backlog st @ [i]\<rparr>) else None)"
| "tcp_step fw env up AcceptNext st =
     (if tf_open st \<and> tf_looping st then
        (case tf_backlog st of
           [] \<Rightarrow> None
         | i # b \<Rightarrow> Some (st\<lparr>tf_backlog := b, tf_conns := tf_conns st @ [(i, Dialing)]\<rparr>))
      else None)"
| "tcp_step fw env up AcceptError st = (if tf_looping st then Some (st\<lparr>tf_looping := False\<rparr>) else None)"
| "tcp_step fw env up (DialDone i) st =
     (case map_of (tf_conns st) i of
        Some Dialing \<Rightarrow> Some (st\<lparr>tf_conns := set_conn i (dialed fw (env i) (up i)) (tf_conns st)\<rparr>)
      | _ \<Rightarrow> None)"
| "tcp_step fw env up (CopyStep i e) st =
     (case map_of (tf_conns st) i of
        Some (Relaying p) \<Rightarrow>
          (case pipe_step e p of
             None \<Rightarrow> None
           | Some p' \<Rightarrow> Some (st\<lparr>tf_conns := set_conn i (Relaying p') (tf_conns st)\<rparr>))
      | _ \<Rightarrow> None)"
| "tcp_step fw env up CloseListener st =
     (if tf_open st then Some (st\<lparr>tf_open := False, tf_backlog := []\<rparr>) else None)"

fun tcp_run :: "forward \<Rightarrow> (nat \<Rightarrow> relay_env) \<Rightarrow> (nat \<Rightarrow> byte list) \<Rightarrow> tcp_event list \<Rightarrow> tcp_forward \<Rightarrow> tcp_forward option" where
  "tcp_run fw env up [] st = Some st"
| "tcp_run fw env up (e # es) st =
     (case tcp_step fw env up e st of None \<Rightarrow> None | Some st' \<Rightarrow> tcp_run fw env up es st')"

fun arrivals :: "tcp_event list \<Rightarrow> nat list" where
  "arrivals [] = []"
| "arrivals (Connect i # es) = i # arrivals es"
| "arrivals (_ # es) = arrivals es"

lemma tcp_run_Cons:
  "tcp_run fw env up (e # es) st = Some st' \<longleftrightarrow> (\<exists>s. tcp_step fw env up e st = Some s \<and> tcp_run fw env up es s = Some st')"
  by (auto split: option.splits)

section \<open>Connections keep to themselves\<close>

lemma set_conn_ids [simp]: "map fst (set_conn i c cs) = map fst cs"
  by (induction cs) (auto simp: set_conn_def)

lemma set_conn_fst [simp]: "fst ` set (set_conn i c cs) = fst ` set cs"
  by (metis list.set_map set_conn_ids)

lemma set_conn_in: "(j, x) \<in> set (set_conn i c cs) \<Longrightarrow> x = c \<and> j = i \<or> j \<noteq> i \<and> (j, x) \<in> set cs"
  by (auto simp: set_conn_def split: if_splits)

text \<open>What a connection's target and client have and still get together is what \<open>handleTCP\<close>
  says of this connection alone.\<close>

fun conn_ok :: "forward \<Rightarrow> relay_env \<Rightarrow> byte list \<Rightarrow> tcp_conn \<Rightarrow> bool" where
  "conn_ok fw env up Dialing \<longleftrightarrow> True"
| "conn_ok fw env up (Relaying p) \<longleftrightarrow> handleTCP env fw up =
     \<lparr>rr_dialed = True, rr_to_backend = pi_to_target p @ pi_up p, rr_to_client = pi_to_client p @ pi_down p\<rparr>"
| "conn_ok fw env up (Finished r) \<longleftrightarrow> r = handleTCP env fw up"

lemma dialed_ok: "conn_ok fw env up (dialed fw env up)"
  by (simp add: dialed_def handleTCP_def pipe_start_def Let_def split: option.splits)

definition tcp_ok :: "forward \<Rightarrow> (nat \<Rightarrow> relay_env) \<Rightarrow> (nat \<Rightarrow> byte list) \<Rightarrow> tcp_forward \<Rightarrow> bool" where
  "tcp_ok fw env up st \<longleftrightarrow> distinct (map fst (tf_conns st) @ tf_backlog st)
     \<and> (\<forall>(i, c)\<in>set (tf_conns st). conn_ok fw (env i) (up i) c)"

lemma set_conn_ok:
  assumes "tcp_ok fw env up st" "conn_ok fw (env i) (up i) c"
  shows "tcp_ok fw env up (st\<lparr>tf_conns := set_conn i c (tf_conns st)\<rparr>)"
proof -
  have "\<forall>(j, x)\<in>set (set_conn i c (tf_conns st)). conn_ok fw (env j) (up j) x"
    using assms by (auto simp: tcp_ok_def dest!: set_conn_in)
  with assms(1) show ?thesis by (simp add: tcp_ok_def)
qed

lemma tcp_step_ok: "tcp_step fw env up e st = Some st' \<Longrightarrow> tcp_ok fw env up st \<Longrightarrow> tcp_ok fw env up st'"
proof (induction fw env up e st rule: tcp_step.induct)
  case (2 fw env up st)
  then obtain i b where b: "tf_backlog st = i # b" "st' = st\<lparr>tf_backlog := b, tf_conns := tf_conns st @ [(i, Dialing)]\<rparr>"
    by (auto split: if_splits list.splits)
  with 2(2) show ?case unfolding tcp_ok_def b(2) by (simp add: b(1))
next
  case (4 fw env up i st)
  then show ?case
    by (auto split: option.splits tcp_conn.splits intro!: set_conn_ok dialed_ok)
next
  case (5 fw env up i e st)
  then obtain p p' where p: "map_of (tf_conns st) i = Some (Relaying p)" "pipe_step e p = Some p'"
      "st' = st\<lparr>tf_conns := set_conn i (Relaying p') (tf_conns st)\<rparr>"
    by (auto split: option.splits tcp_conn.splits)
  from 5(2) map_of_SomeD [OF p(1)] have "conn_ok fw (env i) (up i) (Relaying p)" by (auto simp: tcp_ok_def)
  with pipe_step_stream [OF p(2)] have "conn_ok fw (env i) (up i) (Relaying p')" by simp
  with 5(2) show ?case unfolding p(3) by (rule set_conn_ok)
qed (clarsimp simp: tcp_ok_def split: if_splits)+

lemma tcp_run_ok: "tcp_run fw env up es st = Some st' \<Longrightarrow> tcp_ok fw env up st \<Longrightarrow> tcp_ok fw env up st'"
  by (induction es arbitrary: st) (auto split: option.splits dest: tcp_step_ok)

lemma tcp_start_ok: "tcp_ok fw env up tcp_start"
  by (simp add: tcp_ok_def tcp_start_def)

text \<open>Connections are taken in the order in which the clients came.\<close>

lemma tcp_step_order:
  "tcp_step fw env up e st = Some st' \<Longrightarrow>
     map fst (tf_conns st') @ tf_backlog st' = map fst (tf_conns st) @ tf_backlog st @ arrivals [e]
     \<or> \<not> tf_open st' \<and> tf_backlog st' = [] \<and> arrivals [e] = [] \<and> map fst (tf_conns st') = map fst (tf_conns st)"
  by (cases e) (auto split: if_splits list.splits option.splits tcp_conn.splits)

lemma tcp_step_open: "tcp_step fw env up e st = Some st' \<Longrightarrow> tf_open st' \<Longrightarrow> tf_open st"
  by (cases e) (auto split: if_splits list.splits option.splits tcp_conn.splits)

lemma tcp_step_closed:
  "tcp_step fw env up e st = Some st' \<Longrightarrow> \<not> tf_open st \<Longrightarrow>
     \<not> tf_open st' \<and> map fst (tf_conns st') = map fst (tf_conns st) \<and> arrivals [e] = []"
  by (cases e) (auto split: if_splits list.splits option.splits tcp_conn.splits)

lemma tcp_step_closing:
  "tcp_step fw env up e st = Some st' \<Longrightarrow> \<not> tf_open st' \<Longrightarrow>
     map fst (tf_conns st') = map fst (tf_conns st) \<and> arrivals [e] = []"
  by (cases e) (auto split: if_splits list.splits option.splits tcp_conn.splits)

lemma tcp_run_closed:
  "tcp_run fw env up es st = Some st' \<Longrightarrow> \<not> tf_open st \<Longrightarrow>
     \<not> tf_open st' \<and> map fst (tf_conns st') = map fst (tf_conns st)"
proof (induction es arbitrary: st)
  case (Cons e es)
  from Cons.prems(1) obtain s where s: "tcp_step fw env up e st = Some s" "tcp_run fw env up es s = Some st'"
    unfolding tcp_run_Cons by blast
  from Cons.IH [OF s(2)] tcp_step_closed [OF s(1) Cons.prems(2)] show ?case by simp
qed simp

lemma arrivals_Cons: "arrivals (e # es) = arrivals [e] @ arrivals es"
  by (cases e) simp_all

lemma tcp_run_order:
  "tcp_run fw env up es st = Some st' \<Longrightarrow>
     \<exists>rest. map fst (tf_conns st) @ (if tf_open st then tf_backlog st else []) @ arrivals es = map fst (tf_conns st') @ rest
       \<and> (tf_open st' \<longrightarrow> rest = tf_backlog st')"
proof (induction es arbitrary: st)
  case (Cons e es)
  from Cons.prems obtain s where s: "tcp_step fw env up e st = Some s" "tcp_run fw env up es s = Some st'"
    unfolding tcp_run_Cons by blast
  from Cons.IH [OF s(2)] obtain rest where r:
      "map fst (tf_conns s) @ (if tf_open s then tf_backlog s else []) @ arrivals es = map fst (tf_conns st') @ rest"
      "tf_open st' \<longrightarrow> rest = tf_backlog st'" by blast
  show ?case
  proof (cases "tf_open s")
    case True
    with tcp_step_order [OF s(1)] have "map fst (tf_conns s) @ tf_backlog s = map fst (tf_conns st) @ tf_backlog st @ arrivals [e]"
      by simp
    then have "map fst (tf_conns st) @ tf_backlog st @ arrivals [e] @ arrivals es =
        (map fst (tf_conns s) @ tf_backlog s) @ arrivals es" by (simp only: append_assoc)
    with r True tcp_step_open [OF s(1) True] show ?thesis
      by (intro exI [of _ rest]) (simp add: arrivals_Cons [of e es])
  next
    case False
    from tcp_run_closed [OF s(2) False] tcp_step_closing [OF s(1) False] show ?thesis by simp
  qed
qed simp

section \<open>Winding down\<close>

text \<open>A bound on the moves still to come once the socket is closed.\<close>

fun conn_load :: "forward \<Rightarrow> relay_env \<Rightarrow> byte list \<Rightarrow> tcp_conn \<Rightarrow> nat" where
  "conn_load fw env up Dialing = length up + length (re_down env) + 4"
| "conn_load fw env up (Relaying p) = pipe_load p"
| "conn_load fw env up (Finished r) = 0"

definition tcp_load :: "forward \<Rightarrow> (nat \<Rightarrow> relay_env) \<Rightarrow> (nat \<Rightarrow> byte list) \<Rightarrow> tcp_forward \<Rightarrow> nat" where
  "tcp_load fw env up st = (if tf_looping st then 1 else 0) + (\<Sum>(i, c)\<leftarrow>tf_conns st. conn_load fw (env i) (up i) c)"

lemma dialed_load: "conn_load fw env up (dialed fw env up) < conn_load fw env up Dialing"
  by (simp add: dialed_def pipe_start_def pipe_load_def Let_def split: option.splits)

lemma set_conn_load:
  assumes "distinct (map fst cs)" "map_of cs i = Some c" "(f i c' :: nat) < f i c"
  shows "(\<Sum>(j, x)\<leftarrow>set_conn i c' cs. f j x) < (\<Sum>(j, x)\<leftarrow>cs. f j x)"
  using assms
proof (induction cs)
  case (Cons kx cs)
  obtain k x where kx: "kx = (k, x)" by (cases kx)
  show ?case
  proof (cases "k = i")
    case True
    with Cons.prems kx have "i \<notin> fst ` set cs" by simp
    then have "set_conn i c' cs = cs" by (force simp: set_conn_def intro!: map_idI)
    with True Cons.prems kx show ?thesis by (simp add: set_conn_def)
  next
    case False
    with Cons kx show ?thesis by (simp add: set_conn_def)
  qed
qed simp

lemma tcp_step_load:
  assumes "tcp_step fw env up e st = Some st'" "\<not> tf_open st" "tcp_ok fw env up st"
  shows "tcp_load fw env up st' < tcp_load fw env up st"
proof (cases e)
  case (DialDone i)
  with assms(1) have d: "map_of (tf_conns st) i = Some Dialing"
      "st' = st\<lparr>tf_conns := set_conn i (dialed fw (env i) (up i)) (tf_conns st)\<rparr>"
    by (auto split: option.splits tcp_conn.splits)
  from set_conn_load [OF _ d(1), of "\<lambda>i. conn_load fw (env i) (up i)" "dialed fw (env i) (up i)"] dialed_load assms(3) d(2)
  show ?thesis by (simp add: tcp_load_def tcp_ok_def)
next
  case (CopyStep i pe)
  with assms(1) obtain p p' where p: "map_of (tf_conns st) i = Some (Relaying p)" "pipe_step pe p = Some p'"
      "st' = st\<lparr>tf_conns := set_conn i (Relaying p') (tf_conns st)\<rparr>"
    by (auto split: option.splits tcp_conn.splits)
  from set_conn_load [OF _ p(1), of "\<lambda>i. conn_load fw (env i) (up i)" "Relaying p'"] pipe_step_load [OF p(2)] assms(3) p(3)
  show ?thesis by (simp add: tcp_load_def tcp_ok_def)
qed (use assms(1,2) in \<open>auto simp: tcp_load_def split: if_splits\<close>)

lemma tcp_run_load:
  "tcp_run fw env up es st = Some st' \<Longrightarrow> \<not> tf_open st \<Longrightarrow> tcp_ok fw env up st \<Longrightarrow>
     length es + tcp_load fw env up st' \<le> tcp_load fw env up st"
proof (induction es arbitrary: st)
  case (Cons e es)
  from Cons.prems(1) obtain s where s: "tcp_step fw env up e st = Some s" "tcp_run fw env up es s = Some st'"
    unfolding tcp_run_Cons by blast
  have "\<not> tf_open s" "tcp_ok fw env up s" using tcp_step_closed [OF s(1) Cons.prems(2)] tcp_step_ok [OF s(1) Cons.prems(3)] by simp_all
  from Cons.IH [OF s(2) this] tcp_step_load [OF s(1) Cons.prems(2,3)] show ?case by simp
qed simp

text \<open>Nothing was cut: without an error on either side of a connection, a half-closed direction
  has been copied to its last byte.\<close>

definition no_breaks :: "tcp_event list \<Rightarrow> bool" where
  "no_breaks es \<longleftrightarrow> (\<forall>i. CopyStep i BreakUp \<notin> set es \<and> CopyStep i BreakDown \<notin> set es)"

definition conns_whole :: "tcp_forward \<Rightarrow> bool" where
  "conns_whole st \<longleftrightarrow> (\<forall>(i, c)\<in>set (tf_conns st). \<forall>p. c = Relaying p \<longrightarrow> ends_last p)"

lemma dialed_whole: "dialed fw env up = Relaying p \<Longrightarrow> ends_last p"
  by (auto simp: dialed_def pipe_start_def ends_last_def Let_def split: if_splits option.splits)

lemma tcp_step_whole:
  assumes "tcp_step fw env up e st = Some st'" "no_breaks [e]" "conns_whole st"
  shows "conns_whole st'"
proof (cases e)
  case (DialDone i)
  with assms(1) have "st' = st\<lparr>tf_conns := set_conn i (dialed fw (env i) (up i)) (tf_conns st)\<rparr>"
    by (auto split: option.splits tcp_conn.splits)
  with assms(3) show ?thesis by (auto simp: conns_whole_def dest!: set_conn_in dest: dialed_whole [OF sym] dialed_whole)
next
  case (CopyStep i pe)
  with assms(1) obtain p p' where p: "map_of (tf_conns st) i = Some (Relaying p)" "pipe_step pe p = Some p'"
      "st' = st\<lparr>tf_conns := set_conn i (Relaying p') (tf_conns st)\<rparr>"
    by (auto split: option.splits tcp_conn.splits)
  have "pe \<noteq> BreakUp \<and> pe \<noteq> BreakDown" using assms(2) CopyStep by (auto simp: no_breaks_def)
  moreover have "ends_last p" using assms(3) map_of_SomeD [OF p(1)] by (auto simp: conns_whole_def)
  ultimately have "ends_last p'" using pipe_step_ends [OF p(2)] by blast
  with assms(3) p(3) show ?thesis by (auto simp: conns_whole_def dest!: set_conn_in)
qed (use assms(1,3) in \<open>fastforce simp: conns_whole_def split: if_splits list.splits\<close>)+

lemma tcp_run_whole: "tcp_run fw env up es st = Some st' \<Longrightarrow> no_breaks es \<Longrightarrow> conns_whole st \<Longrightarrow> conns_whole st'"
proof (induction es arbitrary: st)
  case (Cons e es)
  from Cons.prems(1) obtain s where s: "tcp_step fw env up e st = Some s" "tcp_run fw env up es s = Some st'"
    unfolding tcp_run_Cons by blast
  have "no_breaks [e]" "no_breaks es" using Cons.prems(2) by (auto simp: no_breaks_def)
  with Cons.IH [OF s(2)] tcp_step_whole [OF s(1)] Cons.prems(3) show ?case by blast
qed simp

text \<open>When nothing but an error could happen any more, the loop has ended, so that \<open>stop\<close>
  returns, and every relay is over.\<close>

definition tcp_quiet :: "forward \<Rightarrow> (nat \<Rightarrow> relay_env) \<Rightarrow> (nat \<Rightarrow> byte list) \<Rightarrow> tcp_forward \<Rightarrow> bool" where
  "tcp_quiet fw env up st \<longleftrightarrow> (\<forall>e. no_breaks [e] \<longrightarrow> tcp_step fw env up e st = None)"

fun conn_result :: "tcp_conn \<Rightarrow> relay_result option" where
  "conn_result Dialing = None"
| "conn_result (Relaying p) =
     (if pi_returned p then Some \<lparr>rr_dialed = True, rr_to_backend = pi_to_target p, rr_to_client = pi_to_client p\<rparr> else None)"
| "conn_result (Finished r) = Some r"

lemma tcp_quiet_ends:
  assumes "tcp_quiet fw env up st" "tcp_ok fw env up st" "conns_whole st"
  shows "\<not> tf_looping st" "\<forall>(i, c)\<in>set (tf_conns st). conn_result c = Some (handleTCP (env i) fw (up i))"
proof -
  have quiet: "no_breaks [e] \<Longrightarrow> tcp_step fw env up e st = None" for e using assms(1) by (simp add: tcp_quiet_def)
  have "tcp_step fw env up AcceptError st = None" by (rule quiet) (simp add: no_breaks_def)
  then show "\<not> tf_looping st" by (auto split: if_splits)
  have "conn_result c = Some (handleTCP (env i) fw (up i))" if c: "(i, c) \<in> set (tf_conns st)" for i c
  proof -
    have m: "map_of (tf_conns st) i = Some c" using c assms(2) by (simp add: tcp_ok_def)
    have ok: "conn_ok fw (env i) (up i) c" using c assms(2) by (auto simp: tcp_ok_def)
    show ?thesis
    proof (cases c)
      case Dialing
      then have "tcp_step fw env up (DialDone i) st \<noteq> None" using m by simp
      moreover have "tcp_step fw env up (DialDone i) st = None" by (rule quiet) (simp add: no_breaks_def)
      ultimately show ?thesis by simp
    next
      case (Relaying p)
      have stuck: "pipe_step e p = None" if "e \<noteq> BreakUp" "e \<noteq> BreakDown" for e
      proof -
        have "tcp_step fw env up (CopyStep i e) st = None" by (rule quiet) (use that in \<open>simp add: no_breaks_def\<close>)
        then show ?thesis using m Relaying by (simp split: option.splits)
      qed
      have "ends_last p" using assms(3) c Relaying by (auto simp: conns_whole_def)
      then have "pi_up p = []" "pi_down p = []"
        using stuck [of "CopyUp 0"] stuck [of "CopyDown 0"] by (auto simp: ends_last_def split: if_splits)
      with pipe_stuck [OF stuck] ok Relaying show ?thesis by simp
    qed (use ok in simp)
  qed
  then show "\<forall>(i, c)\<in>set (tf_conns st). conn_result c = Some (handleTCP (env i) fw (up i))" by blast
qed

section \<open>An error of \<open>Accept\<close>\<close>

lemma tcp_step_deaf:
  "tcp_step fw env up e st = Some st' \<Longrightarrow> \<not> tf_looping st \<Longrightarrow>
     \<not> tf_looping st' \<and> map fst (tf_conns st') = map fst (tf_conns st)"
  by (cases e) (auto split: if_splits list.splits option.splits tcp_conn.splits)

lemma tcp_run_deaf:
  "tcp_run fw env up es st = Some st' \<Longrightarrow> \<not> tf_looping st \<Longrightarrow>
     \<not> tf_looping st' \<and> map fst (tf_conns st') = map fst (tf_conns st)"
proof (induction es arbitrary: st)
  case (Cons e es)
  from Cons.prems(1) obtain s where s: "tcp_step fw env up e st = Some s" "tcp_run fw env up es s = Some st'"
    unfolding tcp_run_Cons by blast
  from Cons.IH [OF s(2)] tcp_step_deaf [OF s(1) Cons.prems(2)] show ?case by simp
qed simp

lemma tcp_run_error:
  "tcp_run fw env up es st = Some st' \<Longrightarrow> AcceptError \<in> set es \<Longrightarrow> \<not> tf_looping st'"
proof (induction es arbitrary: st)
  case (Cons e es)
  from Cons.prems(1) obtain s where s: "tcp_step fw env up e st = Some s" "tcp_run fw env up es s = Some st'"
    unfolding tcp_run_Cons by blast
  show ?case
  proof (cases "e = AcceptError")
    case True
    with s(1) have "\<not> tf_looping s" by (auto split: if_splits)
    with tcp_run_deaf [OF s(2)] show ?thesis by blast
  next
    case False
    with Cons s show ?thesis by auto
  qed
qed simp

lemma tcp_run_open: "tcp_run fw env up es st = Some st' \<Longrightarrow> CloseListener \<notin> set es \<Longrightarrow> tf_open st' = tf_open st"
proof (induction es arbitrary: st)
  case (Cons e es)
  from Cons.prems(1) obtain s where s: "tcp_step fw env up e st = Some s" "tcp_run fw env up es s = Some st'"
    unfolding tcp_run_Cons by blast
  have "tf_open s = tf_open st"
    using s(1) Cons.prems(2) by (cases e) (auto split: if_splits list.splits option.splits tcp_conn.splits)
  with Cons.IH [OF s(2)] Cons.prems(2) show ?case by simp
qed simp

lemmas [model_eval] = tcp_start_def set_conn_def dialed_def

end
