(* ===== verification/Udp.thy ===== *)
theory Udp
  imports Prelude GoIP
begin

text \<open>
  The UDP relay of \<open>forward.go\<close> (\<open>udpLoop\<close>) as a machine over events: datagrams from
  clients, replies and read errors on the backend sockets, the reaper's tick, the passing of
  time and the closing of the listening socket. The session map is guarded by a mutex, so
  every event is one step. A backend socket is a number; \<open>ud_reverse\<close> are the goroutines
  that copy replies back, with the client each of them writes to. Sent datagrams are logged.
  Time is in seconds; the reaper's ticker fires every 30 of them.
\<close>

record udp_session =
  us_back :: nat
  us_last :: nat

record udp_state =
  ud_open :: bool
  ud_now :: nat
  ud_tick :: nat
  ud_sessions :: "(string \<times> udp_session) list"
  ud_next :: nat
  ud_socks :: "nat list"
  ud_reverse :: "(nat \<times> string) list"
  ud_to_backend :: "(nat \<times> string \<times> byte list) list"
  ud_to_client :: "(nat \<times> string \<times> byte list) list"

datatype udp_event =
    Packet string "byte list" bool
  | Reply nat "byte list"
  | ReadError nat
  | Tick
  | Advance nat
  | CloseSocket

definition udpSessionIdle :: nat where
  "udpSessionIdle = 90"

definition reaper_period :: nat where
  "reaper_period = 30"

definition udp_start :: udp_state where
  "udp_start = \<lparr>ud_open = True, ud_now = 0, ud_tick = reaper_period, ud_sessions = [], ud_next = 0,
     ud_socks = [], ud_reverse = [], ud_to_backend = [], ud_to_client = []\<rparr>"

text \<open>A datagram of client \<open>key\<close>: find or open its session, refresh it, send to its
  backend socket. When the dial fails the datagram is dropped.\<close>

definition udp_packet :: "string \<Rightarrow> byte list \<Rightarrow> bool \<Rightarrow> udp_state \<Rightarrow> udp_state" where
  "udp_packet key bs dial st =
     (case map_of (ud_sessions st) key of
        Some s \<Rightarrow>
          st\<lparr>ud_sessions := AList.update key (s\<lparr>us_last := ud_now st\<rparr>) (ud_sessions st),
             ud_to_backend := (us_back s, key, bs) # ud_to_backend st\<rparr>
      | None \<Rightarrow>
          if \<not> dial then st
          else (let i = ud_next st
            in st\<lparr>ud_next := Suc i, ud_socks := i # ud_socks st, ud_reverse := (i, key) # ud_reverse st,
                  ud_sessions := AList.update key \<lparr>us_back = i, us_last = ud_now st\<rparr> (ud_sessions st),
                  ud_to_backend := (i, key, bs) # ud_to_backend st\<rparr>))"

text \<open>One pass of the reaper; closing a backend socket removes it from the open ones.\<close>

definition idle :: "udp_state \<Rightarrow> udp_session \<Rightarrow> bool" where
  "idle st s \<longleftrightarrow> ud_now st - us_last s > udpSessionIdle"

definition udp_reap :: "udp_state \<Rightarrow> udp_state" where
  "udp_reap st =
     (let gone = map (us_back \<circ> snd) (filter (\<lambda>(k, s). idle st s) (ud_sessions st))
      in st\<lparr>ud_sessions := filter (\<lambda>(k, s). \<not> idle st s) (ud_sessions st),
            ud_socks := filter (\<lambda>i. i \<notin> set gone) (ud_socks st)\<rparr>)"

text \<open>The read error after \<open>stop\<close> closed the socket: all sessions are torn down.\<close>

definition udp_close :: "udp_state \<Rightarrow> udp_state" where
  "udp_close st =
     (let gone = map (us_back \<circ> snd) (ud_sessions st)
      in st\<lparr>ud_open := False, ud_sessions := [], ud_socks := filter (\<lambda>i. i \<notin> set gone) (ud_socks st)\<rparr>)"

text \<open>An event that cannot happen in a state gives \<^const>\<open>None\<close>: a datagram or a tick after
  the close, a reply on a closed socket or without its goroutine, a clock that runs past a tick
  that is due.\<close>

fun udp_step :: "udp_event \<Rightarrow> udp_state \<Rightarrow> udp_state option" where
  "udp_step (Packet key bs dial) st = (if ud_open st then Some (udp_packet key bs dial st) else None)"
| "udp_step (Reply i bs) st =
     (case map_of (ud_reverse st) i of
        Some client \<Rightarrow>
          if i \<in> set (ud_socks st) then Some (st\<lparr>ud_to_client := (i, client, bs) # ud_to_client st\<rparr>) else None
      | None \<Rightarrow> None)"
| "udp_step (ReadError i) st =
     (if map_of (ud_reverse st) i \<noteq> None then Some (st\<lparr>ud_reverse := filter (\<lambda>(j, c). j \<noteq> i) (ud_reverse st)\<rparr>)
      else None)"
| "udp_step Tick st =
     (if ud_open st \<and> ud_now st = ud_tick st then Some (udp_reap (st\<lparr>ud_tick := ud_tick st + reaper_period\<rparr>)) else None)"
| "udp_step (Advance d) st =
     (if ud_open st \<and> ud_now st + d > ud_tick st then None else Some (st\<lparr>ud_now := ud_now st + d\<rparr>))"
| "udp_step CloseSocket st = (if ud_open st then Some (udp_close st) else None)"

fun udp_run :: "udp_event list \<Rightarrow> udp_state \<Rightarrow> udp_state option" where
  "udp_run [] st = Some st"
| "udp_run (e # es) st = (case udp_step e st of None \<Rightarrow> None | Some st' \<Rightarrow> udp_run es st')"

section \<open>The invariant\<close>

text \<open>Open sockets are those of the sessions, one each; a goroutine on a session's socket
  writes to that session's client; a logged reply went to the client whose datagrams the
  socket carries.\<close>

definition sessions_ok :: "(string \<times> udp_session) list \<Rightarrow> nat \<Rightarrow> nat \<Rightarrow> bool" where
  "sessions_ok ss next now \<longleftrightarrow> distinct (map fst ss) \<and> distinct (map (us_back \<circ> snd) ss)
     \<and> (\<forall>e\<in>set ss. us_back (snd e) < next \<and> us_last (snd e) \<le> now)"

definition sockets_ok :: "(string \<times> udp_session) list \<Rightarrow> nat list \<Rightarrow> bool" where
  "sockets_ok ss socks \<longleftrightarrow> distinct socks \<and> set socks = set (map (us_back \<circ> snd) ss)"

definition reverse_ok :: "(string \<times> udp_session) list \<Rightarrow> (nat \<times> string) list \<Rightarrow> nat \<Rightarrow> bool" where
  "reverse_ok ss rv next \<longleftrightarrow> distinct (map fst rv) \<and> (\<forall>r\<in>set rv. fst r < next)
     \<and> (\<forall>e\<in>set ss. \<forall>r\<in>set rv. fst r = us_back (snd e) \<longrightarrow> snd r = fst e)"

definition udp_ok :: "udp_state \<Rightarrow> bool" where
  "udp_ok st \<longleftrightarrow> sessions_ok (ud_sessions st) (ud_next st) (ud_now st)
     \<and> sockets_ok (ud_sessions st) (ud_socks st) \<and> reverse_ok (ud_sessions st) (ud_reverse st) (ud_next st)"

text \<open>One socket, one client: in both directions.\<close>

definition owned_log :: "(nat \<Rightarrow> string) \<Rightarrow> nat \<Rightarrow> (nat \<times> string \<times> byte list) list \<Rightarrow> bool" where
  "owned_log owner next log \<longleftrightarrow> (\<forall>e\<in>set log. owner (fst e) = fst (snd e) \<and> fst e < next)"

definition udp_owner :: "(nat \<Rightarrow> string) \<Rightarrow> udp_state \<Rightarrow> bool" where
  "udp_owner owner st \<longleftrightarrow>
     (\<forall>e\<in>set (ud_sessions st). owner (us_back (snd e)) = fst e)
     \<and> (\<forall>r\<in>set (ud_reverse st). owner (fst r) = snd r)
     \<and> owned_log owner (ud_next st) (ud_to_backend st) \<and> owned_log owner (ud_next st) (ud_to_client st)"

lemma set_update_present:
  "distinct (map fst al) \<Longrightarrow> map_of al k = Some u \<Longrightarrow>
     set (AList.update k v al) = insert (k, v) (set al - {(k, u)})"
proof (induction al)
  case (Cons e al)
  then show ?case by (cases e) (auto simp: image_iff)
qed simp

lemma us_back_update:
  "map_of al k = Some s \<Longrightarrow> us_back v = us_back s \<Longrightarrow>
     map (us_back \<circ> snd) (AList.update k v al) = map (us_back \<circ> snd) al"
  by (induction al) auto

lemma update_absent: "map_of al k = None \<Longrightarrow> AList.update k v al = al @ [(k, v)]"
  by (induction al) auto

lemma packet_cases:
  obtains (known) s where "map_of (ud_sessions st) key = Some s"
  | (dropped) "map_of (ud_sessions st) key = None" "\<not> dial"
  | (opened) "map_of (ud_sessions st) key = None" "dial"
  by (cases "map_of (ud_sessions st) key") auto

lemma refresh_ok:
  assumes m: "map_of ss key = Some s" and ok: "sessions_ok ss n now" "sockets_ok ss socks" "reverse_ok ss rv n"
  defines "ss' \<equiv> AList.update key (s\<lparr>us_last := now\<rparr>) ss"
  shows "sessions_ok ss' n now" "sockets_ok ss' socks" "reverse_ok ss' rv n"
proof -
  have d: "distinct (map fst ss)" using ok by (simp add: sessions_ok_def)
  have backs: "map (us_back \<circ> snd) ss' = map (us_back \<circ> snd) ss"
    unfolding ss'_def by (rule us_back_update [OF m]) simp
  have sub: "set ss' \<subseteq> insert (key, s\<lparr>us_last := now\<rparr>) (set ss)"
    unfolding ss'_def set_update_present [OF d m] by blast
  have s: "(key, s) \<in> set ss" by (rule map_of_SomeD [OF m])
  have "us_back (snd e) < n \<and> us_last (snd e) \<le> now" if "e \<in> set ss'" for e
    using subsetD [OF sub that] ok(1) s by (force simp: sessions_ok_def)
  moreover have "distinct (map fst ss')" unfolding ss'_def by (rule distinct_update [OF d])
  ultimately show "sessions_ok ss' n now"
    using ok(1) backs by (simp add: sessions_ok_def)
  show "sockets_ok ss' socks" using ok(2) backs by (simp add: sockets_ok_def)
  have "snd r = fst e" if "e \<in> set ss'" "r \<in> set rv" "fst r = us_back (snd e)" for e r
    using subsetD [OF sub that(1)] ok(3) s that(2,3) by (force simp: reverse_ok_def)
  with ok(3) show "reverse_ok ss' rv n" by (simp add: reverse_ok_def)
qed

lemma open_ok:
  assumes m: "map_of ss key = None" and ok: "sessions_ok ss n now" "sockets_ok ss socks" "reverse_ok ss rv n"
  defines "ss' \<equiv> AList.update key \<lparr>us_back = n, us_last = now\<rparr> ss"
  shows "sessions_ok ss' (Suc n) now" "sockets_ok ss' (n # socks)" "reverse_ok ss' ((n, key) # rv) (Suc n)"
proof -
  have lt: "us_back (snd e) < n" if "e \<in> set ss" for e using ok(1) that by (simp add: sessions_ok_def)
  have ltr: "fst r < n" if "r \<in> set rv" for r using ok(3) that by (simp add: reverse_ok_def)
  have key: "key \<notin> fst ` set ss" using m by (simp add: map_of_eq_None_iff)
  have ss': "ss' = ss @ [(key, \<lparr>us_back = n, us_last = now\<rparr>)]"
    unfolding ss'_def by (rule update_absent [OF m])
  show "sessions_ok ss' (Suc n) now"
    using ok(1) key lt by (fastforce simp: sessions_ok_def ss')
  show "sockets_ok ss' (n # socks)"
    using ok(2) lt by (fastforce simp: sockets_ok_def ss')
  show "reverse_ok ss' ((n, key) # rv) (Suc n)"
    using ok(3) lt ltr by (fastforce simp: reverse_ok_def ss')
qed

lemma filter_ok:
  assumes ok: "sessions_ok ss n now" "sockets_ok ss socks" "reverse_ok ss rv n"
  shows "sessions_ok (filter P ss) n now"
    "sockets_ok (filter P ss) (filter (\<lambda>i. i \<notin> set (map (us_back \<circ> snd) (filter (\<lambda>e. \<not> P e) ss))) socks)"
    "reverse_ok (filter P ss) rv n"
proof -
  show "sessions_ok (filter P ss) n now"
    using ok(1) by (auto simp: sessions_ok_def distinct_map_filter)
  show "reverse_ok (filter P ss) rv n" using ok(3) by (auto simp: reverse_ok_def)
  have "inj_on (us_back \<circ> snd) (set ss)" using ok(1) by (simp add: sessions_ok_def distinct_map)
  then have inj: "e = x" if "e \<in> set ss" "x \<in> set ss" "us_back (snd e) = us_back (snd x)" for e x
    using that inj_onD [of "us_back \<circ> snd" "set ss" e x] by simp
  have "us_back (snd e) \<in> (us_back \<circ> snd) ` {x \<in> set ss. \<not> P x} \<longleftrightarrow> \<not> P e" if e: "e \<in> set ss" for e
  proof
    assume "us_back (snd e) \<in> (us_back \<circ> snd) ` {x \<in> set ss. \<not> P x}"
    then obtain x where "x \<in> set ss" "\<not> P x" "us_back (snd e) = us_back (snd x)" by auto
    with inj [OF e] show "\<not> P e" by simp
  next
    assume "\<not> P e"
    with e show "us_back (snd e) \<in> (us_back \<circ> snd) ` {x \<in> set ss. \<not> P x}" by (intro image_eqI [of _ _ e]) simp_all
  qed
  with ok(2) show "sockets_ok (filter P ss) (filter (\<lambda>i. i \<notin> set (map (us_back \<circ> snd) (filter (\<lambda>e. \<not> P e) ss))) socks)"
    by (auto simp: sockets_ok_def)
qed

lemma sessions_ok_later: "sessions_ok ss n now \<Longrightarrow> sessions_ok ss n (now + d)"
  by (simp add: sessions_ok_def trans_le_add1)

lemma reverse_ok_filter: "reverse_ok ss rv n \<Longrightarrow> reverse_ok ss (filter P rv) n"
  by (simp add: reverse_ok_def distinct_map_filter)

lemma udp_packet_ok:
  assumes ok: "udp_ok st"
  shows "udp_ok (udp_packet key bs dial st)"
proof (rule packet_cases [where st = st and key = key and dial = dial])
  fix s
  assume known: "map_of (ud_sessions st) key = Some s"
  with ok refresh_ok [OF known, of "ud_next st" "ud_now st" "ud_socks st" "ud_reverse st"]
  show ?thesis by (simp add: udp_packet_def udp_ok_def)
next
  assume dropped: "map_of (ud_sessions st) key = None" "\<not> dial"
  with ok show ?thesis by (simp add: udp_packet_def)
next
  assume opened: "map_of (ud_sessions st) key = None" "dial"
  with ok open_ok [OF opened(1), of "ud_next st" "ud_now st" "ud_socks st" "ud_reverse st"]
  show ?thesis by (simp add: udp_packet_def udp_ok_def Let_def)
qed

lemma udp_reap_ok: "udp_ok st \<Longrightarrow> udp_ok (udp_reap st)"
  using filter_ok [of "ud_sessions st" "ud_next st" "ud_now st" "ud_socks st" "ud_reverse st" "\<lambda>(k, s). \<not> idle st s"]
  by (simp add: udp_ok_def udp_reap_def Let_def case_prod_unfold)

lemma udp_close_ok: "udp_ok st \<Longrightarrow> udp_ok (udp_close st) \<and> ud_socks (udp_close st) = []"
  using filter_ok [of "ud_sessions st" "ud_next st" "ud_now st" "ud_socks st" "ud_reverse st" "\<lambda>_. False"]
  by (auto simp: udp_ok_def udp_close_def Let_def sockets_ok_def filter_empty_conv)

lemma udp_step_ok: "udp_ok st \<Longrightarrow> udp_step e st = Some st' \<Longrightarrow> udp_ok st'"
proof (induction e st rule: udp_step.induct)
  case (1 key bs dial st)
  then show ?case by (auto split: if_splits intro: udp_packet_ok)
next
  case (2 i bs st)
  then show ?case by (auto simp: udp_ok_def split: option.splits if_splits)
next
  case (3 i st)
  then show ?case by (auto simp: udp_ok_def reverse_ok_filter split: if_splits)
next
  case (4 st)
  then have "udp_ok (st\<lparr>ud_tick := ud_tick st + reaper_period\<rparr>)" by (simp add: udp_ok_def)
  with 4 show ?case by (auto split: if_splits dest: udp_reap_ok)
next
  case (5 d st)
  then show ?case by (auto simp: udp_ok_def sessions_ok_later split: if_splits)
next
  case (6 st)
  then show ?case by (auto split: if_splits dest: udp_close_ok)
qed

lemma udp_run_ok: "udp_ok st \<Longrightarrow> udp_run es st = Some st' \<Longrightarrow> udp_ok st'"
  by (induction es arbitrary: st) (auto split: option.splits dest: udp_step_ok)

lemma udp_start_ok: "udp_ok udp_start" "udp_owner owner udp_start"
  by (simp_all add: udp_ok_def sessions_ok_def sockets_ok_def reverse_ok_def udp_start_def udp_owner_def
      owned_log_def)

section \<open>Isolation of clients\<close>

lemma owned_log_upd: "owned_log owner n log \<Longrightarrow> owned_log (owner(n := k)) (Suc n) log"
  by (fastforce simp: owned_log_def)

lemma owned_log_Cons: "owned_log owner n (e # log) \<longleftrightarrow> owner (fst e) = fst (snd e) \<and> fst e < n \<and> owned_log owner n log"
  by (auto simp: owned_log_def)

lemma udp_packet_owner:
  assumes ok: "udp_ok st" and ow: "udp_owner owner st"
  shows "\<exists>owner'. udp_owner owner' (udp_packet key bs dial st)"
proof (rule packet_cases [where st = st and key = key and dial = dial])
  fix s
  assume known: "map_of (ud_sessions st) key = Some s"
  have d: "distinct (map fst (ud_sessions st))" using ok by (simp add: udp_ok_def sessions_ok_def)
  have "owner (us_back s) = key" "us_back s < ud_next st"
    using ow ok map_of_SomeD [OF known] by (force simp: udp_owner_def udp_ok_def sessions_ok_def)+
  with ow have "udp_owner owner (udp_packet key bs dial st)"
    by (simp add: udp_packet_def known udp_owner_def owned_log_Cons set_update_present [OF d known])
  then show ?thesis by blast
next
  assume "map_of (ud_sessions st) key = None" "\<not> dial"
  with ow show ?thesis by (auto simp: udp_packet_def)
next
  assume opened: "map_of (ud_sessions st) key = None" "dial"
  let ?n = "ud_next st"
  have "us_back (snd e) \<noteq> ?n" if "e \<in> set (ud_sessions st)" for e
    using ok that by (auto simp: udp_ok_def sessions_ok_def)
  moreover have "fst r \<noteq> ?n" if "r \<in> set (ud_reverse st)" for r
    using ok that by (auto simp: udp_ok_def reverse_ok_def)
  ultimately have "udp_owner (owner(?n := key)) (udp_packet key bs dial st)"
    using ow opened owned_log_upd [of owner ?n _ key]
    by (simp add: udp_packet_def udp_owner_def update_absent Let_def owned_log_Cons)
  then show ?thesis by blast
qed

lemma udp_step_owner:
  assumes "udp_ok st" "udp_owner owner st" "udp_step e st = Some st'"
  shows "\<exists>owner'. udp_owner owner' st'"
  using assms
proof (induction e st rule: udp_step.induct)
  case (1 key bs dial st)
  then show ?case by (auto split: if_splits intro: udp_packet_owner)
next
  case (2 i bs st)
  then obtain c where c: "map_of (ud_reverse st) i = Some c" "st' = st\<lparr>ud_to_client := (i, c, bs) # ud_to_client st\<rparr>"
    by (auto split: option.splits if_splits)
  have "owner i = c" "i < ud_next st"
    using map_of_SomeD [OF c(1)] 2 by (force simp: udp_owner_def udp_ok_def reverse_ok_def)+
  with 2 c have "udp_owner owner st'" by (simp add: udp_owner_def owned_log_Cons)
  then show ?case by blast
next
  case (3 i st)
  then have "udp_owner owner st'" by (auto simp: udp_owner_def split: if_splits)
  then show ?case by blast
next
  case (4 st)
  then have "udp_owner owner st'" by (auto simp: udp_owner_def udp_reap_def Let_def split: if_splits)
  then show ?case by blast
next
  case (5 d st)
  then have "udp_owner owner st'" by (auto simp: udp_owner_def split: if_splits)
  then show ?case by blast
next
  case (6 st)
  then have "udp_owner owner st'" by (auto simp: udp_owner_def udp_close_def Let_def split: if_splits)
  then show ?case by blast
qed

lemma udp_run_owner:
  "udp_ok st \<Longrightarrow> \<exists>owner. udp_owner owner st \<Longrightarrow> udp_run es st = Some st' \<Longrightarrow> \<exists>owner. udp_owner owner st'"
proof (induction es arbitrary: st)
  case (Cons e es)
  then obtain st1 where s: "udp_step e st = Some st1" "udp_run es st1 = Some st'" by (auto split: option.splits)
  with Cons.prems udp_step_owner udp_step_ok [OF _ s(1)] show ?case by (intro Cons.IH [OF _ _ s(2)]) blast+
qed simp

section \<open>How long a mapping lives\<close>

text \<open>While the relay runs the clock never passes a due tick, and the next tick comes at most
  120 seconds after the last datagram of any client that still has a mapping.\<close>

definition udp_timely :: "udp_state \<Rightarrow> bool" where
  "udp_timely st \<longleftrightarrow> (ud_open st \<longrightarrow> ud_now st \<le> ud_tick st \<and> ud_tick st \<le> ud_now st + reaper_period
     \<and> (\<forall>e\<in>set (ud_sessions st). ud_tick st \<le> us_last (snd e) + udpSessionIdle + reaper_period))"

lemma udp_packet_timely:
  assumes "udp_ok st" "udp_timely st"
  shows "udp_timely (udp_packet key bs dial st)"
proof (rule packet_cases [where st = st and key = key and dial = dial])
  fix s
  assume known: "map_of (ud_sessions st) key = Some s"
  have d: "distinct (map fst (ud_sessions st))" using assms(1) by (simp add: udp_ok_def sessions_ok_def)
  show ?thesis
    using assms(2) by (auto simp: udp_packet_def known udp_timely_def set_update_present [OF d known] udpSessionIdle_def)
next
  assume "map_of (ud_sessions st) key = None" "\<not> dial"
  with assms show ?thesis by (simp add: udp_packet_def)
next
  assume opened: "map_of (ud_sessions st) key = None" "dial"
  with assms(2) show ?thesis
    by (auto simp: udp_packet_def udp_timely_def update_absent Let_def udpSessionIdle_def)
qed

lemma udp_step_timely: "udp_ok st \<Longrightarrow> udp_timely st \<Longrightarrow> udp_step e st = Some st' \<Longrightarrow> udp_timely st'"
proof (induction e st rule: udp_step.induct)
  case (1 key bs dial st)
  then show ?case by (auto split: if_splits intro: udp_packet_timely)
next
  case (2 i bs st)
  then obtain c where "st' = st\<lparr>ud_to_client := (i, c, bs) # ud_to_client st\<rparr>"
    by (auto split: option.splits if_splits)
  with 2 show ?case by (simp add: udp_timely_def)
next
  case (3 i st)
  then have "st' = st\<lparr>ud_reverse := filter (\<lambda>(j, c). j \<noteq> i) (ud_reverse st)\<rparr>" by (simp split: if_splits)
  with 3 show ?case by (simp add: udp_timely_def)
next
  case (4 st)
  then show ?case
    by (fastforce simp: udp_timely_def udp_reap_def Let_def idle_def udpSessionIdle_def reaper_period_def split: if_splits)
next
  case (5 d st)
  then show ?case by (fastforce simp: udp_timely_def split: if_splits)
next
  case (6 st)
  then show ?case by (auto simp: udp_timely_def udp_close_def Let_def split: if_splits)
qed

lemma udp_run_timely: "udp_ok st \<Longrightarrow> udp_timely st \<Longrightarrow> udp_run es st = Some st' \<Longrightarrow> udp_timely st'"
  by (induction es arbitrary: st) (auto split: option.splits dest: udp_step_ok udp_step_timely)

lemma udp_start_timely: "udp_timely udp_start"
  by (simp add: udp_timely_def udp_start_def)

text \<open>A mapping disappears only with the socket, or at a tick more than 90 seconds after the
  client's last datagram.\<close>

lemma key_update: "fst ` set al \<subseteq> fst ` set (AList.update k v al)"
  by (induction al) auto

lemma udp_step_keeps:
  assumes "udp_step e st = Some st'" "(k, s) \<in> set (ud_sessions st)" "k \<notin> fst ` set (ud_sessions st')"
  shows "e = CloseSocket \<or> e = Tick \<and> us_last s + udpSessionIdle < ud_now st"
proof (cases e)
  case (Packet key bs dial)
  have "k \<in> fst ` set (ud_sessions (udp_packet key bs dial st))"
    using assms(2) key_update [of "ud_sessions st" key]
    by (cases "map_of (ud_sessions st) key") (force simp: udp_packet_def Let_def)+
  with assms(1,3) Packet show ?thesis by (simp split: if_splits)
next
  case (Reply i bs)
  with assms show ?thesis by (force split: option.splits if_splits)
next
  case (ReadError i)
  with assms show ?thesis by (force split: if_splits)
next
  case Tick
  with assms show ?thesis by (force simp: udp_reap_def Let_def idle_def image_iff split: if_splits)
next
  case (Advance d)
  with assms show ?thesis by (force split: if_splits)
qed simp

section \<open>A client whose replies have stopped\<close>

text \<open>When the read of a backend socket fails (on Linux a closed backend port makes it fail),
  the goroutine ends and the mapping stays.\<close>

definition deaf :: "nat \<Rightarrow> udp_state \<Rightarrow> bool" where
  "deaf i st \<longleftrightarrow> i \<notin> fst ` set (ud_reverse st) \<and> i < ud_next st"

definition replies_on :: "nat \<Rightarrow> udp_state \<Rightarrow> (nat \<times> string \<times> byte list) list" where
  "replies_on i st = filter (\<lambda>e. fst e = i) (ud_to_client st)"

lemma udp_step_deaf:
  assumes "deaf i st" "udp_step e st = Some st'"
  shows "deaf i st' \<and> replies_on i st' = replies_on i st"
  using assms
proof (induction e st rule: udp_step.induct)
  case (1 key bs dial st)
  then show ?case
    by (cases "map_of (ud_sessions st) key")
      (auto simp: deaf_def replies_on_def udp_packet_def Let_def split: if_splits)
next
  case (2 j bs st)
  then show ?case by (force simp: deaf_def replies_on_def split: option.splits if_splits dest!: map_of_SomeD)
next
  case (3 j st)
  then show ?case by (auto simp: deaf_def replies_on_def split: if_splits)
next
  case (4 st)
  then show ?case by (auto simp: deaf_def replies_on_def udp_reap_def Let_def split: if_splits)
next
  case (5 d st)
  then show ?case by (auto simp: deaf_def replies_on_def split: if_splits)
next
  case (6 st)
  then show ?case by (auto simp: deaf_def replies_on_def udp_close_def Let_def split: if_splits)
qed

lemma udp_run_deaf:
  "deaf i st \<Longrightarrow> udp_run es st = Some st' \<Longrightarrow> deaf i st' \<and> replies_on i st' = replies_on i st"
proof (induction es arbitrary: st)
  case (Cons e es)
  then obtain st1 where "udp_step e st = Some st1" "udp_run es st1 = Some st'" by (auto split: option.splits)
  with Cons.IH [of st1] udp_step_deaf [OF Cons.prems(1)] show ?case by auto
qed simp

definition steady :: "string \<Rightarrow> nat \<Rightarrow> udp_state \<Rightarrow> bool" where
  "steady key i st \<longleftrightarrow> ud_open st \<and> ud_tick st = ud_now st + reaper_period
     \<and> ud_sessions st = [(key, \<lparr>us_back = i, us_last = ud_now st\<rparr>)]"

definition one_period :: "string \<Rightarrow> byte list \<Rightarrow> udp_event list" where
  "one_period key bs = [Advance reaper_period, Packet key bs True, Tick]"

lemma udp_run_append: "udp_run (es @ fs) st = (case udp_run es st of None \<Rightarrow> None | Some st' \<Rightarrow> udp_run fs st')"
  by (induction es arbitrary: st) (auto split: option.splits)

lemma steady_period:
  "steady key i st \<Longrightarrow> \<exists>st'. udp_run (one_period key bs) st = Some st' \<and> steady key i st'"
  by (simp add: steady_def one_period_def udp_packet_def udp_reap_def Let_def idle_def)

lemma steady_periods:
  "steady key i st \<Longrightarrow> \<exists>st'. udp_run (concat (replicate n (one_period key bs))) st = Some st' \<and> steady key i st'"
proof (induction n arbitrary: st)
  case (Suc n)
  obtain st1 where "udp_run (one_period key bs) st = Some st1" "steady key i st1"
    using steady_period [OF Suc.prems] by blast
  with Suc.IH [of st1] show ?case by (simp add: udp_run_append)
qed simp

lemmas [model_eval] = udpSessionIdle_def reaper_period_def udp_start_def udp_packet_def idle_def udp_reap_def
  udp_close_def

end
