(* ===== verification/RequestUri.thy ===== *)
theory RequestUri
  imports GoUrl
begin

text \<open>
  The request target of an HTTP request: how the server parses it
  (\<open>url.ParseRequestURI\<close>) and how \<open>URL.RequestURI\<close> prints it back, with the escaping of
  paths. The fields follow \<open>url.URL\<close>; the fragment never occurs in a request target.
  The fact the program relies on: printing what was parsed and parsing it again gives the
  same path and query.
\<close>

record request_url =
  ru_scheme :: string
  ru_opaque :: string
  ru_host :: string
  ru_path :: string
  ru_raw_path :: string
  ru_force_query :: bool
  ru_query :: string

section \<open>Escaping a path\<close>

text \<open>\<open>shouldEscape(c, encodePath)\<close>.\<close>

definition path_should_escape :: "char \<Rightarrow> bool" where
  "path_should_escape c \<longleftrightarrow> \<not> (is_alnum c \<or> c \<in> set ''-_.~$&+,/:;=@'')"

definition upper_hex :: "nat \<Rightarrow> char" where
  "upper_hex n = (if n < 10 then char_of (48 + n) else char_of (55 + n))"

fun escape_path :: "string \<Rightarrow> string" where
  "escape_path [] = []"
| "escape_path (c # s) =
     (if path_should_escape c
      then CHR ''%'' # upper_hex (byte_of c div 16) # upper_hex (byte_of c mod 16) # escape_path s
      else c # escape_path s)"

definition valid_encoded_byte :: "char \<Rightarrow> bool" where
  "valid_encoded_byte c \<longleftrightarrow>
     c \<in> set ''!$&()*+,;=:@[]%'' \<or> byte_of c = 39 \<or> \<not> path_should_escape c"

definition valid_encoded :: "string \<Rightarrow> bool" where
  "valid_encoded s \<longleftrightarrow> (\<forall>c\<in>set s. valid_encoded_byte c)"

definition EscapedPath :: "request_url \<Rightarrow> string" where
  "EscapedPath u =
     (if ru_raw_path u \<noteq> [] \<and> valid_encoded (ru_raw_path u) \<and> unescape EncPath (ru_raw_path u) = Inr (ru_path u)
      then ru_raw_path u
      else if ru_path u = ''*'' then ''*'' else escape_path (ru_path u))"

definition RequestURI :: "request_url \<Rightarrow> string" where
  "RequestURI u =
     (let r = (if ru_opaque u = [] then (if EscapedPath u = [] then ''/'' else EscapedPath u)
               else if has_prefix (ru_opaque u) ''//'' then ru_scheme u @ '':'' @ ru_opaque u
               else ru_opaque u)
      in if ru_force_query u \<or> ru_query u \<noteq> [] then r @ ''?'' @ ru_query u else r)"

section \<open>Parsing a request target\<close>

text \<open>\<open>setPath\<close> and the query cut of \<open>parse\<close>.\<close>

definition set_path :: "string \<Rightarrow> request_url \<Rightarrow> url_err + request_url" where
  "set_path p u =
     bind_res (unescape EncPath p) (\<lambda>path.
     Inr (u\<lparr>ru_path := path, ru_raw_path := (if p = escape_path path then [] else p)\<rparr>))"

definition cut_query :: "string \<Rightarrow> string \<times> bool \<times> string" where
  "cut_query rest =
     (case cut_byte (CHR ''?'') rest of
        None \<Rightarrow> (rest, False, [])
      | Some (a, q) \<Rightarrow> if q = [] then (a, True, []) else (a, False, q))"

definition ParseRequestURI :: "string \<Rightarrow> url_err + request_url" where
  "ParseRequestURI raw =
     (let u0 = \<lparr>ru_scheme = [], ru_opaque = [], ru_host = [], ru_path = [], ru_raw_path = [],
                ru_force_query = False, ru_query = []\<rparr>
      in if \<exists>c\<in>set raw. ctl_byte c then Inl UrlControlChar
         else if raw = [] then Inl UrlMissingScheme
         else if raw = ''*'' then Inr (u0\<lparr>ru_path := ''*''\<rparr>)
         else bind_res (get_scheme raw) (\<lambda>(sch, after).
           let scheme = to_lower sch; (rest, force, query) = cut_query after;
               u1 = u0\<lparr>ru_scheme := scheme, ru_force_query := force, ru_query := query\<rparr>
           in if \<not> has_prefix rest [slash] then
                (if scheme \<noteq> [] then Inr (u1\<lparr>ru_opaque := rest\<rparr>) else Inl UrlMissingScheme)
              else if scheme \<noteq> [] \<and> has_prefix rest ''//'' then
                (case split_authority (drop 2 rest) of (authority, p) \<Rightarrow>
                   bind_res (parse_authority authority) (\<lambda>host. set_path p (u1\<lparr>ru_host := host\<rparr>)))
              else set_path rest u1))"

section \<open>Escaping and unescaping\<close>

lemma upper_hex_props:
  assumes "n < 16"
  shows "is_hex (upper_hex n)" "unhex (upper_hex n) = n"
  using assms by (auto simp: upper_hex_def is_hex_def unhex_def is_digit_def)

lemma unescape_escape [simp]: "unescape EncPath (escape_path s) = Inr s"
proof (induction s)
  case (Cons c s)
  have b: "byte_of c div 16 < 16" "byte_of c mod 16 < 16"
    using byte_of_lt [of c] by (auto intro: less_mult_imp_div_less)
  have pct: "path_should_escape (CHR ''%'')" by (simp add: path_should_escape_def byte_class_defs)
  have "16 * (byte_of c div 16) + byte_of c mod 16 = byte_of c" by (rule mult_div_mod_eq)
  then have "char_of (16 * (byte_of c div 16) + byte_of c mod 16) = c" by (simp only: char_of_char)
  then show ?case
    using Cons pct upper_hex_props [OF b(1)] upper_hex_props [OF b(2)] by auto
qed simp

lemma path_unescaped_plain:
  assumes "\<not> path_should_escape c"
  shows "c \<noteq> CHR ''?''" "\<not> ctl_byte c" "byte_of c < 128"
  using assms by (auto simp: path_should_escape_def ctl_byte_def byte_class_defs)

lemma upper_hex_plain:
  assumes "n < 16"
  shows "upper_hex n \<noteq> CHR ''?''" "\<not> ctl_byte (upper_hex n)" "byte_of (upper_hex n) < 128"
proof -
  have "upper_hex n \<noteq> c" if "\<not> is_hex c" for c using upper_hex_props(1) [OF assms] that by metis
  then show "upper_hex n \<noteq> CHR ''?''" by (simp add: is_hex_def is_digit_def)
  show "\<not> ctl_byte (upper_hex n)" "byte_of (upper_hex n) < 128"
    using assms by (auto simp: upper_hex_def ctl_byte_def)
qed

definition uri_byte :: "char \<Rightarrow> bool" where
  "uri_byte c \<longleftrightarrow> c \<noteq> CHR ''?'' \<and> \<not> ctl_byte c \<and> byte_of c < 128"

lemma escape_path_bytes: "\<forall>c\<in>set (escape_path s). uri_byte c"
proof (induction s)
  case (Cons c s)
  have "byte_of c div 16 < 16" "byte_of c mod 16 < 16"
    using byte_of_lt [of c] by (auto intro: less_mult_imp_div_less)
  moreover have "uri_byte (CHR ''%'')" by (simp add: uri_byte_def ctl_byte_def)
  ultimately show ?case
    using Cons upper_hex_plain path_unescaped_plain [of c] by (auto simp: uri_byte_def)
qed simp

lemma valid_encoded_byte_uri: "valid_encoded_byte c \<Longrightarrow> uri_byte c"
proof -
  have set: "\<forall>c\<in>set ''!$&()*+,;=:@[]%''. uri_byte c" by (simp add: uri_byte_def ctl_byte_def)
  assume "valid_encoded_byte c"
  then consider "c \<in> set ''!$&()*+,;=:@[]%''" | "byte_of c = 39" | "\<not> path_should_escape c"
    unfolding valid_encoded_byte_def by blast
  then show "uri_byte c"
  proof cases
    case 2
    then have "c \<noteq> CHR ''?''" by auto
    with 2 show ?thesis by (simp add: uri_byte_def ctl_byte_def)
  qed (use set path_unescaped_plain [of c] in \<open>auto simp only: uri_byte_def\<close>)
qed

lemma valid_encoded_bytes: "valid_encoded s \<Longrightarrow> \<forall>c\<in>set s. uri_byte c"
  by (simp add: valid_encoded_def valid_encoded_byte_uri)

lemma escape_path_Nil_iff [simp]: "escape_path s = [] \<longleftrightarrow> s = []"
  by (cases s) auto

lemma slash_not_escaped [simp]: "\<not> path_should_escape slash"
  by (simp add: path_should_escape_def)

lemma escape_path_rooted: "has_prefix (escape_path (slash # s)) [slash]"
  by (simp add: has_prefix_Cons_iff)

lemma EscapedPath_bytes: "\<forall>c\<in>set (EscapedPath u). uri_byte c"
proof -
  have "uri_byte (CHR ''*'')" by (simp add: uri_byte_def ctl_byte_def)
  then show ?thesis using escape_path_bytes valid_encoded_bytes by (auto simp: EscapedPath_def)
qed

section \<open>The round trip\<close>

lemma get_scheme_rooted: "has_prefix s [slash] \<Longrightarrow> get_scheme s = Inr ([], s)"
  by (auto simp: get_scheme_def has_prefix_Cons_iff byte_class_defs)

lemma cut_query_print:
  assumes "CHR ''?'' \<notin> set p" "\<not> (force \<and> q \<noteq> [])"
  shows "cut_query (if force \<or> q \<noteq> [] then p @ ''?'' @ q else p) = (p, force, q)"
  using assms cut_byte_None_iff [THEN iffD2, OF assms(1)] by (auto simp: cut_query_def cut_byte_append)

lemma cut_query_shape: "cut_query s = (p, force, q) \<Longrightarrow> \<not> (force \<and> q \<noteq> []) \<and> CHR ''?'' \<notin> set p
    \<and> s = (if force \<or> q \<noteq> [] then p @ ''?'' @ q else p)"
  by (auto simp: cut_query_def cut_byte_Some_iff cut_byte_None_iff split: option.splits if_splits)

text \<open>What the server has after parsing an origin-form target.\<close>

lemma ParseRequestURI_origin:
  assumes "has_prefix raw [slash]"
  shows "ParseRequestURI raw = Inr u \<longleftrightarrow>
    (\<forall>c\<in>set raw. \<not> ctl_byte c) \<and> (\<exists>p force q path. cut_query raw = (p, force, q) \<and> unescape EncPath p = Inr path
      \<and> u = \<lparr>ru_scheme = [], ru_opaque = [], ru_host = [], ru_path = path,
              ru_raw_path = (if p = escape_path path then [] else p), ru_force_query = force, ru_query = q\<rparr>)"
proof -
  from assms obtain r where raw: "raw = slash # r" by (auto simp: has_prefix_Cons_iff)
  obtain p force q where c: "cut_query raw = (p, force, q)" using prod_cases3 by blast
  then have "has_prefix p [slash]"
    using cut_query_shape [OF c] raw by (cases p) (auto simp: has_prefix_Cons_iff split: if_splits)
  then show ?thesis
    using raw c get_scheme_rooted [OF assms]
    by (auto simp: ParseRequestURI_def Let_def set_path_def res_iffs)
qed

lemma EscapedPath_parsed:
  assumes "unescape EncPath p = Inr path" "has_prefix p [slash]"
    and "ru_path u = path" "ru_raw_path u = (if p = escape_path path then [] else p)"
  shows "has_prefix (EscapedPath u) [slash] \<and> unescape EncPath (EscapedPath u) = Inr path
    \<and> (valid_encoded p \<longrightarrow> EscapedPath u = p)"
proof -
  from assms(1,2) obtain r where path: "path = slash # r"
    by (auto simp: has_prefix_Cons_iff res_iffs split: if_splits)
  have "p = escape_path path \<Longrightarrow> EscapedPath u = p"
    using assms(3,4) path by (simp add: EscapedPath_def)
  moreover have "p \<noteq> escape_path path \<Longrightarrow> EscapedPath u = (if valid_encoded p then p else escape_path path)"
    using assms path by (auto simp: EscapedPath_def)
  ultimately show ?thesis
    using assms(1,2) escape_path_rooted [of r] path by (cases "p = escape_path path") auto
qed

theorem RequestURI_reparse:
  assumes "has_prefix raw [slash]" "ParseRequestURI raw = Inr u"
  shows "\<exists>v. ParseRequestURI (RequestURI u) = Inr v \<and> ru_path v = ru_path u \<and> ru_query v = ru_query u
    \<and> has_prefix (RequestURI u) [slash]"
    and "valid_encoded (fst (cut_query raw)) \<Longrightarrow> RequestURI u = raw"
proof -
  from assms obtain p force q path where u: "cut_query raw = (p, force, q)" "unescape EncPath p = Inr path"
      "u = \<lparr>ru_scheme = [], ru_opaque = [], ru_host = [], ru_path = path,
        ru_raw_path = (if p = escape_path path then [] else p), ru_force_query = force, ru_query = q\<rparr>"
      and ctl: "\<forall>c\<in>set raw. \<not> ctl_byte c"
    by (auto simp: ParseRequestURI_origin)
  note raw = cut_query_shape [OF u(1)]
  have "has_prefix p [slash]"
    using raw assms(1) by (cases p) (auto simp: has_prefix_Cons_iff split: if_splits)
  from EscapedPath_parsed [OF u(2) this, of u] u(3)
  have e: "has_prefix (EscapedPath u) [slash]" "unescape EncPath (EscapedPath u) = Inr path"
      "valid_encoded p \<Longrightarrow> EscapedPath u = p" by simp_all
  then have "EscapedPath u \<noteq> []" by (auto simp: has_prefix_Cons_iff)
  moreover have "ru_opaque u = []" "ru_force_query u = force" "ru_query u = q" using u(3) by simp_all
  ultimately have print: "RequestURI u = (if force \<or> q \<noteq> [] then EscapedPath u @ ''?'' @ q else EscapedPath u)"
    by (simp add: RequestURI_def)
  then show "valid_encoded (fst (cut_query raw)) \<Longrightarrow> RequestURI u = raw"
    using e(3) raw u(1) by simp
  have "CHR ''?'' \<notin> set (EscapedPath u)" using EscapedPath_bytes [of u] by (auto simp: uri_byte_def)
  then have cut: "cut_query (RequestURI u) = (EscapedPath u, force, q)"
    unfolding print using raw by (intro cut_query_print) simp_all
  have rooted: "has_prefix (RequestURI u) [slash]"
    using e(1) print by (auto simp: has_prefix_Cons_iff)
  have "\<forall>c\<in>set q. \<not> ctl_byte c" using ctl raw by (auto split: if_splits)
  then have "\<forall>c\<in>set (RequestURI u). \<not> ctl_byte c"
    using EscapedPath_bytes [of u] by (auto simp: print uri_byte_def ctl_byte_def)
  then show "\<exists>v. ParseRequestURI (RequestURI u) = Inr v \<and> ru_path v = ru_path u \<and> ru_query v = ru_query u
    \<and> has_prefix (RequestURI u) [slash]"
    using ParseRequestURI_origin [OF rooted] cut e(2) rooted u(3) by force
qed

lemmas [go_eval] = path_should_escape_def upper_hex_def valid_encoded_byte_def valid_encoded_def
  EscapedPath_def RequestURI_def set_path_def cut_query_def ParseRequestURI_def

end
