(* ===== verification/Web.thy ===== *)
theory Web
  imports Domains RequestUri
begin

text \<open>
  The handlers \<open>main.go\<close> installs on the public ports: the handler behind TLS on the
  main port, the plain one on the redirect port, the redirect itself, the host policy of the
  certificate manager and the two ports computed from the listen addresses. What a handler
  does is a value: the proxy that serves the request, a redirect to a location, an answer of
  its own. The certificate manager's own answers (the challenge requests) are a parameter.
\<close>

section \<open>The main port\<close>

datatype web_action =
    WebHealth
  | WebRoute compiled_route
  | WebDomain compiled_pf
  | WebNotFound

definition proxyHandler :: "store \<Rightarrow> int \<Rightarrow> string \<Rightarrow> string \<Rightarrow> web_action" where
  "proxyHandler s mainPort rhost path =
     (if path = ''/_healthz'' then WebHealth
      else (let host = hostOnly rhost
        in case MatchSite s host path of
             Some c \<Rightarrow> WebRoute c
           | None \<Rightarrow>
               (case MatchDomain s host mainPort of
                  Some cp \<Rightarrow> if pf_manage (cp_fwd cp) then WebDomain cp else WebNotFound
                | None \<Rightarrow> WebNotFound)))"

text \<open>The request the chosen proxy sends on.\<close>

definition forwarded :: "web_action \<Rightarrow> request \<Rightarrow> request option" where
  "forwarded act rq =
     (case act of
        WebRoute c \<Rightarrow> Some (route_director (cr_proxy c) rq)
      | WebDomain cp \<Rightarrow> map_option (\<lambda>p. terminate_director p rq) (cp_proxy cp)
      | _ \<Rightarrow> None)"

section \<open>The redirect port\<close>

text \<open>\<open>http.Redirect\<close> with an absolute URL sets the header to that URL, with bytes past
  ASCII escaped.\<close>

definition lower_hex :: "nat \<Rightarrow> char" where
  "lower_hex n = (if n < 10 then char_of (48 + n) else char_of (87 + n))"

definition hex_escape_non_ascii :: "string \<Rightarrow> string" where
  "hex_escape_non_ascii s =
     concat (map (\<lambda>c. if byte_of c < 128 then [c]
                      else [CHR ''%'', lower_hex (byte_of c div 16), lower_hex (byte_of c mod 16)]) s)"

definition redirectToHTTPS :: "string \<Rightarrow> string \<Rightarrow> request_url \<Rightarrow> string" where
  "redirectToHTTPS httpsPort rhost u =
     (let host = hostOnly rhost;
          target = ''https://'' @ host @ (if httpsPort \<noteq> [] \<and> httpsPort \<noteq> ''443'' then '':'' @ httpsPort else [])
      in hex_escape_non_ascii (target @ RequestURI u))"

datatype plain_action =
    PlainDomain compiled_pf
  | PlainChallenge
  | PlainRedirect string

text \<open>\<open>m.HTTPHandler(redirect)\<close> in automatic mode, the bare redirect otherwise.\<close>

definition base_handler :: "(string \<Rightarrow> bool) option \<Rightarrow> string \<Rightarrow> string \<Rightarrow> request_url \<Rightarrow> plain_action" where
  "base_handler acme httpsPort rhost u =
     (case acme of
        Some takes \<Rightarrow> if takes (ru_path u) then PlainChallenge else PlainRedirect (redirectToHTTPS httpsPort rhost u)
      | None \<Rightarrow> PlainRedirect (redirectToHTTPS httpsPort rhost u))"

definition h80 :: "(string \<Rightarrow> bool) option \<Rightarrow> store \<Rightarrow> int \<Rightarrow> string \<Rightarrow> string \<Rightarrow> request_url \<Rightarrow> plain_action" where
  "h80 acme s redirectPort httpsPort rhost u =
     (case MatchDomain s (hostOnly rhost) redirectPort of
        Some cp \<Rightarrow> if cp_proxy cp \<noteq> None then PlainDomain cp else base_handler acme httpsPort rhost u
      | None \<Rightarrow> base_handler acme httpsPort rhost u)"

section \<open>Certificates and ports\<close>

definition HostPolicy :: "store \<Rightarrow> string \<Rightarrow> string \<Rightarrow> bool" where
  "HostPolicy s externalHost host \<longleftrightarrow>
     equal_fold host externalHost \<or> IsHTTPHost s host \<or> IsTerminateHost s host"

definition https_port :: "string \<Rightarrow> string" where
  "https_port proxyAddr = (case split_host_port proxyAddr of Inl _ \<Rightarrow> [] | Inr (_, p) \<Rightarrow> p)"

definition main_port :: "string \<Rightarrow> int" where
  "main_port proxyAddr =
     (case parse_int (https_port proxyAddr) of
        Some p \<Rightarrow> if p \<noteq> 0 then p else 443
      | None \<Rightarrow> 443)"

definition redirect_port :: "string \<Rightarrow> int" where
  "redirect_port redirectAddr =
     (if redirectAddr \<noteq> [] then
        (case split_host_port redirectAddr of
           Inr (_, rp) \<Rightarrow> (case parse_int rp of Some n \<Rightarrow> if n \<noteq> 0 then n else 80 | None \<Rightarrow> 80)
         | Inl _ \<Rightarrow> 80)
      else 80)"

section \<open>Where a request goes\<close>

text \<open>No accepted route covers the health path.\<close>

lemma path_under_health: "route_wf r \<Longrightarrow> \<not> path_under (rt_prefix r) ''/_healthz''"
proof
  assume wf: "route_wf r" and u: "path_under (rt_prefix r) ''/_healthz''"
  from wf obtain c cs where p: "rt_prefix r = c # cs" "is_alnum c"
    by (cases "rt_prefix r") (auto simp: route_wf_def name_ok_def)
  with u have "c = CHR ''_''" by (auto simp: path_under_def has_prefix_iff)
  with p show False by (simp add: byte_class_defs)
qed

lemma MatchSite_proxy: "config_ok (config_of s) \<Longrightarrow> synced s \<Longrightarrow> MatchSite s host path = Some c \<Longrightarrow>
    buildProxy (cr_route c) = Inr (cr_proxy c) \<and> path \<noteq> ''/_healthz''"
proof -
  assume ok: "config_ok (config_of s)" and s: "synced s" and m: "MatchSite s host path = Some c"
  have u: "unique_keys site_key (st_sites s)" using ok by (simp add: config_ok_def)
  from MatchSite_Some [OF s u m] obtain st where st: "st \<in> set (st_sites s)" "cr_route c \<in> set (hs_routes st)"
      "path_under (rt_prefix (cr_route c)) path" "buildProxy (cr_route c) = Inr (cr_proxy c)" by metis
  then have "route_wf (cr_route c)" using ok by (auto simp: config_ok_def site_wf_def)
  with st path_under_health show ?thesis by blast
qed

lemma proxyHandler_route:
  assumes "config_ok (config_of s)" "synced s"
  shows "(\<exists>c. proxyHandler s p rhost path = WebRoute c \<and> cr_route c = r) \<longleftrightarrow>
    (\<exists>st\<in>set (st_sites s). hs_host st = to_lower (hostOnly rhost) \<and> r \<in> set (hs_routes st) \<and> rt_enabled r
      \<and> path_under (rt_prefix r) path)"
proof -
  have "proxyHandler s p rhost path = WebRoute c \<longleftrightarrow> MatchSite s (hostOnly rhost) path = Some c" for c
    using MatchSite_proxy [OF assms, of "hostOnly rhost" path c]
    by (auto simp: proxyHandler_def Let_def split: option.splits)
  then show ?thesis unfolding MatchSite_exact [OF assms, symmetric] by blast
qed

lemma proxyHandler_domain:
  assumes "config_ok (config_of s)" "synced s"
  shows "proxyHandler s p rhost path = WebDomain cp \<longleftrightarrow>
    path \<noteq> ''/_healthz'' \<and> MatchSite s (hostOnly rhost) path = None
    \<and> MatchDomain s (hostOnly rhost) p = Some cp \<and> pf_manage (cp_fwd cp)"
  by (auto simp: proxyHandler_def Let_def split: option.splits)

text \<open>Whatever the handler chooses to proxy has a proxy: \<open>serve\<close> is never called on a
  nil one.\<close>

lemma proxyHandler_never_nil:
  assumes "config_ok (config_of s)" "synced s"
  shows "forwarded (proxyHandler s p rhost path) rq = None \<longleftrightarrow>
    proxyHandler s p rhost path \<in> {WebHealth, WebNotFound}"
proof (cases "proxyHandler s p rhost path")
  case (WebDomain cp)
  then have "cp_proxy cp \<noteq> None"
    using MatchDomain_proxy [OF assms] proxyHandler_domain [OF assms] by blast
  with WebDomain show ?thesis by (auto simp: forwarded_def)
qed (simp_all add: forwarded_def)

lemma buildProxy_fields: "buildProxy r = Inr p \<Longrightarrow> url_parse (rt_target r) = Inr (rp_target p)
    \<and> rp_prefix p = slash # rt_prefix r \<and> rp_strip p = rt_strip r"
  by (auto simp: buildProxy_def res_iffs)

text \<open>A routed request leaves for the route's backend, its path stripped of the prefix when
  the route says so and joined to the backend's own path.\<close>

lemma routed_request:
  assumes ok: "config_ok (config_of s)" "synced s"
    and st: "st \<in> set (st_sites s)" "hs_host st = to_lower (hostOnly (rq_host rq))"
    and r: "r \<in> set (hs_routes st)" "rt_enabled r" "url_parse (rt_target r) = Inr u"
    and path: "rq_path rq = slash # rt_prefix r @ rest" "rest = [] \<or> has_prefix rest [slash]"
  shows "\<exists>out. forwarded (proxyHandler s p (rq_host rq) (rq_path rq)) rq = Some out
    \<and> rq_url_scheme out = u_scheme u \<and> rq_url_host out = u_host u \<and> rq_host out = u_host u
    \<and> rq_query out = rq_query rq \<and> rq_method out = rq_method rq
    \<and> rq_path out = (let tail = (if \<not> rt_strip r then rq_path rq else if rest = [] then ''/'' else rest)
                     in (if has_suffix (u_path u) ''/'' then butlast (u_path u) else u_path u) @ tail)
    \<and> header_get ''X-Forwarded-Prefix'' (rq_header out) = slash # rt_prefix r"
proof -
  have under: "path_under (rt_prefix r) (rq_path rq)"
    using path by (auto simp: path_under_def has_prefix_iff)
  with st r obtain c where c: "proxyHandler s p (rq_host rq) (rq_path rq) = WebRoute c" "cr_route c = r"
    using proxyHandler_route [OF ok] by blast
  then have "MatchSite s (hostOnly (rq_host rq)) (rq_path rq) = Some c"
    by (auto simp: proxyHandler_def Let_def split: option.splits if_splits)
  from buildProxy_fields [OF MatchSite_proxy [OF ok this, THEN conjunct1]] c(2) r(3)
  have cp: "rp_target (cr_proxy c) = u" "rp_prefix (cr_proxy c) = slash # rt_prefix r" "rp_strip (cr_proxy c) = rt_strip r"
    by simp_all
  have "trim_prefix (rq_path rq) (slash # rt_prefix r) = rest"
    using trim_prefix_append [of "slash # rt_prefix r" rest] path(1) by simp
  then have rp: "route_path (cr_proxy c) (rq_path rq) = (if \<not> rt_strip r then rq_path rq else if rest = [] then ''/'' else rest)"
    using cp by (simp add: route_path_def)
  have "has_prefix (route_path (cr_proxy c) (rq_path rq)) ''/''"
    using path unfolding rp by (auto simp: has_prefix_iff)
  then show ?thesis
    using c(1) cp rp by (simp add: forwarded_def route_director_frame route_director_headers
        singleJoiningSlash_rooted Let_def)
qed

text \<open>A request for a host with an enabled managed forward, on whichever port it comes in,
  leaves for the forward's target under the name the client asked for.\<close>

definition backend_scheme :: "port_forward \<Rightarrow> string" where
  "backend_scheme w = (if pf_port w \<noteq> 80 \<and> pf_backend_tls w then ''https'' else ''http'')"

definition sent_to_target :: "port_forward \<Rightarrow> request \<Rightarrow> request \<Rightarrow> bool" where
  "sent_to_target w rq out \<longleftrightarrow>
     (\<exists>u. url_parse (backend_scheme w @ ''://'' @ pf_target w) = Inr u
        \<and> rq_url_scheme out = u_scheme u \<and> rq_url_host out = u_host u
        \<and> rq_path out = (if has_suffix (u_path u) ''/'' then butlast (u_path u) else u_path u) @ rq_path rq)
     \<and> (plain_target (pf_target w) \<longrightarrow>
          rq_url_scheme out = backend_scheme w \<and> rq_url_host out = pf_target w \<and> rq_path out = rq_path rq)
     \<and> rq_host out = rq_host rq \<and> rq_method out = rq_method rq \<and> rq_query out = rq_query rq
     \<and> header_get ''X-Forwarded-Proto'' (rq_header out) = ''https''
     \<and> header_get ''X-Forwarded-Host'' (rq_header out) =
         (if header_has ''X-Forwarded-Host'' (rq_header rq) then header_get ''X-Forwarded-Host'' (rq_header rq) else rq_host rq)"

lemma compile_pf_target: "compile_pf host f = Inr cp \<Longrightarrow> cp_proxy cp = Some p \<Longrightarrow>
    url_parse (backend_scheme f @ ''://'' @ pf_target f) = Inr (tp_target p)"
  by (auto simp: compile_pf_def plain_forward_def backend_scheme_def res_iffs split: if_splits
      dest!: buildTerminateProxy_target)

lemma plain_target_scheme: "plain_target (pf_target w) \<Longrightarrow>
    url_parse (backend_scheme w @ ''://'' @ pf_target w) =
      Inr \<lparr>u_scheme = backend_scheme w, u_opaque = [], u_host = pf_target w, u_path = []\<rparr>"
  using plain_target_parse [of "pf_target w"] by (simp add: backend_scheme_def)

lemma terminate_sent:
  assumes "url_parse (backend_scheme w @ ''://'' @ pf_target w) = Inr (tp_target p)" "has_prefix (rq_path rq) [slash]"
  shows "sent_to_target w rq (terminate_director p rq)"
proof -
  have "plain_target (pf_target w) \<Longrightarrow>
      tp_target p = \<lparr>u_scheme = backend_scheme w, u_opaque = [], u_host = pf_target w, u_path = []\<rparr>"
    using plain_target_scheme [of w] assms(1) by simp
  with assms show ?thesis
    by (simp add: sent_to_target_def terminate_director_frame terminate_director_headers singleJoiningSlash_rooted has_suffix_def)
qed

lemma MatchDomain_sends:
  assumes ok: "config_ok (config_of s)" "synced s"
    and d: "d \<in> set (st_domains s)" "dm_host d = to_lower host" "w \<in> set (dm_forwards d)" "pf_enabled w"
    and proxied: "pf_port w = 80 \<or> pf_manage w" and path: "has_prefix (rq_path rq) [slash]"
  shows "\<exists>cp p. MatchDomain s host (pf_port w) = Some cp \<and> cp_fwd cp = w \<and> cp_proxy cp = Some p
    \<and> sent_to_target w rq (terminate_director p rq)"
proof -
  from MatchDomain_forward [OF ok, of host "pf_port w" w] d obtain cp where
      cp: "MatchDomain s host (pf_port w) = Some cp" "cp_fwd cp = w" by blast
  from MatchDomain_proxy [OF ok cp(1)] cp(2) proxied obtain p where p: "cp_proxy cp = Some p" by auto
  from cp(1) obtain h f where c: "compile_pf h f = Inr cp" unfolding MatchDomain_exact [OF ok] by blast
  with compile_pf_fields [OF c] cp(2) compile_pf_target [OF c p] have
      "url_parse (backend_scheme w @ ''://'' @ pf_target w) = Inr (tp_target p)" by simp
  from terminate_sent [of w p rq, OF this path] cp p show ?thesis by blast
qed

section \<open>The redirect\<close>

lemma hex_escape_ascii: "\<forall>c\<in>set s. byte_of c < 128 \<Longrightarrow> hex_escape_non_ascii s = s"
  by (induction s) (auto simp: hex_escape_non_ascii_def)

text \<open>The redirect points at the same host, path and query.\<close>

lemma redirect_same_resource:
  assumes "has_prefix raw [slash]" "ParseRequestURI raw = Inr u"
    and "\<forall>c\<in>set (hostOnly rhost @ port @ ru_query u). byte_of c < 128"
  shows "\<exists>uri v. redirectToHTTPS port rhost u =
      ''https://'' @ hostOnly rhost @ (if port \<noteq> [] \<and> port \<noteq> ''443'' then '':'' @ port else []) @ uri
    \<and> has_prefix uri [slash] \<and> ParseRequestURI uri = Inr v \<and> ru_path v = ru_path u \<and> ru_query v = ru_query u"
proof -
  have esc: "\<forall>c\<in>set (EscapedPath u). byte_of c < 128"
    using EscapedPath_bytes [of u] by (simp add: uri_byte_def)
  have op: "ru_opaque u = []" using assms(1,2) by (auto simp: ParseRequestURI_origin)
  have "\<forall>c\<in>set (RequestURI u). byte_of c < 128"
    using esc assms(3) op by (auto simp: RequestURI_def Let_def)
  moreover have "\<forall>c\<in>set ''https://''. byte_of c < 128" by simp
  ultimately have "redirectToHTTPS port rhost u =
      ''https://'' @ hostOnly rhost @ (if port \<noteq> [] \<and> port \<noteq> ''443'' then '':'' @ port else []) @ RequestURI u"
    unfolding redirectToHTTPS_def Let_def using assms(3)
    by (subst hex_escape_ascii) auto
  with RequestURI_reparse(1) [OF assms(1,2)] show ?thesis by blast
qed

section \<open>The host policy\<close>

lemma HostPolicy_exact:
  assumes "config_ok (config_of s)" "synced s"
  shows "HostPolicy s ext host \<longleftrightarrow>
    to_lower host = to_lower ext
    \<or> (\<exists>st\<in>set (st_sites s). hs_host st = to_lower host)
    \<or> (\<exists>d\<in>set (st_domains s). dm_host d = to_lower host \<and> (\<exists>f\<in>set (dm_forwards d). pf_enabled f \<and> pf_manage f))"
  using assms by (auto simp: HostPolicy_def equal_fold_iff IsHTTPHost_exact IsTerminateHost_exact)

text \<open>The plain port serves a domain exactly when the port is 80 or the forward on it is
  managed.\<close>

lemma h80_domain:
  assumes "config_ok (config_of s)" "synced s"
  shows "h80 acme s rport hport rhost u = PlainDomain cp \<longleftrightarrow>
    MatchDomain s (hostOnly rhost) rport = Some cp \<and> (rport = 80 \<or> pf_manage (cp_fwd cp))"
proof -
  have "base_handler acme hport rhost u \<noteq> PlainDomain cp" by (auto simp: base_handler_def split: option.splits)
  then show ?thesis
    using MatchDomain_proxy [OF assms, of "hostOnly rhost" rport] by (auto simp: h80_def split: option.splits)
qed

lemmas [model_eval] = proxyHandler_def forwarded_def lower_hex_def hex_escape_non_ascii_def
  redirectToHTTPS_def base_handler_def h80_def HostPolicy_def https_port_def main_port_def redirect_port_def

end
