(* ===== verification/Limiter.thy ===== *)
theory Limiter
  imports Web Load
begin

text \<open>
  The concurrency limit of a route (\<open>compiledRoute.serve\<close> in \<open>proxy.go\<close>) while requests
  come and go and the configuration changes. A request holds the compiled route it was matched
  to, so it waits for and frees the channel of that compilation. A channel has a buffer of its
  capacity: a send succeeds while the buffer is not full, a receive while it is not empty. What
  the buffer holds is state of its own; that it is one value for each request in service is an
  invariant. The machine is deterministic in its events; an event that cannot happen gives
  \<^const>\<open>None\<close>.
\<close>

record traffic =
  tf_waiting :: "(nat \<times> compiled_route) list"
  tf_serving :: "(nat \<times> compiled_route) list"
  tf_cancelled :: "nat list"
  tf_chan :: "nat \<Rightarrow> nat"

datatype traffic_event =
    Arrive nat string string
  | Acquire nat
  | Cancel nat
  | Finish nat
  | Edit io_result store_op

definition no_traffic :: traffic where
  "no_traffic = \<lparr>tf_waiting = [], tf_serving = [], tf_cancelled = [], tf_chan = \<lambda>_. 0\<rparr>"

definition uses_chan :: "nat \<Rightarrow> compiled_route \<Rightarrow> bool" where
  "uses_chan i c \<longleftrightarrow> (case cr_limiter c of None \<Rightarrow> False | Some l \<Rightarrow> lim_id l = i)"

definition in_flight :: "nat \<Rightarrow> traffic \<Rightarrow> nat" where
  "in_flight i tf = length (filter (uses_chan i \<circ> snd) (tf_serving tf))"

definition fresh_request :: "nat \<Rightarrow> traffic \<Rightarrow> bool" where
  "fresh_request q tf \<longleftrightarrow> q \<notin> fst ` set (tf_waiting tf) \<and> q \<notin> fst ` set (tf_serving tf)
     \<and> q \<notin> set (tf_cancelled tf)"

text \<open>Without a limiter the proxy is called at once; otherwise the request is at the
  \<open>select\<close>, which takes a slot or, when the client is gone, answers 503.\<close>

definition serve :: "nat \<Rightarrow> compiled_route \<Rightarrow> traffic \<Rightarrow> traffic" where
  "serve q c tf =
     (case cr_limiter c of
        None \<Rightarrow> tf\<lparr>tf_serving := (q, c) # tf_serving tf\<rparr>
      | Some _ \<Rightarrow> tf\<lparr>tf_waiting := (q, c) # tf_waiting tf\<rparr>)"

text \<open>The two operations on a channel; \<^const>\<open>None\<close> where the goroutine blocks.\<close>

definition channel_send :: "limiter \<Rightarrow> traffic \<Rightarrow> traffic option" where
  "channel_send l tf =
     (if int (tf_chan tf (lim_id l)) < lim_cap l
      then Some (tf\<lparr>tf_chan := (tf_chan tf)(lim_id l := tf_chan tf (lim_id l) + 1)\<rparr>) else None)"

definition channel_receive :: "limiter \<Rightarrow> traffic \<Rightarrow> traffic option" where
  "channel_receive l tf =
     (if 0 < tf_chan tf (lim_id l)
      then Some (tf\<lparr>tf_chan := (tf_chan tf)(lim_id l := tf_chan tf (lim_id l) - 1)\<rparr>) else None)"

definition acquire :: "nat \<Rightarrow> traffic \<Rightarrow> traffic option" where
  "acquire q tf =
     (case map_of (tf_waiting tf) q of
        None \<Rightarrow> None
      | Some c \<Rightarrow>
          (case cr_limiter c of
             None \<Rightarrow> None
           | Some l \<Rightarrow>
               (case channel_send l tf of
                  None \<Rightarrow> None
                | Some tf1 \<Rightarrow> Some (tf1\<lparr>tf_waiting := AList.delete q (tf_waiting tf), tf_serving := (q, c) # tf_serving tf\<rparr>))))"

definition cancel :: "nat \<Rightarrow> traffic \<Rightarrow> traffic option" where
  "cancel q tf =
     (if q \<in> fst ` set (tf_waiting tf)
      then Some (tf\<lparr>tf_waiting := AList.delete q (tf_waiting tf), tf_cancelled := q # tf_cancelled tf\<rparr>)
      else None)"

text \<open>The proxy has returned; with a limiter the deferred receive gives the slot back first.\<close>

definition finish_request :: "nat \<Rightarrow> traffic \<Rightarrow> traffic option" where
  "finish_request q tf =
     (case map_of (tf_serving tf) q of
        None \<Rightarrow> None
      | Some c \<Rightarrow>
          (case (case cr_limiter c of None \<Rightarrow> Some tf | Some l \<Rightarrow> channel_receive l tf) of
             None \<Rightarrow> None
           | Some tf1 \<Rightarrow> Some (tf1\<lparr>tf_serving := AList.delete q (tf_serving tf)\<rparr>)))"

fun traffic_step :: "traffic_event \<Rightarrow> store \<times> traffic \<Rightarrow> (store \<times> traffic) option" where
  "traffic_step (Arrive q host path) (s, tf) =
     (if \<not> fresh_request q tf then None
      else (case MatchSite s host path of
          None \<Rightarrow> None
        | Some c \<Rightarrow> Some (s, serve q c tf)))"
| "traffic_step (Acquire q) (s, tf) = map_option (Pair s) (acquire q tf)"
| "traffic_step (Cancel q) (s, tf) = map_option (Pair s) (cancel q tf)"
| "traffic_step (Finish q) (s, tf) = map_option (Pair s) (finish_request q tf)"
| "traffic_step (Edit io op) (s, tf) = (case run_op io op s of (e, s', ns) \<Rightarrow> Some (s', tf))"

fun traffic_run :: "traffic_event list \<Rightarrow> store \<times> traffic \<Rightarrow> (store \<times> traffic) option" where
  "traffic_run [] st = Some st"
| "traffic_run (e # es) st = (case traffic_step e st of None \<Rightarrow> None | Some st' \<Rightarrow> traffic_run es st')"

section \<open>Channels have one capacity\<close>

text \<open>\<open>cap\<close> gives the capacity of every channel made so far; compiling extends it.\<close>

definition caps_agree :: "(nat \<Rightarrow> int) \<Rightarrow> nat \<Rightarrow> compiled_route set \<Rightarrow> bool" where
  "caps_agree cap n crs \<longleftrightarrow>
     (\<forall>c\<in>crs. \<forall>l. cr_limiter c = Some l \<longrightarrow> lim_id l < n \<and> lim_cap l = cap (lim_id l)
        \<and> 0 < lim_cap l \<and> lim_cap l = rt_max (cr_route c))"

definition table_routes :: "site_table \<Rightarrow> compiled_route set" where
  "table_routes tab = (\<Union>e\<in>set tab. set (snd e))"

lemma caps_agree_simps [simp]:
  "caps_agree cap n {}" "caps_agree cap n (A \<union> B) \<longleftrightarrow> caps_agree cap n A \<and> caps_agree cap n B"
  "caps_agree cap n (insert c A) \<longleftrightarrow> caps_agree cap n {c} \<and> caps_agree cap n A"
  by (auto simp: caps_agree_def)

lemma caps_agree_subset: "caps_agree cap n B \<Longrightarrow> A \<subseteq> B \<Longrightarrow> caps_agree cap n A"
  by (auto simp: caps_agree_def)

lemma caps_agree_extend:
  "caps_agree cap n A \<Longrightarrow> n \<le> m \<Longrightarrow> (\<forall>i<n. cap' i = cap i) \<Longrightarrow> caps_agree cap' m A"
  by (fastforce simp: caps_agree_def)

lemma compile_routes_caps:
  "compile_routes n host rs = Inr (m, crs) \<Longrightarrow>
     n \<le> m \<and> (\<exists>cap'. (\<forall>i<n. cap' i = cap i) \<and> caps_agree cap' m (set crs))"
proof (induction rs arbitrary: n m crs cap)
  case (Cons r rs)
  show ?case
  proof (cases "rt_enabled r \<and> rt_max r > 0")
    case True
    with Cons.prems obtain p crs' where c: "compile_routes (Suc n) host rs = Inr (m, crs')"
        "crs = \<lparr>cr_route = r, cr_proxy = p, cr_limiter = Some \<lparr>lim_id = n, lim_cap = rt_max r\<rparr>\<rparr> # crs'"
      by (auto simp: res_iffs)
    from Cons.IH [OF c(1), of "cap(n := rt_max r)"] obtain cap' where
        cap': "Suc n \<le> m" "\<forall>i<Suc n. cap' i = (cap(n := rt_max r)) i" "caps_agree cap' m (set crs')" by blast
    then have "caps_agree cap' m (set crs)" using c(2) True by (auto simp: caps_agree_def)
    with cap' show ?thesis by (intro conjI exI [of _ cap']) auto
  next
    case False
    show ?thesis
    proof (cases "rt_enabled r")
      case True
      with Cons.prems False obtain p crs' where c: "compile_routes n host rs = Inr (m, crs')"
          "crs = \<lparr>cr_route = r, cr_proxy = p, cr_limiter = None\<rparr> # crs'"
        by (auto simp: res_iffs)
      from Cons.IH [OF c(1), of cap] c(2) show ?thesis by (auto simp: caps_agree_def)
    qed (use Cons False in auto)
  qed
qed auto

lemma table_routes_update: "table_routes (AList.update k v al) \<subseteq> set v \<union> table_routes al"
  using set_update_subset [of k v al] by (auto simp: table_routes_def)

lemma compile_sites_caps:
  "compile_sites n sts acc = Inr (m, tab) \<Longrightarrow> caps_agree cap n (table_routes acc) \<Longrightarrow>
     n \<le> m \<and> (\<exists>cap'. (\<forall>i<n. cap' i = cap i) \<and> caps_agree cap' m (table_routes tab))"
proof (induction sts arbitrary: n acc cap)
  case (Cons st sts)
  let ?acc = "\<lambda>crs. AList.update (to_lower (hs_host st)) (sort_longest crs) acc"
  from Cons.prems(1) obtain k crs where c: "compile_routes n (hs_host st) (hs_routes st) = Inr (k, crs)"
      "compile_sites k sts (?acc crs) = Inr (m, tab)"
    by (auto simp: res_iffs)
  from compile_routes_caps [OF c(1), of cap] obtain cap1 where
      cap1: "n \<le> k" "\<forall>i<n. cap1 i = cap i" "caps_agree cap1 k (set crs)" by blast
  have "caps_agree cap1 k (set (sort_longest crs) \<union> table_routes acc)"
    using cap1 caps_agree_extend [OF Cons.prems(2) cap1(1,2)] by simp
  then have "caps_agree cap1 k (table_routes (?acc crs))"
    by (rule caps_agree_subset [OF _ table_routes_update])
  from Cons.IH [OF c(2) this] obtain cap2 where cap2: "k \<le> m" "\<forall>i<k. cap2 i = cap1 i"
      "caps_agree cap2 m (table_routes tab)" by blast
  with cap1(1,2) have "n \<le> m" "\<forall>i<n. cap2 i = cap i" by simp_all
  with cap2(3) show ?case by blast
qed auto

section \<open>The limit\<close>

definition traffic_routes :: "traffic \<Rightarrow> compiled_route set" where
  "traffic_routes tf = snd ` set (tf_waiting tf) \<union> snd ` set (tf_serving tf)"

definition requests_ok :: "traffic \<Rightarrow> bool" where
  "requests_ok tf \<longleftrightarrow> distinct (map fst (tf_waiting tf)) \<and> distinct (map fst (tf_serving tf))
     \<and> fst ` set (tf_waiting tf) \<inter> fst ` set (tf_serving tf) = {}
     \<and> (\<forall>e\<in>set (tf_waiting tf). cr_limiter (snd e) \<noteq> None)"

definition within_caps :: "(nat \<Rightarrow> int) \<Rightarrow> nat \<Rightarrow> traffic \<Rightarrow> bool" where
  "within_caps cap n tf \<longleftrightarrow> (\<forall>i. i < n \<longrightarrow> int (in_flight i tf) \<le> max 0 (cap i))"

text \<open>Every channel holds one value for each request in service that was let in by it.\<close>

definition chan_ok :: "traffic \<Rightarrow> bool" where
  "chan_ok tf \<longleftrightarrow> (\<forall>i. tf_chan tf i = in_flight i tf)"

definition traffic_ok :: "store \<times> traffic \<Rightarrow> bool" where
  "traffic_ok st \<longleftrightarrow> (case st of (s, tf) \<Rightarrow> requests_ok tf \<and> chan_ok tf
     \<and> (\<exists>cap. caps_agree cap (st_chans s) (table_routes (st_csites s) \<union> traffic_routes tf)
          \<and> within_caps cap (st_chans s) tf))"

lemma recompile_caps:
  assumes "caps_agree cap (st_chans s) (table_routes (st_csites s) \<union> A)" "recompileLocked s = (e, s')"
  shows "\<exists>cap'. st_chans s \<le> st_chans s' \<and> (\<forall>i. i < st_chans s \<longrightarrow> cap' i = cap i)
    \<and> caps_agree cap' (st_chans s') (table_routes (st_csites s') \<union> A)"
proof (cases "s' = s")
  case True
  with assms(1) show ?thesis by blast
next
  case False
  with assms(2) obtain n tab where c: "compile_sites (st_chans s) (st_sites s) [] = Inr (n, tab)"
      "st_csites s' = tab" "st_chans s' = n"
    by (auto simp: recompileLocked_def Let_def split: sum.splits prod.splits)
  from compile_sites_caps [OF c(1), of cap] obtain cap' where
      cap': "st_chans s \<le> n" "\<forall>i. i < st_chans s \<longrightarrow> cap' i = cap i" "caps_agree cap' n (table_routes tab)"
    by (auto simp: table_routes_def)
  with assms(1) c show ?thesis by (auto intro: caps_agree_extend)
qed

lemma persist_chans: "persistLocked io s = (e, s') \<Longrightarrow> st_chans s' = st_chans s \<and> st_csites s' = st_csites s"
  by (auto simp: persistLocked_def split: io_result.splits)

lemma run_op_caps:
  assumes "caps_agree cap (st_chans s) (table_routes (st_csites s) \<union> A)" "run_op io op s = (e, s', ns)"
  shows "\<exists>cap'. st_chans s \<le> st_chans s' \<and> (\<forall>i. i < st_chans s \<longrightarrow> cap' i = cap i)
    \<and> caps_agree cap' (st_chans s') (table_routes (st_csites s') \<union> A)"
proof -
  define w where "w = with_config (config_of s') s"
  have w: "st_chans w = st_chans s" "st_csites w = st_csites s" by (simp_all add: w_def with_config_def)
  from run_op_config [OF assms(2)] consider "s' = s" | "op_write op io w = (e, s')"
    unfolding w_def by blast
  then show ?thesis
  proof cases
    case 2
    show ?thesis
    proof (cases "op_recompiles op")
      case False
      with 2 persist_chans [of io w e s'] w assms(1) show ?thesis by (auto simp: op_write_def)
    next
      case True
      obtain e1 s1 where r: "recompileLocked w = (e1, s1)" by fastforce
      with True 2 have "st_chans s' = st_chans s1 \<and> st_csites s' = st_csites s1"
        using persist_chans [of io s1 e s'] by (auto simp: op_write_def commitLocked_def split: option.splits)
      with recompile_caps [OF _ r, of cap A] w assms(1) show ?thesis by simp
    qed
  qed (use assms(1) in blast)
qed

lemma match_site_table: "match_site tab host path = Some c \<Longrightarrow> c \<in> table_routes tab"
  by (force simp: match_site_def table_routes_def dest!: find_Some_in map_of_SomeD split: option.splits)

lemma in_flight_fresh:
  assumes "caps_agree cap n (traffic_routes tf)" "n \<le> i"
  shows "in_flight i tf = 0"
proof -
  have "\<not> uses_chan i (snd e)" if "e \<in> set (tf_serving tf)" for e
    using assms that by (fastforce simp: caps_agree_def traffic_routes_def uses_chan_def split: option.splits)
  then show ?thesis by (simp add: in_flight_def filter_empty_conv)
qed

lemma in_flight_serve:
  "in_flight i (tf\<lparr>tf_serving := (q, c) # tf_serving tf\<rparr>) = (if uses_chan i c then Suc (in_flight i tf) else in_flight i tf)"
  by (simp add: in_flight_def)

lemma in_flight_other [simp]:
  "in_flight i (tf\<lparr>tf_waiting := w\<rparr>) = in_flight i tf" "in_flight i (tf\<lparr>tf_cancelled := k\<rparr>) = in_flight i tf"
  "in_flight i (tf\<lparr>tf_chan := f\<rparr>) = in_flight i tf"
  by (simp_all add: in_flight_def)

lemma filter_delete:
  "distinct (map fst xs) \<Longrightarrow> map_of xs q = Some c \<Longrightarrow>
     length (filter (P \<circ> snd) xs) = (if P c then Suc (length (filter (P \<circ> snd) (AList.delete q xs))) else length (filter (P \<circ> snd) (AList.delete q xs)))"
proof (induction xs)
  case (Cons x xs)
  obtain k v where x: "x = (k, v)" by fastforce
  show ?case
  proof (cases "k = q")
    case True
    with Cons.prems x have "q \<notin> fst ` set xs" by auto
    then have "filter (\<lambda>(k, _). q \<noteq> k) xs = xs" by (force intro: filter_True)
    with True Cons.prems x show ?thesis by (simp add: AList.delete_eq)
  next
    case False
    with Cons.IH Cons.prems x show ?thesis by (simp add: AList.delete_eq)
  qed
qed simp

lemma in_flight_delete:
  assumes "distinct (map fst (tf_serving tf))" "map_of (tf_serving tf) q = Some c"
  shows "in_flight i tf = (if uses_chan i c then Suc (in_flight i (tf\<lparr>tf_serving := AList.delete q (tf_serving tf)\<rparr>))
    else in_flight i (tf\<lparr>tf_serving := AList.delete q (tf_serving tf)\<rparr>))"
  using filter_delete [OF assms, of "uses_chan i"] by (simp add: in_flight_def)

lemma requests_ok_delete [intro]:
  "requests_ok tf \<Longrightarrow> requests_ok (tf\<lparr>tf_waiting := AList.delete q (tf_waiting tf)\<rparr>)"
  "requests_ok tf \<Longrightarrow> requests_ok (tf\<lparr>tf_serving := AList.delete q (tf_serving tf)\<rparr>)"
  by (auto simp: requests_ok_def AList.delete_eq distinct_map_filter_key)

lemma traffic_routes_delete:
  "traffic_routes (tf\<lparr>tf_waiting := AList.delete q (tf_waiting tf)\<rparr>) \<subseteq> traffic_routes tf"
  "traffic_routes (tf\<lparr>tf_serving := AList.delete q (tf_serving tf)\<rparr>) \<subseteq> traffic_routes tf"
  "traffic_routes (tf\<lparr>tf_cancelled := k\<rparr>) = traffic_routes tf"
  by (auto simp: traffic_routes_def AList.delete_eq)

text \<open>Everything but an edit of the configuration keeps one assignment of capacities.\<close>

lemma traffic_ok_frame:
  assumes "caps_agree cap (st_chans s) (table_routes (st_csites s) \<union> traffic_routes tf)"
    and "requests_ok tf'" "traffic_routes tf' \<subseteq> table_routes (st_csites s) \<union> traffic_routes tf"
    and "within_caps cap (st_chans s) tf'" "chan_ok tf'"
  shows "traffic_ok (s, tf')"
  unfolding traffic_ok_def using assms caps_agree_subset [OF assms(1), of "traffic_routes tf'"] by auto

lemma serve_ok:
  assumes "requests_ok tf" "fresh_request q tf" "within_caps cap n tf" "chan_ok tf"
  shows "requests_ok (serve q c tf) \<and> traffic_routes (serve q c tf) = insert c (traffic_routes tf)
    \<and> within_caps cap n (serve q c tf) \<and> chan_ok (serve q c tf)"
  using assms by (auto simp: serve_def chan_ok_def requests_ok_def fresh_request_def traffic_routes_def within_caps_def
      in_flight_serve uses_chan_def split: option.splits)

lemma acquire_ok:
  assumes ok: "requests_ok tf" "within_caps cap n tf" "chan_ok tf" "caps_agree cap n (traffic_routes tf)"
    and a: "acquire q tf = Some tf'"
  shows "requests_ok tf' \<and> traffic_routes tf' \<subseteq> traffic_routes tf \<and> within_caps cap n tf' \<and> chan_ok tf'"
proof -
  from a obtain c l where c: "map_of (tf_waiting tf) q = Some c" "cr_limiter c = Some l"
      "int (tf_chan tf (lim_id l)) < lim_cap l"
      "tf' = tf\<lparr>tf_waiting := AList.delete q (tf_waiting tf), tf_serving := (q, c) # tf_serving tf,
         tf_chan := (tf_chan tf)(lim_id l := tf_chan tf (lim_id l) + 1)\<rparr>"
    by (auto simp: acquire_def channel_send_def split: option.splits if_splits)
  from c(1) have w: "(q, c) \<in> set (tf_waiting tf)" by (rule map_of_SomeD)
  then have "c \<in> traffic_routes tf" by (force simp: traffic_routes_def)
  with ok(4) c(2) have cap: "lim_cap l = cap (lim_id l)" by (auto simp: caps_agree_def)
  have fl: "in_flight i tf' = (if uses_chan i c then Suc (in_flight i tf) else in_flight i tf)" for i
    by (simp add: c(4) in_flight_def)
  have "chan_ok tf'" using ok(3) c(2) fl by (auto simp: chan_ok_def c(4) uses_chan_def)
  moreover have "within_caps cap n tf'"
    using ok(2,3) c(2,3) cap by (auto simp: within_caps_def chan_ok_def fl uses_chan_def)
  moreover have "requests_ok tf'"
    using ok(1) w by (force simp: requests_ok_def c(4) AList.delete_eq distinct_map_filter_key)
  moreover have "traffic_routes tf' \<subseteq> traffic_routes tf"
    using w by (force simp: traffic_routes_def c(4) AList.delete_eq)
  ultimately show ?thesis by blast
qed

lemma cancel_ok:
  assumes ok: "requests_ok tf" "within_caps cap n tf" "chan_ok tf" and c: "cancel q tf = Some tf'"
  shows "requests_ok tf' \<and> traffic_routes tf' \<subseteq> traffic_routes tf \<and> within_caps cap n tf' \<and> chan_ok tf'"
proof -
  from c have tf': "tf' = tf\<lparr>tf_waiting := AList.delete q (tf_waiting tf), tf_cancelled := q # tf_cancelled tf\<rparr>"
    by (auto simp: cancel_def split: if_splits)
  have "traffic_routes tf' \<subseteq> traffic_routes tf"
    using traffic_routes_delete(1) [of q tf] by (auto simp: traffic_routes_def tf')
  with requests_ok_delete(1) [OF ok(1), of q] ok(2,3) show ?thesis
    by (auto simp: within_caps_def requests_ok_def chan_ok_def tf')
qed

text \<open>A request in service can always finish: its channel is not empty.\<close>

lemma finish_possible:
  assumes "requests_ok tf" "chan_ok tf" "map_of (tf_serving tf) q = Some c"
  shows "finish_request q tf = Some (tf\<lparr>tf_serving := AList.delete q (tf_serving tf),
    tf_chan := (\<lambda>i. in_flight i (tf\<lparr>tf_serving := AList.delete q (tf_serving tf)\<rparr>))\<rparr>)"
proof -
  have fl: "tf_chan tf i = (if uses_chan i c then Suc (in_flight i (tf\<lparr>tf_serving := AList.delete q (tf_serving tf)\<rparr>))
      else in_flight i (tf\<lparr>tf_serving := AList.delete q (tf_serving tf)\<rparr>))" for i
    using in_flight_delete [OF _ assms(3), of i] assms(1,2) by (simp add: requests_ok_def chan_ok_def)
  show ?thesis
  proof (cases "cr_limiter c")
    case None
    then have "tf_chan tf = (\<lambda>i. in_flight i (tf\<lparr>tf_serving := AList.delete q (tf_serving tf)\<rparr>))"
      using fl by (simp add: fun_eq_iff uses_chan_def)
    with None assms(3) show ?thesis by (simp add: finish_request_def)
  next
    case (Some l)
    have "(tf_chan tf)(lim_id l := tf_chan tf (lim_id l) - 1) =
        (\<lambda>i. in_flight i (tf\<lparr>tf_serving := AList.delete q (tf_serving tf)\<rparr>))"
      using fl Some by (auto simp: fun_eq_iff uses_chan_def)
    moreover have "0 < tf_chan tf (lim_id l)" using fl [of "lim_id l"] Some by (simp add: uses_chan_def)
    ultimately show ?thesis using Some assms(3) by (simp add: finish_request_def channel_receive_def)
  qed
qed

lemma finish_ok:
  assumes ok: "requests_ok tf" "within_caps cap n tf" "chan_ok tf" and f: "finish_request q tf = Some tf'"
  shows "requests_ok tf' \<and> traffic_routes tf' \<subseteq> traffic_routes tf \<and> within_caps cap n tf' \<and> chan_ok tf'"
proof -
  from f obtain c where c: "map_of (tf_serving tf) q = Some c" by (auto simp: finish_request_def split: option.splits)
  from finish_possible [OF ok(1,3) c] f have tf': "tf' = tf\<lparr>tf_serving := AList.delete q (tf_serving tf),
      tf_chan := (\<lambda>i. in_flight i (tf\<lparr>tf_serving := AList.delete q (tf_serving tf)\<rparr>))\<rparr>" by simp
  have fl: "in_flight i tf' = in_flight i (tf\<lparr>tf_serving := AList.delete q (tf_serving tf)\<rparr>)" for i
    by (simp add: tf' in_flight_def)
  have "in_flight i tf' \<le> in_flight i tf" for i
    using in_flight_delete [OF _ c, of i] ok(1) fl [of i] by (simp add: requests_ok_def)
  then have "within_caps cap n tf'" using ok(2) by (force simp: within_caps_def intro: order_trans [rotated])
  moreover have "chan_ok tf'" unfolding chan_ok_def fl by (simp add: tf')
  moreover have "requests_ok tf'" using requests_ok_delete(2) [OF ok(1), of q] by (simp add: requests_ok_def tf')
  moreover have "traffic_routes tf' \<subseteq> traffic_routes tf"
    using traffic_routes_delete(2) [of q tf] by (simp add: traffic_routes_def tf')
  ultimately show ?thesis by blast
qed

lemma edit_ok:
  assumes ok: "traffic_ok (s, tf)" and r: "run_op io op s = (e, s', ns)"
  shows "traffic_ok (s', tf)"
proof -
  from ok obtain cap where caps: "caps_agree cap (st_chans s) (table_routes (st_csites s) \<union> traffic_routes tf)"
      and lim: "within_caps cap (st_chans s) tf" and req: "requests_ok tf" "chan_ok tf"
    by (auto simp: traffic_ok_def)
  from run_op_caps [OF caps r] obtain cap' where cap': "st_chans s \<le> st_chans s'"
      "\<And>i. i < st_chans s \<Longrightarrow> cap' i = cap i"
      "caps_agree cap' (st_chans s') (table_routes (st_csites s') \<union> traffic_routes tf)" by blast
  have "int (in_flight i tf) \<le> max 0 (cap' i)" for i
    using lim cap'(2) [of i] in_flight_fresh [of cap "st_chans s" tf i] caps
    by (cases "i < st_chans s") (auto simp: within_caps_def)
  with req cap'(3) show ?thesis unfolding traffic_ok_def within_caps_def by auto
qed

lemma traffic_step_ok:
  assumes ok: "traffic_ok st" and step: "traffic_step ev st = Some st'"
  shows "traffic_ok st'"
proof -
  obtain s tf where st: "st = (s, tf)" by fastforce
  from ok obtain cap where caps: "caps_agree cap (st_chans s) (table_routes (st_csites s) \<union> traffic_routes tf)"
      and lim: "within_caps cap (st_chans s) tf" and req: "requests_ok tf" "chan_ok tf"
    by (auto simp: traffic_ok_def st)
  note frame = traffic_ok_frame [OF caps]
  show ?thesis
  proof (cases ev)
    case (Arrive q host path)
    with step st obtain c where c: "fresh_request q tf" "MatchSite s host path = Some c" "st' = (s, serve q c tf)"
      by (auto split: if_splits option.splits)
    then have "c \<in> table_routes (st_csites s)" by (simp add: MatchSite_def match_site_table)
    with serve_ok [OF req(1) c(1) lim req(2), of c] show ?thesis unfolding c(3) by (intro frame) auto
  next
    case (Acquire q)
    with step st obtain tf' where "acquire q tf = Some tf'" "st' = (s, tf')" by auto
    with acquire_ok [OF req(1) lim req(2) _ this(1)] caps show ?thesis by (auto intro!: frame)
  next
    case (Cancel q)
    with step st obtain tf' where "cancel q tf = Some tf'" "st' = (s, tf')" by auto
    with cancel_ok [OF req(1) lim req(2) this(1)] show ?thesis by (auto intro!: frame)
  next
    case (Finish q)
    with step st obtain tf' where "finish_request q tf = Some tf'" "st' = (s, tf')" by auto
    with finish_ok [OF req(1) lim req(2) this(1)] show ?thesis by (auto intro!: frame)
  next
    case (Edit io op)
    with step st ok show ?thesis by (auto split: prod.splits intro: edit_ok)
  qed
qed

lemma traffic_run_ok: "traffic_run es st = Some st' \<Longrightarrow> traffic_ok st \<Longrightarrow> traffic_ok st'"
  by (induction es arbitrary: st) (auto split: option.splits dest: traffic_step_ok)

lemma NewStore_traffic_ok:
  assumes "NewStore mk io doc host = Inr s"
  shows "traffic_ok (s, no_traffic)"
proof -
  from assms obtain s1 where s1: "recompileLocked s1 = (None, s)" "st_csites s1 = []"
    by (auto simp: NewStore_def res_iffs from_outcome_Inr_iff with_config_def blank_store_def
        dest: persist_chans split: option.splits file_read.splits if_splits)
  then have "caps_agree (\<lambda>_. 0) (st_chans s1) (table_routes (st_csites s1) \<union> {})" by (simp add: table_routes_def)
  from recompile_caps [OF this s1(1)] obtain cap where "caps_agree cap (st_chans s) (table_routes (st_csites s))"
    by auto
  then show ?thesis
    by (auto simp: traffic_ok_def requests_ok_def chan_ok_def no_traffic_def traffic_routes_def within_caps_def in_flight_def)
qed

lemma traffic_limit:
  assumes "traffic_ok (s, tf)" "(q, c) \<in> set (tf_waiting tf) \<union> set (tf_serving tf)" "cr_limiter c = Some l"
  shows "int (in_flight (lim_id l) tf) \<le> rt_max (cr_route c) \<and> lim_cap l = rt_max (cr_route c) \<and> 0 < lim_cap l"
proof -
  from assms(1) obtain cap where cap: "caps_agree cap (st_chans s) (traffic_routes tf)"
      "within_caps cap (st_chans s) tf" by (auto simp: traffic_ok_def)
  from assms(2) have "c \<in> traffic_routes tf" by (force simp: traffic_routes_def)
  with cap assms(3) show ?thesis by (auto simp: caps_agree_def within_caps_def) force
qed

section \<open>No slot is lost\<close>

lemma traffic_run_append:
  "traffic_run (es @ fs) st = (case traffic_run es st of None \<Rightarrow> None | Some st' \<Rightarrow> traffic_run fs st')"
  by (induction es arbitrary: st) (auto split: option.splits)

lemma finish_all:
  "requests_ok tf \<Longrightarrow> chan_ok tf \<Longrightarrow>
     traffic_run (map (Finish \<circ> fst) (tf_serving tf)) (s, tf) = Some (s, tf\<lparr>tf_serving := [], tf_chan := \<lambda>_. 0\<rparr>)"
proof (induction "tf_serving tf" arbitrary: tf)
  case Nil
  then have "tf_chan tf = (\<lambda>_. 0)" by (simp add: chan_ok_def in_flight_def fun_eq_iff)
  with Nil show ?case by simp
next
  case (Cons e es)
  obtain q c where e: "e = (q, c)" by fastforce
  note sv = Cons.hyps(2) [symmetric]
  have "q \<notin> fst ` set es" using sv Cons.prems e by (simp add: requests_ok_def)
  then have "filter (\<lambda>(k, _). q \<noteq> k) es = es" by (force intro: filter_True)
  then have del: "AList.delete q (tf_serving tf) = es" using sv e by (simp add: AList.delete_eq)
  let ?tf = "tf\<lparr>tf_serving := es, tf_chan := (\<lambda>i. in_flight i (tf\<lparr>tf_serving := es\<rparr>))\<rparr>"
  have f: "finish_request q tf = Some ?tf"
    using finish_possible [OF Cons.prems, of q c] sv e del by simp
  have "requests_ok ?tf" using requests_ok_delete(2) [OF Cons.prems(1), of q] del by (simp add: requests_ok_def)
  moreover have "chan_ok ?tf" by (simp add: chan_ok_def in_flight_def)
  ultimately have "traffic_run (map (Finish \<circ> fst) es) (s, ?tf) = Some (s, tf\<lparr>tf_serving := [], tf_chan := \<lambda>_. 0\<rparr>)"
    using Cons.hyps(1) [of ?tf] by simp
  with sv e f show ?case by simp
qed

lemma acquire_free:
  assumes "map_of (tf_waiting tf) q = Some c" "cr_limiter c = Some l" "int (tf_chan tf (lim_id l)) < lim_cap l"
  shows "\<exists>tf'. acquire q tf = Some tf' \<and> tf_serving tf' = (q, c) # tf_serving tf"
  using assms by (simp add: acquire_def channel_send_def)

text \<open>A request that waits finds a free place in its channel, or the channel is full of requests
  in service, and whichever of them finishes next makes place for it.\<close>

lemma waiting_gets_next:
  assumes ok: "traffic_ok (s, tf)" and w: "(q, c) \<in> set (tf_waiting tf)" and l: "cr_limiter c = Some l"
    and no: "acquire q tf = None"
  shows "int (in_flight (lim_id l) tf) = lim_cap l"
    and "(p, d) \<in> set (tf_serving tf) \<Longrightarrow> uses_chan (lim_id l) d \<Longrightarrow>
      \<exists>tf'. traffic_run [Finish p, Acquire q] (s, tf) = Some (s, tf') \<and> (q, c) \<in> set (tf_serving tf')"
proof -
  have req: "requests_ok tf" "chan_ok tf" using ok by (simp_all add: traffic_ok_def)
  then have m: "map_of (tf_waiting tf) q = Some c" using w by (simp add: requests_ok_def)
  have "lim_cap l \<le> int (tf_chan tf (lim_id l))" using no m l by (simp add: acquire_def channel_send_def split: if_splits)
  moreover have "int (in_flight (lim_id l) tf) \<le> lim_cap l" using traffic_limit [OF ok _ l, of q] w by simp
  ultimately show full: "int (in_flight (lim_id l) tf) = lim_cap l" using req(2) by (simp add: chan_ok_def)
  assume p: "(p, d) \<in> set (tf_serving tf)" "uses_chan (lim_id l) d"
  have sv: "map_of (tf_serving tf) p = Some d" using p(1) req(1) by (simp add: requests_ok_def)
  let ?tf = "tf\<lparr>tf_serving := AList.delete p (tf_serving tf), tf_chan := (\<lambda>i. in_flight i (tf\<lparr>tf_serving := AList.delete p (tf_serving tf)\<rparr>))\<rparr>"
  have f: "finish_request p tf = Some ?tf" by (rule finish_possible [OF req sv])
  have "int (tf_chan ?tf (lim_id l)) < lim_cap l"
    using in_flight_delete [OF _ sv, of "lim_id l"] req(1) full p(2) by (simp add: requests_ok_def)
  from acquire_free [of ?tf, OF _ l this] m obtain tf' where "acquire q ?tf = Some tf'"
      "tf_serving tf' = (q, c) # tf_serving ?tf" by auto
  with f show "\<exists>tf'. traffic_run [Finish p, Acquire q] (s, tf) = Some (s, tf') \<and> (q, c) \<in> set (tf_serving tf')" by simp
qed

text \<open>Once the requests in service are done, a waiting one gets a slot.\<close>

lemma waiting_can_be_served:
  assumes ok: "traffic_ok (s, tf)" and w: "(q, c) \<in> set (tf_waiting tf)"
  shows "\<exists>tf'. traffic_run (map (Finish \<circ> fst) (tf_serving tf) @ [Acquire q]) (s, tf) = Some (s, tf')
    \<and> tf_serving tf' = [(q, c)]"
proof -
  have req: "requests_ok tf" "chan_ok tf" using ok by (simp_all add: traffic_ok_def)
  then obtain l where l: "cr_limiter c = Some l" using w by (force simp: requests_ok_def)
  have "0 < lim_cap l" using traffic_limit [OF ok _ l, of q] w by simp
  moreover have "map_of (tf_waiting tf) q = Some c" using req w by (simp add: requests_ok_def)
  ultimately show ?thesis
    using finish_all [OF req, of s] l by (simp add: traffic_run_append acquire_def channel_send_def)
qed

lemmas [model_eval] = uses_chan_def in_flight_def fresh_request_def serve_def acquire_def cancel_def
  channel_send_def channel_receive_def finish_request_def no_traffic_def

end
