(* ===== verification/RelayProps.thy ===== *)
theory RelayProps
  imports LivePort TcpRelay Udp Limiter Examples
begin

text \<open>
  The properties of the connections and datagrams in transit: what the SNI listener does
  with a connection, what a backend receives, how long a UDP mapping lives and whom its
  datagrams belong to, and the concurrency limit of a route while requests come and go. They
  rest on the lemmas of \<open>Sni\<close>, \<open>ProxyProto\<close>, \<open>Pipe\<close>, \<open>Udp\<close> and \<open>Limiter\<close>.
\<close>

section \<open>Connections\<close>

text \<open>In every reachable state of the SNI listener each accepted connection is in exactly
  one place; one handed to the server was to be terminated here and replays the client's stream
  from its first byte, a spliced one was to be passed through to that target, and one that was
  closed was to be dropped or the listener was done.\<close>

theorem connection_fates:
  assumes "sni_reach hs decide env l"
  shows "distinct (ids l) \<and> set (ids l) = {..<ls_next l}
    \<and> (\<forall>i c p. (i, c, FServed p) \<in> set (ls_final l) \<longrightarrow>
         decide (fst (peekClientHelloSNI hs c)) = ActAccept \<and> pending p = cn_in c)
    \<and> (\<forall>i c t r. (i, c, FSpliced t r) \<in> set (ls_final l) \<longrightarrow>
         (\<exists>pp. decide (fst (peekClientHelloSNI hs c)) = ActPassthrough t pp))
    \<and> (\<forall>i c. (i, c, FClosed) \<in> set (ls_final l) \<longrightarrow>
         decide (fst (peekClientHelloSNI hs c)) = ActDrop
         \<or> ls_done l \<and> decide (fst (peekClientHelloSNI hs c)) = ActAccept)"
proof -
  have ok: "sni_ok hs decide env l" by (rule sni_reach_ok [OF assms])
  then have fin: "final_ok hs decide (ls_done l) e" if "e \<in> set (ls_final l)" for e
    using that by (simp add: sni_ok_def)
  show ?thesis
    using ok fin [of "(_, _, FServed _)"] fin [of "(_, _, FSpliced _ _)"] fin [of "(_, _, FClosed)"]
    unfolding sni_ok_def final_ok.simps decided_def by blast
qed

text \<open>A handshake that reads two bytes and finds a name in them, and a client that sends five.\<close>

definition demo_hs :: handshake where
  "demo_hs bs = (if length bs < 2 then HsRead 1 else HsDone [21] (if hd bs = 22 then ''mail.example.com'' else []))"

definition demo_conn :: conn where
  "demo_conn = \<lparr>cn_in = [22, 3, 1, 7, 9], cn_chunks = [1, 4], cn_out = []\<rparr>"

definition demo_accept :: "string \<Rightarrow> sniDecision" where
  "demo_accept h = (if h = ''mail.example.com'' then ActAccept else ActDrop)"

definition demo_taken :: prefix_conn where
  "demo_taken = \<lparr>px_conn = \<lparr>cn_in = [7, 9], cn_chunks = [], cn_out = []\<rparr>, px_prefix = [22, 3, 1], px_off = 0\<rparr>"

lemma demo_peek: "peekClientHelloSNI demo_hs demo_conn = (''mail.example.com'', [22, 3, 1], px_conn demo_taken)"
  by (simp add: model_eval demo_hs_def demo_conn_def demo_taken_def)

lemma demo_handle: "handle demo_hs demo_accept env demo_conn = Delivered demo_taken"
  by (simp add: handle_def demo_peek demo_accept_def) (simp add: demo_taken_def)

lemma demo_sni_reach:
  "\<exists>l. sni_reach demo_hs demo_accept env l \<and> ls_final l = [(0, demo_conn, FServed demo_taken)]"
proof -
  let ?l1 = "newSNIListener\<lparr>ls_next := Suc 0, ls_peeking := [(0, demo_conn)]\<rparr>"
  let ?l2 = "?l1\<lparr>ls_peeking := [], ls_waiting := [(0, demo_conn, demo_taken)]\<rparr>"
  have "sni_step demo_hs demo_accept env newSNIListener ?l1"
    using step_arrive [of newSNIListener demo_hs demo_accept env demo_conn] by (simp add: newSNIListener_def)
  moreover have "sni_step demo_hs demo_accept env ?l1 ?l2"
    using step_ready [of ?l1 "[]" 0 demo_conn "[]", OF _ demo_handle] by (simp add: newSNIListener_def)
  moreover have "sni_step demo_hs demo_accept env ?l2 (?l2\<lparr>ls_waiting := [], ls_final := [(0, demo_conn, FServed demo_taken)]\<rparr>)"
    using step_accept [of ?l2 "[]" 0 demo_conn demo_taken "[]" demo_hs demo_accept env] by (simp add: newSNIListener_def)
  ultimately have "sni_reach demo_hs demo_accept env (?l2\<lparr>ls_waiting := [], ls_final := [(0, demo_conn, FServed demo_taken)]\<rparr>)"
    by (blast intro: sni_start sni_next)
  then show ?thesis by (intro exI conjI) auto
qed

theorem connection_fates_witness: "pending demo_taken = cn_in demo_conn"
proof -
  obtain l where "sni_reach demo_hs demo_accept (\<lambda>_. undefined) l" "ls_final l = [(0, demo_conn, FServed demo_taken)]"
    using demo_sni_reach by blast
  with connection_fates [of demo_hs demo_accept "\<lambda>_. undefined" l] show ?thesis by auto
qed

text \<open>C5: the backend of a passthrough connection receives, when the forward asks for it, a
  PROXY protocol header that decodes to the addresses of the two ends, and after it exactly the
  client's bytes, those of the peeked ClientHello included.\<close>

theorem passthrough_delivers:
  assumes "decide (fst (peekClientHelloSNI hs c)) = ActPassthrough target pp"
    and "re_dial (env target)" "re_header_fails (env target) = None" "re_prefix_fails (env target) = None"
    and "re_remote (env target) = Some s" "re_local (env target) = Some d"
    and "ip_valid (ta_ip s)" "ip_valid (ta_ip d)"
    and "0 \<le> ta_port s" "ta_port s < 65536" "0 \<le> ta_port d" "ta_port d < 65536"
  shows "\<exists>r. handle hs decide env c = Spliced target r \<and> rr_to_client r = re_down (env target)
    \<and> (if pp then pp2_decode (rr_to_backend r) = Some (announced s d, cn_in c)
       else rr_to_backend r = cn_in c)"
proof -
  from handle_passthrough [of decide hs c target pp env, OF assms(1-4)] obtain r where r: "handle hs decide env c = Spliced target r"
      "rr_to_backend r = header_for pp (env target) @ cn_in c" "rr_to_client r = re_down (env target)" by blast
  from header_decodes [OF assms(7-12), of "cn_in c"] obtain h where
      h: "proxyProtoV2Header (Some s) (Some d) = Some h" "pp2_decode (h @ cn_in c) = Some (announced s d, cn_in c)" by blast
  with r assms(5,6) show ?thesis by (simp add: header_for_def)
qed

definition demo_relay :: relay_env where
  "demo_relay = \<lparr>re_dial = True, re_remote = Some \<lparr>ta_ip = [192, 0, 2, 1], ta_port = 40000\<rparr>,
     re_local = Some \<lparr>ta_ip = [10, 0, 0, 1], ta_port = 993\<rparr>, re_header_fails = None, re_prefix_fails = None,
     re_down = [5]\<rparr>"

theorem passthrough_delivers_witness:
  "\<exists>r. handle demo_hs (\<lambda>_. ActPassthrough ''10.0.0.6:993'' True) (\<lambda>_. demo_relay) demo_conn = Spliced ''10.0.0.6:993'' r
    \<and> map_option snd (pp2_decode (rr_to_backend r)) = Some [22, 3, 1, 7, 9]"
  using passthrough_delivers [of "\<lambda>_. ActPassthrough ''10.0.0.6:993'' True" demo_hs demo_conn "''10.0.0.6:993''" True
      "\<lambda>_. demo_relay" "\<lparr>ta_ip = [192, 0, 2, 1], ta_port = 40000\<rparr>" "\<lparr>ta_ip = [10, 0, 0, 1], ta_port = 993\<rparr>"]
  by (auto simp: demo_relay_def ip_valid_def demo_conn_def)

text \<open>C13: a connection on a port of the domain router is decided on the configuration in force at a
  moment between its arrival and its end, whatever the store goes through meanwhile, changes that
  fail at the file or at a proxy included. In force is the stored configuration or, while that one
  cannot be compiled, the last one that could. The connection is spliced to the target of an
  enabled forward this configuration has for its server name on that port, with the certificate
  left to the backend, which (when the dial and the first writes succeed) receives the client's
  bytes behind the header asked for; it is served here, from its first byte, only if there is one
  with the certificate managed here; and it is closed only if there is none that could be served,
  or the listener was done. A rule added or removed takes effect on the next connection, without
  a restart.\<close>

theorem live_routing:
  assumes "config_ok (config_of (lp_store (f 0)))" "synced (lp_store (f 0))" "lp_listener (f 0) = newSNIListener"
    and "\<forall>j<n. live_step (\<lambda>s. port_decide tls s p) hs env (f j) (f (Suc j))"
    and "(i, c) \<in> set (ls_peeking (lp_listener (f a)))" "(i, c', fin) \<in> set (ls_final (lp_listener (f b)))" "a \<le> b" "b \<le> n"
  shows "c' = c \<and> (\<exists>k m. a \<le> k \<and> k < b \<and> in_force f k m \<and>
    (let fwds = set (forwards_at (lp_store (f m)) (fst (peekClientHelloSNI hs c)) p)
     in case fin of
          FSpliced t r \<Rightarrow> \<exists>w\<in>fwds. \<not> pf_manage w \<and> pf_target w = t
            \<and> (re_dial (env t) \<and> re_header_fails (env t) = None \<and> re_prefix_fails (env t) = None \<longrightarrow>
                 rr_to_backend r = header_for (pf_proxy_proto w) (env t) @ cn_in c)
        | FServed q \<Rightarrow> tls \<and> (\<exists>w\<in>fwds. pf_manage w) \<and> pending q = cn_in c
        | FClosed \<Rightarrow> fwds = {} \<or> \<not> tls \<and> (\<exists>w\<in>fwds. pf_manage w) \<or> ls_done (lp_listener (f b))))"
proof -
  have "ids_ok (lp_listener (f 0))" by (simp add: assms(3) ids_ok_def ids_def newSNIListener_def)
  from live_run_fate [OF this assms(4-8)] obtain k where c: "c' = c" and k: "a \<le> k" "k < b"
    and fate_k: "fate_of fin (ls_done (lp_listener (f b))) (handle hs (port_decide tls (lp_store (f k)) p) env c)" by blast
  from k assms(8) have "k \<le> n" by simp
  from live_run_in_force [OF assms(2,4) this] obtain m where m: "in_force f k m"
    and cdom: "st_cdom (lp_store (f k)) = st_cdom (lp_store (f m))" by blast
  have fate: "fate_of fin (ls_done (lp_listener (f b))) (handle hs (port_decide tls (lp_store (f m)) p) env c)"
    using fate_k unfolding port_decide_cong [OF cdom] .
  have "m \<le> n" "synced (lp_store (f m))" using m \<open>k \<le> n\<close> by (simp_all add: in_force_def)
  note at = port_decide_at [OF live_run_config [OF assms(1,4) this(1)] this(2), of tls p "fst (peekClientHelloSNI hs c)"]
  show ?thesis
  proof (cases fin)
    case (FSpliced t r)
    with fate handle_spliced [of hs _ env c t r] at(1) k m c show ?thesis by (fastforce simp: Let_def)
  next
    case FClosed
    with fate handle_cases(3) [of hs _ env c] at(3) k m c show ?thesis by (fastforce simp: Let_def decided_def)
  next
    case (FServed q)
    with fate handle_cases(1) [of hs _ env c q] at(2) k m c show ?thesis by (fastforce simp: Let_def decided_def)
  qed
qed

text \<open>A connection that arrives while there is no domain at all, and is routed by the one saved
  before its ClientHello was read.\<close>

definition demo_live :: "nat \<Rightarrow> live_port" where
  "demo_live j =
     (let peek = newSNIListener\<lparr>ls_next := 1, ls_peeking := [(0, demo_conn)]\<rparr>;
          r = \<lparr>rr_dialed = True, rr_to_backend = header_for True demo_relay @ cn_in demo_conn, rr_to_client = [5]\<rparr>
      in [\<lparr>lp_store = demo_ready, lp_listener = newSNIListener\<rparr>, \<lparr>lp_store = demo_ready, lp_listener = peek\<rparr>,
          \<lparr>lp_store = demo_s1, lp_listener = peek\<rparr>, \<lparr>lp_store = demo_s2, lp_listener = peek\<rparr>,
          \<lparr>lp_store = demo_s2, lp_listener =
             peek\<lparr>ls_peeking := [], ls_final := [(0, demo_conn, FSpliced ''10.0.0.6:993'' r)]\<rparr>\<rparr>] ! j)"

lemma demo_live_handle:
  "handle demo_hs (port_decide True demo_s2 993) (\<lambda>_. demo_relay) demo_conn =
     Spliced ''10.0.0.6:993'' \<lparr>rr_dialed = True, rr_to_backend = header_for True demo_relay @ cn_in demo_conn, rr_to_client = [5]\<rparr>"
proof -
  have "port_decide True demo_s2 993 ''mail.example.com'' = ActPassthrough ''10.0.0.6:993'' True"
    by (simp add: demo_s2_def demo_cdom_def demo_domain_def model_eval go_eval)
  then show ?thesis
    by (simp add: handle_def demo_peek) (simp add: demo_taken_def demo_conn_def demo_relay_def spliceTo_def Let_def)
qed

lemma demo_live_steps:
  "live_step (\<lambda>s. port_decide True s 993) demo_hs (\<lambda>_. demo_relay) (demo_live 0) (demo_live 1)"
  "live_step (\<lambda>s. port_decide True s 993) demo_hs (\<lambda>_. demo_relay) (demo_live 1) (demo_live 2)"
  "live_step (\<lambda>s. port_decide True s 993) demo_hs (\<lambda>_. demo_relay) (demo_live 2) (demo_live 3)"
  "live_step (\<lambda>s. port_decide True s 993) demo_hs (\<lambda>_. demo_relay) (demo_live 3) (demo_live 4)"
proof -
  let ?step = "live_step (\<lambda>s. port_decide True s 993) demo_hs (\<lambda>_. demo_relay)"
  show "?step (demo_live 0) (demo_live 1)"
    using live_conn [where v = "demo_live 0", OF step_arrive [of "lp_listener (demo_live 0)" _ _ _ demo_conn]]
    by (simp add: demo_live_def newSNIListener_def Let_def)
  show "?step (demo_live 1) (demo_live 2)"
    using live_edit [where v = "demo_live 1", of IoOk "OpUpsertSite [] demo_site" None demo_s1 "[]"] demo_step1
    by (simp add: demo_live_def Let_def del: run_op.simps)
  show "?step (demo_live 2) (demo_live 3)"
    using live_edit [where v = "demo_live 2", of IoOk "OpUpsertDomain [] demo_domain" None demo_s2 "[NotifyDomain]"] demo_step2
    by (simp add: demo_live_def Let_def numeral_3_eq_3 del: run_op.simps)
  show "?step (demo_live 3) (demo_live 4)"
    using live_conn [where v = "demo_live 3", OF step_spliced [of "lp_listener (demo_live 3)" "[]" 0 demo_conn "[]"]] demo_live_handle
    by (simp add: demo_live_def newSNIListener_def Let_def)
qed

theorem live_routing_witness:
  "\<exists>m<4. (\<exists>w\<in>set (forwards_at (lp_store (demo_live m)) ''mail.example.com'' 993). pf_target w = ''10.0.0.6:993'')"
proof -
  have steps: "\<forall>j<4. live_step (\<lambda>s. port_decide True s 993) demo_hs (\<lambda>_. demo_relay) (demo_live j) (demo_live (Suc j))"
    using demo_live_steps by (simp add: less_Suc_eq numeral_eq_Suc all_conj_distrib)
  have at: "(0, demo_conn) \<in> set (ls_peeking (lp_listener (demo_live 1)))"
    "(0, demo_conn, FSpliced ''10.0.0.6:993'' \<lparr>rr_dialed = True, rr_to_backend = header_for True demo_relay @ cn_in demo_conn,
        rr_to_client = [5]\<rparr>) \<in> set (ls_final (lp_listener (demo_live 4)))"
    "lp_store (demo_live 0) = demo_ready" "lp_listener (demo_live 0) = newSNIListener"
    by (simp_all add: demo_live_def Let_def)
  from live_routing [OF _ _ at(4) steps at(1,2)] at(3) demo_ready_ok show ?thesis
    by (auto simp: demo_peek Let_def in_force_def intro: le_less_trans)
qed

text \<open>C22: a connection that is terminated here reads as the client sent it: whatever was
  consumed to find the server name, reads of any positive sizes, as many as there are bytes at
  most, return the client's whole stream in order.\<close>

theorem accepted_stream_replayed:
  assumes "handle hs decide env c = Delivered p" "\<forall>k\<in>set ks. 0 < k" "length (cn_in c) \<le> length ks"
  shows "fst (read_seq ks p) = cn_in c \<and> cn_out (px_conn p) = cn_out c"
proof -
  have d: "decide (fst (peekClientHelloSNI hs c)) = ActAccept" "pending p = cn_in c"
    using handle_cases(1) [OF assms(1)] by (simp_all add: decided_def)
  from handle_accept [of decide hs c env, OF d(1)] assms(1) have "cn_out (px_conn p) = cn_out c" by auto
  with read_seq_all [OF assms(2)] assms(3) d(2) show ?thesis by simp
qed

theorem accepted_stream_replayed_witness: "fst (read_seq [1, 2, 9, 9, 1] demo_taken) = [22, 3, 1, 7, 9]"
  using accepted_stream_replayed [OF demo_handle [of "\<lambda>_. undefined"], of "[1, 2, 9, 9, 1]"] by (simp add: demo_conn_def)

text \<open>The work left in a closed listener: a peeked connection has two moves to go, a waiting one
  one, and so have the accept loop and the consumer of the listener.\<close>

definition sni_load :: "listener \<Rightarrow> nat" where
  "sni_load l = 2 * length (ls_peeking l) + length (ls_waiting l)
     + (if ls_loop l then 1 else 0) + (if ls_consumer l then 1 else 0)"

lemma sni_step_load:
  assumes "sni_step hs decide env l l'" "ls_done l" "\<not> ls_inner l" "l' \<noteq> l"
  shows "sni_load l' < sni_load l \<and> ls_done l' \<and> \<not> ls_inner l'"
  using assms(1)
proof cases
  case step_close
  with assms(2,4) show ?thesis by (cases l) simp
next
  case step_close_inner
  with assms(3,4) show ?thesis by (cases l) simp
qed (use assms(2,3) in \<open>simp_all add: sni_load_def\<close>)

text \<open>C25: a closed listener winds down. Once \<open>Close\<close> has closed \<open>done\<close> and the inner listener, its
  goroutines together make no more moves than twice the connections being peeked plus those waiting
  plus two; and when none of them can move any more, the accept loop and the server have stopped
  and every connection ever accepted has its end, also one that was waiting to be handed to a
  server that no longer asks for it: no goroutine is left behind.\<close>

theorem closed_listener_winds_down:
  assumes "sni_reach hs decide env (f 0)" "ls_done (f 0)" "\<not> ls_inner (f 0)"
    and "\<forall>i<n. sni_step hs decide env (f i) (f (Suc i)) \<and> f (Suc i) \<noteq> f i"
  shows "n \<le> 2 * length (ls_peeking (f 0)) + length (ls_waiting (f 0)) + 2
    \<and> ((\<forall>l'. sni_step hs decide env (f n) l' \<longrightarrow> l' = f n) \<longrightarrow>
         set (map fst (ls_final (f n))) = {..<ls_next (f n)} \<and> distinct (map fst (ls_final (f n)))
         \<and> \<not> ls_loop (f n) \<and> \<not> ls_consumer (f n))"
proof -
  have down: "i \<le> n \<Longrightarrow> sni_reach hs decide env (f i) \<and> ls_done (f i) \<and> \<not> ls_inner (f i) \<and> i + sni_load (f i) \<le> sni_load (f 0)" for i
  proof (induction i)
    case (Suc i)
    with assms(4) have s: "sni_step hs decide env (f i) (f (Suc i))" "f (Suc i) \<noteq> f i" by simp_all
    from Suc have "sni_reach hs decide env (f i)" "ls_done (f i)" "\<not> ls_inner (f i)" "i + sni_load (f i) \<le> sni_load (f 0)" by simp_all
    with sni_step_load [OF s(1) _ _ s(2)] sni_next [OF _ s(1)] show ?case by fastforce
  qed (use assms in simp)
  have "set (map fst (ls_final (f n))) = {..<ls_next (f n)} \<and> distinct (map fst (ls_final (f n)))
      \<and> \<not> ls_loop (f n) \<and> \<not> ls_consumer (f n)" if "\<forall>l'. sni_step hs decide env (f n) l' \<longrightarrow> l' = f n"
    using sni_quiet [of "f n" hs decide env] that down [of n] sni_reach_ok [of hs decide env "f n"]
    by (simp add: sni_ok_def ids_def)
  moreover have "n \<le> 2 * length (ls_peeking (f 0)) + length (ls_waiting (f 0)) + 2"
    using down [of n] by (simp add: sni_load_def split: if_splits)
  ultimately show ?thesis by blast
qed

text \<open>A listener that is closed while a connection waits and its server has already left.\<close>

definition demo_closing :: "nat \<Rightarrow> listener" where
  "demo_closing j =
     (let l = newSNIListener\<lparr>ls_done := True, ls_inner := False, ls_loop := False, ls_consumer := False, ls_next := 1\<rparr>
      in [l\<lparr>ls_waiting := [(0, demo_conn, demo_taken)]\<rparr>, l\<lparr>ls_final := [(0, demo_conn, FClosed)]\<rparr>] ! j)"

lemma demo_closing_reach: "sni_reach demo_hs demo_accept env (demo_closing 0)"
proof -
  let ?l1 = "newSNIListener\<lparr>ls_next := Suc 0, ls_peeking := [(0, demo_conn)]\<rparr>"
  let ?l2 = "?l1\<lparr>ls_peeking := [], ls_waiting := [(0, demo_conn, demo_taken)]\<rparr>"
  have "sni_step demo_hs demo_accept env newSNIListener ?l1"
    using step_arrive [of newSNIListener demo_hs demo_accept env demo_conn] by (simp add: newSNIListener_def)
  moreover have "sni_step demo_hs demo_accept env ?l1 ?l2"
    using step_ready [of ?l1 "[]" 0 demo_conn "[]", OF _ demo_handle] by (simp add: newSNIListener_def)
  moreover have "sni_step demo_hs demo_accept env ?l2 (?l2\<lparr>ls_done := True\<rparr>)" by (rule step_close)
  moreover have "sni_step demo_hs demo_accept env (?l2\<lparr>ls_done := True\<rparr>) (?l2\<lparr>ls_done := True, ls_consumer := False\<rparr>)"
    using step_accept_ends [of "?l2\<lparr>ls_done := True\<rparr>"] by (simp add: newSNIListener_def)
  moreover have "sni_step demo_hs demo_accept env (?l2\<lparr>ls_done := True, ls_consumer := False\<rparr>)
      (?l2\<lparr>ls_done := True, ls_consumer := False, ls_inner := False\<rparr>)"
    using step_close_inner [of "?l2\<lparr>ls_done := True, ls_consumer := False\<rparr>"] by simp
  moreover have "sni_step demo_hs demo_accept env (?l2\<lparr>ls_done := True, ls_consumer := False, ls_inner := False\<rparr>) (demo_closing 0)"
    using step_loop_ends [of "?l2\<lparr>ls_done := True, ls_consumer := False, ls_inner := False\<rparr>"]
    by (simp add: newSNIListener_def demo_closing_def)
  ultimately show ?thesis by (meson sni_start sni_next)
qed

theorem closed_listener_winds_down_witness:
  "sni_step demo_hs demo_accept (\<lambda>_. undefined) (demo_closing 0) (demo_closing 1)
    \<and> \<not> ls_consumer (demo_closing 1) \<and> set (map fst (ls_final (demo_closing 1))) = {..<1}"
proof -
  have step: "sni_step demo_hs demo_accept (\<lambda>_. undefined) (demo_closing 0) (demo_closing 1)"
    using step_abandon [of "demo_closing 0" "[]" 0 demo_conn demo_taken "[]"]
    by (simp add: demo_closing_def newSNIListener_def Let_def)
  have moves: "\<forall>i<1. sni_step demo_hs demo_accept (\<lambda>_. undefined) (demo_closing i) (demo_closing (Suc i)) \<and> demo_closing (Suc i) \<noteq> demo_closing i"
    using step by (simp add: demo_closing_def newSNIListener_def Let_def)
  have "l' = demo_closing 1" if "sni_step demo_hs demo_accept (\<lambda>_. undefined) (demo_closing 1) l'" for l'
    using that by (auto elim!: sni_stepE simp: demo_closing_def newSNIListener_def Let_def)
  moreover have "ls_done (demo_closing 0)" "\<not> ls_inner (demo_closing 0)" "ls_next (demo_closing 1) = 1"
    by (simp_all add: demo_closing_def Let_def)
  ultimately show ?thesis
    using step closed_listener_winds_down [OF demo_closing_reach _ _ moves] by simp
qed

text \<open>C34: the relay of a connection, two goroutines copying chunks of any size, ends after at
  most as many moves as there are bytes, plus three; at every moment what each side has received is
  what the other sent up to some point; a side that sees the end of the stream has received all of it
  unless something broke; and when nothing broke and nothing more can happen, both connections are
  closed and the two sides have exactly what \<open>spliceTo\<close> and \<open>handleTCP\<close> say they get.\<close>

theorem relay_complete:
  assumes "pipe_run es (pipe_start (header_for sp env @ prefix) (cn_in client) (re_down env)) = Some st"
  shows "length es \<le> length (cn_in client) + length (re_down env) + 3
    \<and> pi_to_target st @ pi_up st = header_for sp env @ prefix @ cn_in client \<and> pi_to_client st @ pi_down st = re_down env
    \<and> (BreakUp \<notin> set es \<and> BreakDown \<notin> set es \<longrightarrow>
         (pi_up_done st \<longrightarrow> pi_to_target st = header_for sp env @ prefix @ cn_in client)
         \<and> (pi_down_done st \<longrightarrow> pi_to_client st = re_down env))
    \<and> (BreakUp \<notin> set es \<and> BreakDown \<notin> set es \<and> (\<forall>e. e \<noteq> BreakUp \<and> e \<noteq> BreakDown \<longrightarrow> pipe_step e st = None)
         \<and> re_dial env \<and> re_header_fails env = None \<and> re_prefix_fails env = None \<longrightarrow>
         pi_returned st
         \<and> spliceTo env client prefix sp = \<lparr>rr_dialed = True, rr_to_backend = pi_to_target st, rr_to_client = pi_to_client st\<rparr>
         \<and> (prefix = [] \<and> fw_proxy_proto fw = sp \<longrightarrow> handleTCP env fw (cn_in client) =
              \<lparr>rr_dialed = True, rr_to_backend = pi_to_target st, rr_to_client = pi_to_client st\<rparr>))"
proof -
  note stream = pipe_run_stream [OF assms]
  have "length es + pipe_load st \<le> length (cn_in client) + length (re_down env) + 3"
    using pipe_run_load [OF assms] by (simp add: pipe_load_def pipe_start_def)
  moreover have "ends_last st" if "unbroken es"
    by (rule pipe_run_ends [OF assms that]) (simp add: ends_last_def pipe_start_def)
  moreover have "pi_returned st \<and> pi_to_target st = (header_for sp env @ prefix) @ cn_in client \<and> pi_to_client st = re_down env"
    if "unbroken es" "\<forall>e. e \<noteq> BreakUp \<and> e \<noteq> BreakDown \<longrightarrow> pipe_step e st = None"
    by (rule pipe_complete [OF assms that(1)]) (use that(2) in blast)
  ultimately show ?thesis
    using stream by (auto simp: unbroken_def ends_last_def pipe_start_def spliceTo_def handleTCP_def Let_def)
qed

theorem relay_complete_witness:
  "\<exists>st. pipe_run [CopyUp 1, CopyDown 9, EofDown, CopyUp 0, CopyUp 7, EofUp, Return]
      (pipe_start (header_for False demo_relay @ [22, 3]) (cn_in demo_conn) (re_down demo_relay)) = Some st
    \<and> pi_to_target st = [22, 3, 22, 3, 1, 7, 9] \<and> pi_to_client st = [5]"
proof -
  obtain st where st: "pipe_run [CopyUp 1, CopyDown 9, EofDown, CopyUp 0, CopyUp 7, EofUp, Return]
      (pipe_start (header_for False demo_relay @ [22, 3]) (cn_in demo_conn) (re_down demo_relay)) = Some st"
      "pi_up_done st" "pi_down_done st"
    by (simp add: demo_relay_def demo_conn_def pipe_start_def header_for_def)
  from relay_complete [OF st(1)] st(2,3) have "pi_to_target st = header_for False demo_relay @ [22, 3] @ cn_in demo_conn"
      "pi_to_client st = re_down demo_relay" by simp_all
  with st(1) show ?thesis by (intro exI [of _ st]) (simp add: header_for_def demo_conn_def demo_relay_def)
qed

text \<open>C23: a TCP forward takes its clients in the order they came. Once its socket is closed
  there is a bound on the moves left; when nothing but an error can happen any more the accept
  loop has ended, so that \<open>stop\<close> has returned, and every connection taken before has been relayed
  to its end exactly as \<open>handleTCP\<close> says of it alone: closing the forward cuts none of them, and
  none got bytes of another.\<close>

theorem tcp_forward_winds_down:
  assumes "tcp_run fw env up es tcp_start = Some st"
  shows "(\<exists>rest. arrivals es = map fst (tf_conns st) @ rest)
    \<and> (\<not> tf_open st \<longrightarrow> (\<forall>es' st'. tcp_run fw env up es' st = Some st' \<longrightarrow> length es' \<le> tcp_load fw env up st))
    \<and> (no_breaks es \<and> tcp_quiet fw env up st \<longrightarrow>
         \<not> tf_looping st \<and> (\<forall>(i, c)\<in>set (tf_conns st). conn_result c = Some (handleTCP (env i) fw (up i))))"
proof -
  have ok: "tcp_ok fw env up st" by (rule tcp_run_ok [OF assms tcp_start_ok])
  have "\<exists>rest. arrivals es = map fst (tf_conns st) @ rest"
    using tcp_run_order [OF assms] by (auto simp: tcp_start_def)
  moreover have "length es' \<le> tcp_load fw env up st" if "\<not> tf_open st" "tcp_run fw env up es' st = Some st'" for es' st'
    using tcp_run_load [OF that(2,1) ok] by simp
  moreover have "\<not> tf_looping st \<and> (\<forall>(i, c)\<in>set (tf_conns st). conn_result c = Some (handleTCP (env i) fw (up i)))"
    if "no_breaks es" "tcp_quiet fw env up st"
  proof -
    have "conns_whole st" by (rule tcp_run_whole [OF assms that(1)]) (simp add: conns_whole_def tcp_start_def)
    from tcp_quiet_ends [OF that(2) ok this] show ?thesis by blast
  qed
  ultimately show ?thesis by blast
qed

definition demo_tcp_events :: "tcp_event list" where
  "demo_tcp_events = [Connect 4, Connect 2, AcceptNext, DialDone 4, CopyStep 4 (CopyUp 9), CloseListener, AcceptError,
     CopyStep 4 (CopyDown 0), CopyStep 4 EofUp, CopyStep 4 EofDown, CopyStep 4 Return]"

lemma demo_tcp:
  "\<exists>p. tcp_run demo_forward (\<lambda>_. demo_relay) (\<lambda>i. [1, 2]) demo_tcp_events tcp_start =
      Some \<lparr>tf_open = False, tf_looping = False, tf_backlog = [], tf_conns = [(4, Relaying p)]\<rparr>
    \<and> pi_up_done p \<and> pi_down_done p \<and> pi_returned p \<and> pi_to_target p = [1, 2] \<and> pi_to_client p = [5]"
  by (simp add: demo_tcp_events_def demo_relay_def demo_forward_def header_for_def model_eval)

theorem tcp_forward_winds_down_witness:
  "handleTCP demo_relay demo_forward [1, 2] = \<lparr>rr_dialed = True, rr_to_backend = [1, 2], rr_to_client = [5]\<rparr>"
proof -
  obtain p where p: "tcp_run demo_forward (\<lambda>_. demo_relay) (\<lambda>i. [1, 2]) demo_tcp_events tcp_start =
      Some \<lparr>tf_open = False, tf_looping = False, tf_backlog = [], tf_conns = [(4, Relaying p)]\<rparr>"
      "pi_up_done p" "pi_down_done p" "pi_returned p" "pi_to_target p = [1, 2]" "pi_to_client p = [5]"
    using demo_tcp by blast
  have b: "no_breaks demo_tcp_events" by (simp add: no_breaks_def demo_tcp_events_def)
  have pipe: "pipe_step e p = None" for e using p(2-4) by (cases e) simp_all
  have "tcp_quiet demo_forward (\<lambda>_. demo_relay) (\<lambda>i. [1, 2])
      \<lparr>tf_open = False, tf_looping = False, tf_backlog = [], tf_conns = [(4, Relaying p)]\<rparr>"
    unfolding tcp_quiet_def
  proof (intro allI impI)
    fix e
    show "tcp_step demo_forward (\<lambda>_. demo_relay) (\<lambda>i. [1, 2]) e
        \<lparr>tf_open = False, tf_looping = False, tf_backlog = [], tf_conns = [(4, Relaying p)]\<rparr> = None"
      using pipe by (cases e) simp_all
  qed
  with tcp_forward_winds_down [OF p(1)] b p(4-6) show ?thesis by simp
qed

text \<open>C40: any error of \<open>Accept\<close>, one that passes included (no file descriptor left), ends the
  accept loop for good: the forward keeps its socket and takes no client any more, and neither the
  status nor any later \<open>Apply\<close> with the same settings notices.\<close>

theorem accept_error_deafens:
  assumes "tcp_run w env up es tcp_start = Some st" "AcceptError \<in> set es" "CloseListener \<notin> set es"
    and "distinct (map fw_name fws)" "w \<in> set fws" "fw_enabled w" "(fw_name w, l) \<in> set (fr_active f)" "same_listener w l"
  shows "tf_open st
    \<and> (\<forall>es' st'. tcp_run w env up es' st = Some st' \<longrightarrow> map fst (tf_conns st') = map fst (tf_conns st))
    \<and> (fw_name w, l) \<in> set (fr_active (ForwarderApply refuse resolve fws f))
    \<and> map_of (fr_status (ForwarderApply refuse resolve fws f)) (fw_name w) = Some []"
proof -
  have "tf_open st" using tcp_run_open [OF assms(1,3)] by (simp add: tcp_start_def)
  moreover have "map fst (tf_conns st') = map fst (tf_conns st)" if "tcp_run w env up es' st = Some st'" for es' st'
    using tcp_run_deaf [OF that tcp_run_error [OF assms(1,2)]] by simp
  moreover have a: "(fw_name w, l) \<in> set (fr_active (ForwarderApply refuse resolve fws f))"
    by (rule ForwarderApply_keeps [OF assms(4,7,5,6,8)])
  moreover have "map_of (fr_status (ForwarderApply refuse resolve fws f)) (fw_name w) = Some []"
  proof -
    from a have "fw_name w \<in> fst ` set (fr_active (ForwarderApply refuse resolve fws f))" by (metis fst_conv image_eqI)
    with ForwarderApply_status [OF assms(4,5), of refuse resolve f] assms(6) show ?thesis by (auto split: option.splits)
  qed
  ultimately show ?thesis by blast
qed

theorem accept_error_deafens_witness:
  "\<exists>st. tcp_run demo_forward (\<lambda>_. demo_relay) (\<lambda>i. []) [Connect 0, AcceptNext, AcceptError, Connect 1] tcp_start = Some st
    \<and> tf_open st \<and> map fst (tf_conns st) = [0] \<and> tf_backlog st = [1]
    \<and> map_of (fr_status (ForwarderApply (\<lambda>_ _. None) (\<lambda>_. None) [demo_forward]
         \<lparr>fr_active = [(''ssh'', \<lparr>fl_fwd = demo_forward, fl_ln = True, fl_pc = False\<rparr>)], fr_status = [], fr_held = []\<rparr>)) ''ssh'' = Some []"
proof -
  obtain st where st: "tcp_run demo_forward (\<lambda>_. demo_relay) (\<lambda>i. []) [Connect 0, AcceptNext, AcceptError, Connect 1] tcp_start = Some st"
      "map fst (tf_conns st) = [0]" "tf_backlog st = [1]"
    by (simp add: model_eval)
  have n: "fw_name demo_forward = ''ssh''" "fw_enabled demo_forward" by (simp_all add: demo_forward_def)
  let ?f = "\<lparr>fr_active = [(''ssh'', \<lparr>fl_fwd = demo_forward, fl_ln = True, fl_pc = False\<rparr>)], fr_status = [], fr_held = []\<rparr>"
  have h: "AcceptError \<in> set [Connect 0, AcceptNext, AcceptError, Connect 1]"
    "CloseListener \<notin> set [Connect 0, AcceptNext, AcceptError, Connect 1]"
    "distinct (map fw_name [demo_forward])" "demo_forward \<in> set [demo_forward]"
    "(fw_name demo_forward, \<lparr>fl_fwd = demo_forward, fl_ln = True, fl_pc = False\<rparr>) \<in> set (fr_active ?f)"
    "same_listener demo_forward \<lparr>fl_fwd = demo_forward, fl_ln = True, fl_pc = False\<rparr>"
    by (simp_all add: n same_listener_def)
  note deaf = accept_error_deafens [OF st(1) h(1-4) n(2) h(5,6), of "\<lambda>_ _. None" "\<lambda>_. None"]
  have op: "tf_open st" using deaf by (rule conjunct1)
  have status: "map_of (fr_status (ForwarderApply (\<lambda>_ _. None) (\<lambda>_. None) [demo_forward] ?f)) ''ssh'' = Some []"
    using deaf unfolding n(1) by (elim conjE)
  show ?thesis by (intro exI [of _ st] conjI) (rule st op status)+
qed

section \<open>Datagrams\<close>

text \<open>C16: the UDP relay never mixes clients: each backend socket belongs to one client, all
  datagrams sent on it are that client's, and all replies read from it went to that client.\<close>

theorem udp_clients_isolated:
  assumes "udp_run es udp_start = Some st"
  shows "\<exists>owner. (\<forall>i k bs. (i, k, bs) \<in> set (ud_to_backend st) \<longrightarrow> owner i = k)
    \<and> (\<forall>i k bs. (i, k, bs) \<in> set (ud_to_client st) \<longrightarrow> owner i = k)"
proof -
  obtain owner where "udp_owner owner st"
    using udp_run_owner [OF udp_start_ok(1) _ assms] udp_start_ok(2) by blast
  then have "\<forall>e\<in>set (ud_to_backend st). owner (fst e) = fst (snd e)" "\<forall>e\<in>set (ud_to_client st). owner (fst e) = fst (snd e)"
    by (simp_all add: udp_owner_def owned_log_def)
  then show ?thesis by (intro exI [of _ owner]) auto
qed

definition demo_datagrams :: "udp_event list" where
  "demo_datagrams = [Packet ''a'' [1] True, Packet ''b'' [2] True, Reply 1 [7], Reply 0 [8], Advance 30, Tick,
     Packet ''b'' [3] False]"

lemma demo_udp:
  "\<exists>st. udp_run demo_datagrams udp_start = Some st \<and> ud_to_client st = [(0, ''a'', [8]), (1, ''b'', [7])]
    \<and> ud_to_backend st = [(1, ''b'', [3]), (1, ''b'', [2]), (0, ''a'', [1])] \<and> ud_open st \<and> ud_now st = 30
    \<and> map fst (ud_sessions st) = [''a'', ''b'']"
  by (simp add: demo_datagrams_def model_eval Let_def)

theorem udp_clients_isolated_witness: "\<exists>owner :: nat \<Rightarrow> string. owner 0 = ''a'' \<and> owner 1 = ''b''"
proof -
  obtain st where st: "udp_run demo_datagrams udp_start = Some st" "ud_to_client st = [(0, ''a'', [8]), (1, ''b'', [7])]"
    using demo_udp by blast
  from udp_clients_isolated [OF st(1)] obtain owner where
      "\<forall>i k bs. (i, k, bs) \<in> set (ud_to_client st) \<longrightarrow> owner i = k" by blast
  then have "owner 0 = ''a''" "owner 1 = ''b''" using st(2) by auto
  then show ?thesis by blast
qed

text \<open>C24: a mapping that is still there is at most 120 seconds past its client's last datagram,
  no mapping is dropped before 90 idle seconds unless the relay stops, every mapping has exactly
  one open socket and every open socket one mapping, so that a stopped relay holds none.\<close>

theorem udp_mapping_lifetime:
  assumes "udp_run es udp_start = Some st"
  shows "(ud_open st \<longrightarrow> (\<forall>k s. (k, s) \<in> set (ud_sessions st) \<longrightarrow> ud_now st \<le> us_last s + 120))
    \<and> (\<forall>e st' k s. udp_step e st = Some st' \<and> (k, s) \<in> set (ud_sessions st) \<and> k \<notin> fst ` set (ud_sessions st') \<longrightarrow>
         e = CloseSocket \<or> e = Tick \<and> us_last s + 90 < ud_now st)
    \<and> length (ud_socks st) = length (ud_sessions st) \<and> set (ud_socks st) = set (map (us_back \<circ> snd) (ud_sessions st))
    \<and> (\<forall>st'. udp_step CloseSocket st = Some st' \<longrightarrow> ud_socks st' = [])"
proof -
  have ok: "udp_ok st" by (rule udp_run_ok [OF udp_start_ok(1) assms])
  have "udp_timely st" by (rule udp_run_timely [OF udp_start_ok(1) udp_start_timely assms])
  then have "ud_open st \<longrightarrow> (\<forall>k s. (k, s) \<in> set (ud_sessions st) \<longrightarrow> ud_now st \<le> us_last s + 120)"
    by (force simp: udp_timely_def udpSessionIdle_def reaper_period_def)
  moreover have "length (ud_socks st) = length (ud_sessions st)"
  proof -
    have "distinct (ud_socks st)" "set (ud_socks st) = set (map (us_back \<circ> snd) (ud_sessions st))"
        "distinct (map (us_back \<circ> snd) (ud_sessions st))"
      using ok by (simp_all add: udp_ok_def sockets_ok_def sessions_ok_def)
    then have "length (ud_socks st) = length (map (us_back \<circ> snd) (ud_sessions st))" by (metis distinct_card)
    then show ?thesis by simp
  qed
  moreover have "set (ud_socks st) = set (map (us_back \<circ> snd) (ud_sessions st))"
    using ok by (simp add: udp_ok_def sockets_ok_def)
  moreover have "\<forall>st'. udp_step CloseSocket st = Some st' \<longrightarrow> ud_socks st' = []"
    using udp_close_ok [OF ok] by simp
  moreover have "\<forall>e st' k s. udp_step e st = Some st' \<and> (k, s) \<in> set (ud_sessions st) \<and> k \<notin> fst ` set (ud_sessions st') \<longrightarrow>
         e = CloseSocket \<or> e = Tick \<and> us_last s + 90 < ud_now st"
    using udp_step_keeps by (force simp: udpSessionIdle_def)
  ultimately show ?thesis by blast
qed

theorem udp_mapping_lifetime_witness:
  "\<exists>st. udp_run demo_datagrams udp_start = Some st \<and> length (ud_sessions st) = 2 \<and> length (ud_socks st) = 2"
proof -
  obtain st where st: "udp_run demo_datagrams udp_start = Some st" "map fst (ud_sessions st) = [''a'', ''b'']"
    using demo_udp by (elim exE conjE) (rule that)
  have "length (map fst (ud_sessions st)) = 2" unfolding st(2) by simp
  then have "length (ud_sessions st) = 2" by simp
  with udp_mapping_lifetime [OF st(1)] have "length (ud_socks st) = 2" by simp
  with st(1) \<open>length (ud_sessions st) = 2\<close> show ?thesis by blast
qed

section \<open>The concurrency limit\<close>

text \<open>C17: from the start of the server on, whatever requests arrive, wait, leave and finish and
  however the configuration is edited meanwhile, the requests in service that share the slots of
  one compilation of a route are never more than the route's limit.\<close>

theorem concurrency_limit_held:
  assumes "NewStore mk io doc host = Inr s0" "traffic_run es (s0, no_traffic) = Some (s, tf)"
    and "(q, c) \<in> set (tf_serving tf)" "cr_limiter c = Some l"
  shows "int (in_flight (lim_id l) tf) \<le> rt_max (cr_route c) \<and> 0 < rt_max (cr_route c)"
proof -
  have "traffic_ok (s, tf)" by (rule traffic_run_ok [OF assms(2) NewStore_traffic_ok [OF assms(1)]])
  from traffic_limit [OF this _ assms(4), of q] assms(3) show ?thesis by auto
qed

lemmas traffic_defs = uses_chan_def in_flight_def fresh_request_def serve_def acquire_def cancel_def
  channel_send_def channel_receive_def finish_request_def no_traffic_def

definition demo_traffic :: "traffic_event list" where
  "demo_traffic = [Arrive 0 ''app.example.com'' ''/api/x'', Arrive 1 ''app.example.com'' ''/api'',
     Arrive 2 ''App.example.com'' ''/api/y'', Acquire 1, Acquire 0, Finish 1, Acquire 2]"

definition demo_compiled :: compiled_route where
  "demo_compiled = hd (snd (hd demo_csites))"

lemma demo_s1_match:
  "MatchSite demo_s1 ''app.example.com'' ''/api/x'' = Some demo_compiled"
  "MatchSite demo_s1 ''app.example.com'' ''/api'' = Some demo_compiled"
  "MatchSite demo_s1 ''App.example.com'' ''/api/y'' = Some demo_compiled"
  by (simp_all add: demo_compiled_def demo_states demo_tables demo_entries model_eval go_eval Let_def)

lemma demo_compiled_limit: "cr_limiter demo_compiled = Some \<lparr>lim_id = 0, lim_cap = 2\<rparr>"
  "cr_route demo_compiled = hd (hs_routes demo_site)" "rt_max (hd (hs_routes demo_site)) = 2"
  by (simp_all add: demo_compiled_def demo_csites_def demo_site_def)

lemma demo_s1_run: "traffic_run demo_traffic (demo_s1, no_traffic) =
    Some (demo_s1, \<lparr>tf_waiting = [], tf_serving = [(2, demo_compiled), (0, demo_compiled)], tf_cancelled = [],
      tf_chan = (\<lambda>_. 0)(0 := 2)\<rparr>)"
  by (simp add: demo_traffic_def demo_s1_match demo_compiled_limit traffic_defs numeral_2_eq_2)

lemma demo_first_commit:
  "run_op IoOk (OpUpsertSite [] demo_site) demo_start = (None, demo_s1\<lparr>st_on_forward := False, st_on_dnat := False,
     st_on_domain := False\<rparr>, [])"
  by (simp add: op_defs demo_site_valid)
    (simp add: demo_states demo_tables demo_entries blank_store_def model_eval go_eval Let_def)

theorem concurrency_limit_held_witness:
  "\<exists>s tf. traffic_run (Edit IoOk (OpUpsertSite [] demo_site) # demo_traffic) (demo_start, no_traffic) = Some (s, tf)
    \<and> int (in_flight 0 tf) \<le> 2 \<and> length (tf_serving tf) = 2"
proof -
  let ?s = "demo_s1\<lparr>st_on_forward := False, st_on_dnat := False, st_on_domain := False\<rparr>"
  let ?tf = "\<lparr>tf_waiting = [], tf_serving = [(2, demo_compiled), (0, demo_compiled)], tf_cancelled = [],
      tf_chan = (\<lambda>_. 0)(0 := 2)\<rparr>"
  have m: "MatchSite ?s h p = MatchSite demo_s1 h p" for h p by (simp add: MatchSite_def)
  have run: "traffic_run (Edit IoOk (OpUpsertSite [] demo_site) # demo_traffic) (demo_start, no_traffic) = Some (?s, ?tf)"
    using demo_first_commit
    by (simp add: demo_traffic_def m demo_s1_match demo_compiled_limit traffic_defs numeral_2_eq_2 del: run_op.simps)
  from concurrency_limit_held [OF demo_start run _ demo_compiled_limit(1), of 0] run show ?thesis
    by (intro exI [of _ ?s] exI [of _ ?tf]) (simp add: demo_compiled_limit)
qed

text \<open>C28: no slot is lost. In every reachable state each limiter channel holds exactly one value
  for each request in service that it let in, so that a request can always give its slot back; a
  request that cannot get a slot finds the channel full of requests in service, and whichever of
  them finishes first, the waiting one can have its slot at once; and when all requests in service
  have finished every channel is empty again and any waiting request is let in.\<close>

theorem waiting_request_served:
  assumes "NewStore mk io doc host = Inr s0" "traffic_run es (s0, no_traffic) = Some (s, tf)"
    and "(q, c) \<in> set (tf_waiting tf)"
  shows "(\<forall>i. tf_chan tf i = in_flight i tf) \<and> (\<forall>(p, d)\<in>set (tf_serving tf). finish_request p tf \<noteq> None)
    \<and> (\<exists>l. cr_limiter c = Some l \<and> (acquire q tf = None \<longrightarrow> int (in_flight (lim_id l) tf) = lim_cap l
         \<and> (\<forall>(p, d)\<in>set (tf_serving tf). uses_chan (lim_id l) d \<longrightarrow>
              (\<exists>tf'. traffic_run [Finish p, Acquire q] (s, tf) = Some (s, tf') \<and> (q, c) \<in> set (tf_serving tf')))))
    \<and> traffic_run (map (Finish \<circ> fst) (tf_serving tf)) (s, tf) = Some (s, tf\<lparr>tf_serving := [], tf_chan := \<lambda>_. 0\<rparr>)
    \<and> (\<exists>tf'. traffic_run (map (Finish \<circ> fst) (tf_serving tf) @ [Acquire q]) (s, tf) = Some (s, tf') \<and> tf_serving tf' = [(q, c)])"
proof -
  have ok: "traffic_ok (s, tf)" by (rule traffic_run_ok [OF assms(2) NewStore_traffic_ok [OF assms(1)]])
  then have req: "requests_ok tf" "chan_ok tf" by (simp_all add: traffic_ok_def)
  then obtain l where l: "cr_limiter c = Some l" using assms(3) by (force simp: requests_ok_def)
  have "finish_request p tf \<noteq> None" if "(p, d) \<in> set (tf_serving tf)" for p d
    using finish_possible [OF req, of p d] that req(1) by (simp add: requests_ok_def)
  moreover have "\<forall>i. tf_chan tf i = in_flight i tf" using req(2) by (simp add: chan_ok_def)
  moreover note full = waiting_gets_next [OF ok assms(3) l]
  then have "\<exists>l. cr_limiter c = Some l \<and> (acquire q tf = None \<longrightarrow> int (in_flight (lim_id l) tf) = lim_cap l
      \<and> (\<forall>(p, d)\<in>set (tf_serving tf). uses_chan (lim_id l) d \<longrightarrow>
           (\<exists>tf'. traffic_run [Finish p, Acquire q] (s, tf) = Some (s, tf') \<and> (q, c) \<in> set (tf_serving tf'))))"
    using l by (intro exI [of _ l]) (auto simp del: traffic_run.simps)
  moreover note finish_all [OF req, of s] waiting_can_be_served [OF ok assms(3)]
  ultimately show ?thesis by (intro conjI) (auto simp del: traffic_run.simps)
qed

theorem waiting_request_served_witness:
  "\<exists>s tf tf'. traffic_run [Edit IoOk (OpUpsertSite [] demo_site), Arrive 0 ''app.example.com'' ''/api''] (demo_start, no_traffic)
      = Some (s, tf) \<and> traffic_run [Acquire 0] (s, tf) = Some (s, tf') \<and> tf_serving tf' = [(0, demo_compiled)]"
proof -
  let ?s = "demo_s1\<lparr>st_on_forward := False, st_on_dnat := False, st_on_domain := False\<rparr>"
  let ?tf = "\<lparr>tf_waiting = [(0, demo_compiled)], tf_serving = [], tf_cancelled = [], tf_chan = \<lambda>_. 0\<rparr>"
  have m: "MatchSite ?s h p = MatchSite demo_s1 h p" for h p by (simp add: MatchSite_def)
  have run: "traffic_run [Edit IoOk (OpUpsertSite [] demo_site), Arrive 0 ''app.example.com'' ''/api''] (demo_start, no_traffic)
      = Some (?s, ?tf)"
    using demo_first_commit by (simp add: m demo_s1_match demo_compiled_limit traffic_defs del: run_op.simps)
  from waiting_request_served [OF demo_start run, of 0 demo_compiled] run show ?thesis by auto
qed

text \<open>The limit does not survive an edit: every accepted change of a site or a domain makes
  new slots for every route, so with two requests of a route of limit 2 in service, a change of
  an unrelated domain lets two more in.\<close>

theorem limit_exceeded_after_edit:
  "\<exists>tf. traffic_run (demo_traffic @ [Edit IoOk (OpUpsertDomain [] demo_domain),
        Arrive 3 ''app.example.com'' ''/api'', Acquire 3, Arrive 4 ''app.example.com'' ''/api'', Acquire 4])
      (demo_s1, no_traffic) = Some (demo_s2, tf)
    \<and> map (cr_route \<circ> snd) (tf_serving tf) = replicate 4 (hd (hs_routes demo_site))
    \<and> rt_max (hd (hs_routes demo_site)) = 2"
proof -
  let ?c = "demo_compiled\<lparr>cr_limiter := Some \<lparr>lim_id = 1, lim_cap = 2\<rparr>\<rparr>"
  have "MatchSite demo_s2 ''app.example.com'' ''/api'' = Some ?c"
    by (simp add: demo_compiled_def demo_states demo_tables demo_entries model_eval go_eval Let_def)
  then show ?thesis
    using demo_s1_run demo_step2
    by (simp add: traffic_run_append demo_compiled_limit traffic_defs numeral_eq_Suc del: run_op.simps)
qed

end
