(* ===== verification/Dnat.thy ===== *)
theory Dnat
  imports Validate
begin

text \<open>
  The kernel DNAT manager of \<open>dnat.go\<close>. The \<open>iptables\<close> binary is a parameter: a function
  from the argument list and the state of the kernel to an error text, if it fails, and the
  new state. What the code relies on is stated by \<open>iptables_spec\<close>: seen through a view of
  the nat table, a successful command has the effect its flag documents and is possible only
  where the documentation allows it, and a failed one has no effect. It says nothing about
  when a command succeeds; \<open>reliable\<close> adds that possible commands do.
\<close>

type_synonym nat_rule = "string list"
type_synonym nat_table = "string \<rightharpoonup> nat_rule list"
type_synonym 's iptables = "string list \<Rightarrow> 's \<Rightarrow> string option \<times> 's"

definition dnatChain :: string where
  "dnatChain = ''INPROXY_DNAT''"

definition postChain :: string where
  "postChain = ''INPROXY_POST''"

record 's dnat_manager =
  dg_kernel :: 's
  dg_status :: "(string \<times> string) list"
  dg_last :: string

section \<open>The manager\<close>

text \<open>Where the binary is found is part of the parameter.\<close>

definition NewDNATManager :: "'s \<Rightarrow> 's dnat_manager" where
  "NewDNATManager krn = \<lparr>dg_kernel = krn, dg_status = [], dg_last = []\<rparr>"

lemma NewDNATManager_kernel [simp]: "dg_kernel (NewDNATManager krn) = krn"
  by (simp add: NewDNATManager_def)

definition cmd :: "string \<Rightarrow> string \<Rightarrow> nat_rule \<Rightarrow> string list" where
  "cmd flag chain args = ''-t'' # ''nat'' # flag # chain # args"

definition ensureJump :: "'s iptables \<Rightarrow> string \<Rightarrow> string \<Rightarrow> string \<Rightarrow> 's \<Rightarrow> string option \<times> 's" where
  "ensureJump ipt parent target addFlag k =
     (case ipt (cmd ''-C'' parent [''-j'', target]) k of
        (None, k1) \<Rightarrow> (None, k1)
      | (Some e, k1) \<Rightarrow> ipt (cmd addFlag parent [''-j'', target]) k1)"

definition ensureScaffolding :: "'s iptables \<Rightarrow> 's \<Rightarrow> string option \<times> 's" where
  "ensureScaffolding ipt k =
     (let k1 = snd (ipt (cmd ''-N'' dnatChain []) k);
          k2 = snd (ipt (cmd ''-N'' postChain []) k1)
      in case ensureJump ipt ''PREROUTING'' dnatChain ''-I'' k2 of
           (Some e, k3) \<Rightarrow> (Some e, k3)
         | (None, k3) \<Rightarrow> ensureJump ipt ''POSTROUTING'' postChain ''-A'' k3)"

definition dnat_args :: "dnat_rule \<Rightarrow> nat_rule" where
  "dnat_args r = [''-p'', dn_proto r, ''-m'', ''addrtype'', ''--dst-type'', ''LOCAL'',
     ''--dport'', format_int (dn_port r), ''-j'', ''DNAT'', ''--to-destination'', dn_target r]"

definition masq_args :: "dnat_rule \<Rightarrow> string \<Rightarrow> string \<Rightarrow> nat_rule" where
  "masq_args r host tport = [''-p'', dn_proto r, ''-d'', host, ''--dport'', tport, ''-j'', ''MASQUERADE'']"

text \<open>The error text of \<open>net.SplitHostPort\<close> is shown to the user only; its words are not
  modelled.\<close>

definition applyRule :: "'s iptables \<Rightarrow> (addr_err \<Rightarrow> string) \<Rightarrow> dnat_rule \<Rightarrow> 's \<Rightarrow> string option \<times> 's" where
  "applyRule ipt addr_text r k =
     (case ipt (cmd ''-A'' dnatChain (dnat_args r)) k of
        (Some e, k1) \<Rightarrow> (Some e, k1)
      | (None, k1) \<Rightarrow>
          if \<not> dn_snat r then (None, k1)
          else (case split_host_port (dn_target r) of
              Inl e \<Rightarrow> (Some (addr_text e), k1)
            | Inr (host, tport) \<Rightarrow> ipt (cmd ''-A'' postChain (masq_args r host tport)) k1))"

fun apply_rules ::
  "'s iptables \<Rightarrow> (addr_err \<Rightarrow> string) \<Rightarrow> dnat_rule list \<Rightarrow> (string \<times> string) list \<Rightarrow> 's
     \<Rightarrow> (string \<times> string) list \<times> 's" where
  "apply_rules ipt addr_text [] status k = (status, k)"
| "apply_rules ipt addr_text (r # rs) status k =
     (if \<not> dn_enabled r then apply_rules ipt addr_text rs (AList.update (dn_name r) ''disabled'' status) k
      else (case applyRule ipt addr_text r k of
          (Some e, k1) \<Rightarrow> apply_rules ipt addr_text rs (AList.update (dn_name r) (''error: '' @ e) status) k1
        | (None, k1) \<Rightarrow> apply_rules ipt addr_text rs (AList.update (dn_name r) ''active'' status) k1))"

definition failed_status :: "string \<Rightarrow> dnat_rule list \<Rightarrow> (string \<times> string) list" where
  "failed_status e rules =
     fold (\<lambda>r. AList.update (dn_name r) (if dn_enabled r then ''error: '' @ e else ''disabled'')) rules []"

definition DNATApply :: "'s iptables \<Rightarrow> (addr_err \<Rightarrow> string) \<Rightarrow> dnat_rule list \<Rightarrow> 's dnat_manager \<Rightarrow> 's dnat_manager" where
  "DNATApply ipt addr_text rules m =
     (case ensureScaffolding ipt (dg_kernel m) of
        (Some e, k) \<Rightarrow> m\<lparr>dg_kernel := k, dg_status := failed_status e rules, dg_last := e\<rparr>
      | (None, k) \<Rightarrow>
          (let k1 = snd (ipt (cmd ''-F'' dnatChain []) k);
               k2 = snd (ipt (cmd ''-F'' postChain []) k1);
               (status, k3) = apply_rules ipt addr_text rules [] k2
           in m\<lparr>dg_kernel := k3, dg_status := status, dg_last := []\<rparr>))"

definition DNATShutdown :: "'s iptables \<Rightarrow> 's dnat_manager \<Rightarrow> 's dnat_manager" where
  "DNATShutdown ipt m =
     (let k1 = snd (ipt (cmd ''-F'' dnatChain []) (dg_kernel m))
      in m\<lparr>dg_kernel := snd (ipt (cmd ''-F'' postChain []) k1)\<rparr>)"

definition DNATStatus :: "'s dnat_manager \<Rightarrow> (string \<times> string) list \<times> string" where
  "DNATStatus m = (dg_status m, dg_last m)"

section \<open>What the code relies on\<close>

text \<open>The documented effect of the five commands the code issues; \<^const>\<open>None\<close> where the
  command is refused.\<close>

fun nat_cmd :: "string list \<Rightarrow> nat_table \<Rightarrow> nat_table option" where
  "nat_cmd (t # n # flag # c # args) tab =
     (if t \<noteq> ''-t'' \<or> n \<noteq> ''nat'' then None
      else if flag = ''-N'' then (if tab c = None then Some (tab(c \<mapsto> [])) else None)
      else (case tab c of
          None \<Rightarrow> None
        | Some rs \<Rightarrow>
            if flag = ''-F'' then Some (tab(c \<mapsto> []))
            else if flag = ''-A'' then Some (tab(c \<mapsto> rs @ [args]))
            else if flag = ''-I'' then Some (tab(c \<mapsto> args # rs))
            else if flag = ''-C'' then (if args \<in> set rs then Some tab else None)
            else None))"
| "nat_cmd _ tab = None"

definition iptables_spec :: "'s iptables \<Rightarrow> ('s \<Rightarrow> nat_table) \<Rightarrow> bool" where
  "iptables_spec ipt view \<longleftrightarrow> (\<forall>args k. case ipt args k of
       (None, k') \<Rightarrow> nat_cmd args (view k) = Some (view k')
     | (Some e, k') \<Rightarrow> view k' = view k)"

text \<open>An \<open>iptables\<close> that fails only where it must: a command succeeds when the chain is there,
  and an append to one of the program's chains when in addition the kernel takes the rule.\<close>

definition reliable :: "(nat_rule \<Rightarrow> bool) \<Rightarrow> 's iptables \<Rightarrow> ('s \<Rightarrow> nat_table) \<Rightarrow> bool" where
  "reliable accepts ipt view \<longleftrightarrow> (\<forall>flag c args k. nat_cmd (cmd flag c args) (view k) \<noteq> None \<longrightarrow>
     (fst (ipt (cmd flag c args) k) = None \<longleftrightarrow> (flag = ''-A'' \<and> c \<in> {dnatChain, postChain} \<longrightarrow> accepts args)))"

lemma spec_ok:
  "iptables_spec ipt view \<Longrightarrow> ipt args k = (None, k') \<Longrightarrow> nat_cmd args (view k) = Some (view k')"
  unfolding iptables_spec_def by (drule spec [of _ args], drule spec [of _ k]) simp

lemma spec_err:
  "iptables_spec ipt view \<Longrightarrow> ipt args k = (Some e, k') \<Longrightarrow> view k' = view k"
  unfolding iptables_spec_def by (drule spec [of _ args], drule spec [of _ k]) simp

lemma ipt_cases:
  assumes "iptables_spec ipt view"
  obtains (ok) k' where "ipt args k = (None, k')" "nat_cmd args (view k) = Some (view k')"
  | (err) e k' where "ipt args k = (Some e, k')" "view k' = view k"
proof -
  obtain e k' where r: "ipt args k = (e, k')" by fastforce
  show ?thesis
  proof (cases e)
    case None
    with r spec_ok [OF assms, of args k k'] show ?thesis by (intro ok [of k']) auto
  next
    case (Some x)
    with r spec_err [OF assms, of args k x k'] show ?thesis by (intro err [of x k']) auto
  qed
qed

lemma reliable_step:
  assumes "iptables_spec ipt view" "reliable accepts ipt view" "nat_cmd (cmd flag c args) (view k) = Some t"
    and "flag = ''-A'' \<Longrightarrow> c \<in> {dnatChain, postChain} \<Longrightarrow> accepts args"
  shows "\<exists>k'. ipt (cmd flag c args) k = (None, k') \<and> view k' = t"
proof -
  have "fst (ipt (cmd flag c args) k) = None" using assms(2-4) unfolding reliable_def by blast
  then obtain k' where "ipt (cmd flag c args) k = (None, k')" by (cases "ipt (cmd flag c args) k") auto
  with spec_ok [OF assms(1) this] assms(3) show ?thesis by simp
qed

lemma reliable_append:
  assumes "iptables_spec ipt view" "reliable accepts ipt view" "view k c = Some rs" "c \<in> {dnatChain, postChain}"
  shows "\<exists>e k'. ipt (cmd ''-A'' c args) k = (e, k') \<and> (e = None \<longleftrightarrow> accepts args)
    \<and> view k' = (view k)(c \<mapsto> rs @ filter accepts [args])"
proof -
  obtain e k' where r: "ipt (cmd ''-A'' c args) k = (e, k')" by fastforce
  have n: "nat_cmd (cmd ''-A'' c args) (view k) = Some ((view k)(c \<mapsto> rs @ [args]))" using assms(3) by (simp add: cmd_def)
  have "fst (ipt (cmd ''-A'' c args) k) = None \<longleftrightarrow> accepts args"
    using assms(2,4) n unfolding reliable_def by (metis option.distinct(1))
  with r have "e = None \<longleftrightarrow> accepts args" by simp
  moreover have "view k' = (view k)(c \<mapsto> rs @ filter accepts [args])"
  proof (cases e)
    case None
    with spec_ok [OF assms(1), of "cmd ''-A'' c args" k k'] r n calculation show ?thesis by simp
  next
    case (Some x)
    with spec_err [OF assms(1), of "cmd ''-A'' c args" k x k'] r calculation assms(3) show ?thesis
      by (simp add: map_upd_triv)
  qed
  ultimately show ?thesis using r by blast
qed

lemma nat_cmd_simps [simp]:
  "nat_cmd (cmd ''-N'' c args) tab = (if tab c = None then Some (tab(c \<mapsto> [])) else None)"
  "nat_cmd (cmd ''-F'' c args) tab = (case tab c of None \<Rightarrow> None | Some rs \<Rightarrow> Some (tab(c \<mapsto> [])))"
  "nat_cmd (cmd ''-A'' c args) tab = (case tab c of None \<Rightarrow> None | Some rs \<Rightarrow> Some (tab(c \<mapsto> rs @ [args])))"
  "nat_cmd (cmd ''-I'' c args) tab = (case tab c of None \<Rightarrow> None | Some rs \<Rightarrow> Some (tab(c \<mapsto> args # rs)))"
  "nat_cmd (cmd ''-C'' c args) tab =
     (case tab c of None \<Rightarrow> None | Some rs \<Rightarrow> if args \<in> set rs then Some tab else None)"
  by (simp_all add: cmd_def split: option.splits)

lemma chain_names [simp]:
  "dnatChain \<noteq> postChain" "postChain \<noteq> dnatChain" "dnatChain \<noteq> ''PREROUTING''" "dnatChain \<noteq> ''POSTROUTING''"
  "postChain \<noteq> ''PREROUTING''" "postChain \<noteq> ''POSTROUTING''" "''PREROUTING'' \<noteq> dnatChain"
  "''POSTROUTING'' \<noteq> dnatChain" "''PREROUTING'' \<noteq> postChain" "''POSTROUTING'' \<noteq> postChain"
  by (simp_all add: dnatChain_def postChain_def)

section \<open>Only the own chains are touched\<close>

text \<open>The two hooks are added when they are missing and nowhere else; all other chains, and
  all other rules of the built-in chains, stay.\<close>

definition hooked :: "nat_table \<Rightarrow> nat_table \<Rightarrow> bool" where
  "hooked t t' \<longleftrightarrow>
     (\<forall>c. c \<notin> {dnatChain, postChain, ''PREROUTING'', ''POSTROUTING''} \<longrightarrow> t' c = t c)
     \<and> (t' ''PREROUTING'' = t ''PREROUTING''
        \<or> (\<exists>rs. t ''PREROUTING'' = Some rs \<and> t' ''PREROUTING'' = Some ([''-j'', dnatChain] # rs)))
     \<and> (t' ''POSTROUTING'' = t ''POSTROUTING''
        \<or> (\<exists>rs. t ''POSTROUTING'' = Some rs \<and> t' ''POSTROUTING'' = Some (rs @ [[''-j'', postChain]])))"

definition own_only :: "nat_table \<Rightarrow> nat_table \<Rightarrow> bool" where
  "own_only t t' \<longleftrightarrow> (\<forall>c. c \<notin> {dnatChain, postChain} \<longrightarrow> t' c = t c)"

lemma own_only_refl [simp]: "own_only t t"
  by (simp add: own_only_def)

lemma own_only_trans: "own_only t u \<Longrightarrow> own_only u v \<Longrightarrow> own_only t v"
  by (simp add: own_only_def)

lemma hooked_own_only: "hooked t u \<Longrightarrow> own_only u v \<Longrightarrow> hooked t v"
  by (simp add: hooked_def own_only_def)

lemma nat_cmd_own:
  "nat_cmd (cmd flag c args) t = Some t' \<Longrightarrow> t' = t \<or> (\<exists>rs. t' = t(c \<mapsto> rs))"
  by (auto simp: cmd_def split: if_splits option.splits)

lemma own_cmd:
  assumes "iptables_spec ipt view" "c \<in> {dnatChain, postChain}"
  shows "own_only (view k) (view (snd (ipt (cmd flag c args) k)))"
proof (rule ipt_cases [OF assms(1), of "cmd flag c args" k])
  fix k'
  assume r: "ipt (cmd flag c args) k = (None, k')" and "nat_cmd (cmd flag c args) (view k) = Some (view k')"
  from nat_cmd_own [OF this(2)] assms(2) show ?thesis unfolding r snd_conv by (auto simp: own_only_def)
qed simp

lemma applyRule_own:
  assumes "iptables_spec ipt view"
  shows "own_only (view k) (view (snd (applyRule ipt tx r k)))"
proof -
  obtain e k1 where r: "ipt (cmd ''-A'' dnatChain (dnat_args r)) k = (e, k1)" by fastforce
  have one: "own_only (view k) (view k1)"
    using own_cmd [OF assms, of dnatChain k "''-A''" "dnat_args r"] r by simp
  have two: "own_only (view k1) (view (snd (ipt (cmd ''-A'' postChain (masq_args r h p)) k1)))" for h p
    by (rule own_cmd [OF assms]) simp_all
  show ?thesis
    using one own_only_trans [OF one two] r
    by (auto simp: applyRule_def split: option.splits sum.splits)
qed

lemma apply_rules_own:
  assumes "iptables_spec ipt view"
  shows "own_only (view k) (view (snd (apply_rules ipt tx rs st k)))"
proof (induction rs arbitrary: st k)
  case (Cons r rs)
  obtain e k1 where a: "applyRule ipt tx r k = (e, k1)" by fastforce
  have "own_only (view k) (view k1)" using applyRule_own [OF assms, of k tx r] a by simp
  then have "own_only (view k) (view (snd (apply_rules ipt tx rs st' k1)))" for st'
    by (rule own_only_trans) (rule Cons.IH)
  with Cons.IH a show ?case by (cases e) auto
qed simp

text \<open>Either the jump is there afterwards, once if it was missing, or nothing has changed and
  an error is returned. A refused check is answered by adding the jump again, so a jump that is
  there may be doubled when \<open>-C\<close> itself fails.\<close>

definition add_jump :: "string \<Rightarrow> string \<Rightarrow> nat_rule list \<Rightarrow> nat_rule list" where
  "add_jump flag target rs = (if flag = ''-I'' then [''-j'', target] # rs else rs @ [[''-j'', target]])"

lemma ensureJump_effect:
  assumes "iptables_spec ipt view" "flag = ''-I'' \<or> flag = ''-A''"
  obtains (present) k' rs where "ensureJump ipt parent target flag k = (None, k')" "view k' = view k"
      "view k parent = Some rs" "[''-j'', target] \<in> set rs"
  | (added) k' rs where "ensureJump ipt parent target flag k = (None, k')" "view k parent = Some rs"
      "view k' = (view k)(parent \<mapsto> add_jump flag target rs)"
  | (failed) e k' where "ensureJump ipt parent target flag k = (Some e, k')" "view k' = view k"
proof (rule ipt_cases [OF assms(1), of "cmd ''-C'' parent [''-j'', target]" k])
  fix k1
  assume "ipt (cmd ''-C'' parent [''-j'', target]) k = (None, k1)"
    and "nat_cmd (cmd ''-C'' parent [''-j'', target]) (view k) = Some (view k1)"
  then show thesis
    by (intro present [of k1 "the (view k parent)"]) (auto simp: ensureJump_def split: option.splits if_splits)
next
  fix e1 k1
  assume c: "ipt (cmd ''-C'' parent [''-j'', target]) k = (Some e1, k1)" and v: "view k1 = view k"
  show thesis
  proof (rule ipt_cases [OF assms(1), of "cmd flag parent [''-j'', target]" k1])
    fix k2
    assume a: "ipt (cmd flag parent [''-j'', target]) k1 = (None, k2)"
      and n: "nat_cmd (cmd flag parent [''-j'', target]) (view k1) = Some (view k2)"
    from n assms(2) v obtain rs where "view k parent = Some rs"
        "view k2 = (view k)(parent \<mapsto> add_jump flag target rs)"
      by (auto simp: add_jump_def split: option.splits)
    with a c show thesis by (intro added) (auto simp: ensureJump_def)
  next
    fix e k2
    assume "ipt (cmd flag parent [''-j'', target]) k1 = (Some e, k2)" "view k2 = view k1"
    with c v show thesis by (intro failed [of e k2]) (auto simp: ensureJump_def)
  qed
qed

lemma scaffold_hooks:
  assumes sp: "iptables_spec ipt view"
  shows "hooked (view k) (view (snd (ensureScaffolding ipt k)))"
proof -
  let ?k1 = "snd (ipt (cmd ''-N'' dnatChain []) k)"
  let ?k2 = "snd (ipt (cmd ''-N'' postChain []) ?k1)"
  have own: "own_only (view k) (view ?k2)"
    using own_only_trans [OF own_cmd [OF sp, of dnatChain] own_cmd [OF sp, of postChain]] by simp
  have post: "hooked (view k) (view (snd (ensureJump ipt ''POSTROUTING'' postChain ''-A'' k3)))"
    if "\<forall>c. c \<notin> {dnatChain, postChain, ''PREROUTING''} \<longrightarrow> view k3 c = view k c"
      "view k3 ''POSTROUTING'' = view k ''POSTROUTING''"
      "view k3 ''PREROUTING'' = view k ''PREROUTING''
        \<or> (\<exists>rs. view k ''PREROUTING'' = Some rs \<and> view k3 ''PREROUTING'' = Some ([''-j'', dnatChain] # rs))" for k3
    by (rule ensureJump_effect [OF sp, of "''-A''" "''POSTROUTING''" postChain k3])
      (use that in \<open>auto simp: hooked_def own_only_def add_jump_def split: if_splits\<close>)
  show ?thesis
  proof (rule ensureJump_effect [OF sp, of "''-I''" "''PREROUTING''" dnatChain ?k2])
    fix k3 rs
    assume r: "ensureJump ipt ''PREROUTING'' dnatChain ''-I'' ?k2 = (None, k3)" "view k3 = view ?k2"
    with own have "hooked (view k) (view (snd (ensureJump ipt ''POSTROUTING'' postChain ''-A'' k3)))"
      by (intro post) (auto simp: own_only_def)
    with r show ?thesis by (simp add: ensureScaffolding_def Let_def)
  next
    fix k3 rs
    assume r: "ensureJump ipt ''PREROUTING'' dnatChain ''-I'' ?k2 = (None, k3)"
        "view ?k2 ''PREROUTING'' = Some rs"
        "view k3 = (view ?k2)(''PREROUTING'' \<mapsto> add_jump ''-I'' dnatChain rs)"
    with own have "hooked (view k) (view (snd (ensureJump ipt ''POSTROUTING'' postChain ''-A'' k3)))"
      by (intro post) (auto simp: own_only_def add_jump_def)
    with r show ?thesis by (simp add: ensureScaffolding_def Let_def)
  next
    fix e k3
    assume "ensureJump ipt ''PREROUTING'' dnatChain ''-I'' ?k2 = (Some e, k3)" "view k3 = view ?k2"
    with own show ?thesis by (auto simp: ensureScaffolding_def Let_def hooked_def own_only_def)
  qed simp
qed

lemma DNATApply_hooks:
  assumes sp: "iptables_spec ipt view"
  shows "hooked (view (dg_kernel m)) (view (dg_kernel (DNATApply ipt tx rules m)))"
proof -
  obtain r k where s: "ensureScaffolding ipt (dg_kernel m) = (r, k)" by fastforce
  have h: "hooked (view (dg_kernel m)) (view k)" using scaffold_hooks [OF sp, of "dg_kernel m"] s by simp
  show ?thesis
  proof (cases r)
    case (Some e)
    with s h show ?thesis by (simp add: DNATApply_def)
  next
    case None
    let ?k1 = "snd (ipt (cmd ''-F'' dnatChain []) k)"
    let ?k2 = "snd (ipt (cmd ''-F'' postChain []) ?k1)"
    have "own_only (view k) (view ?k2)"
      using own_only_trans [OF own_cmd [OF sp, of dnatChain] own_cmd [OF sp, of postChain]] by simp
    from own_only_trans [OF this apply_rules_own [OF sp, of ?k2 tx rules "[]"]]
    have "own_only (view k) (view (snd (apply_rules ipt tx rules [] ?k2)))" .
    from hooked_own_only [OF h this] s None show ?thesis
      by (simp add: DNATApply_def Let_def case_prod_unfold)
  qed
qed

section \<open>Chains only grow after the flush\<close>

definition grows :: "nat_table \<Rightarrow> nat_table \<Rightarrow> bool" where
  "grows t t' \<longleftrightarrow> (\<forall>c rs. t c = Some rs \<longrightarrow> (\<exists>more. t' c = Some (rs @ more)))"

lemma grows_refl [simp]: "grows t t"
  by (simp add: grows_def)

lemma grows_trans: "grows t u \<Longrightarrow> grows u v \<Longrightarrow> grows t v"
  unfolding grows_def by (metis append.assoc)

lemma grows_mem: "grows t t' \<Longrightarrow> t c = Some rs \<Longrightarrow> x \<in> set rs \<Longrightarrow> \<exists>rs'. t' c = Some rs' \<and> x \<in> set rs'"
  by (fastforce simp: grows_def)

lemma append_grows:
  assumes sp: "iptables_spec ipt view" and "ipt (cmd ''-A'' c args) k = (e, k')"
  shows "grows (view k) (view k')"
    and "e = None \<Longrightarrow> \<exists>rs. view k' c = Some rs \<and> args \<in> set rs"
    and "e \<noteq> None \<Longrightarrow> view k' = view k"
proof -
  have "grows (view k) (view k') \<and> (e = None \<longrightarrow> (\<exists>rs. view k' c = Some rs \<and> args \<in> set rs))
      \<and> (e \<noteq> None \<longrightarrow> view k' = view k)"
  proof (rule ipt_cases [OF sp, of "cmd ''-A'' c args" k])
    fix k1
    assume "ipt (cmd ''-A'' c args) k = (None, k1)"
      and n: "nat_cmd (cmd ''-A'' c args) (view k) = Some (view k1)"
    then have k1: "k1 = k'" "e = None" using assms(2) by simp_all
    from n k1 obtain rs where "view k c = Some rs" "view k' = (view k)(c \<mapsto> rs @ [args])"
      by (auto split: option.splits)
    then show ?thesis using k1 by (simp add: grows_def)
  next
    fix x k1
    assume "ipt (cmd ''-A'' c args) k = (Some x, k1)" "view k1 = view k"
    then show ?thesis using assms(2) by simp
  qed
  then show "grows (view k) (view k')" "e = None \<Longrightarrow> \<exists>rs. view k' c = Some rs \<and> args \<in> set rs"
    "e \<noteq> None \<Longrightarrow> view k' = view k" by blast+
qed

lemma applyRule_grows:
  assumes sp: "iptables_spec ipt view" and r: "applyRule ipt tx r k = (e, k')"
  shows "grows (view k) (view k')"
    and "e = None \<Longrightarrow> (\<exists>rs. view k' dnatChain = Some rs \<and> dnat_args r \<in> set rs)
      \<and> (dn_snat r \<longrightarrow> (\<exists>h p rs. split_host_port (dn_target r) = Inr (h, p) \<and> view k' postChain = Some rs
           \<and> masq_args r h p \<in> set rs))"
proof -
  obtain e1 k1 where a: "ipt (cmd ''-A'' dnatChain (dnat_args r)) k = (e1, k1)" by fastforce
  note g = append_grows [OF sp a]
  have all: "grows (view k) (view k') \<and> (e = None \<longrightarrow>
      (\<exists>rs. view k' dnatChain = Some rs \<and> dnat_args r \<in> set rs)
      \<and> (dn_snat r \<longrightarrow> (\<exists>h p rs. split_host_port (dn_target r) = Inr (h, p) \<and> view k' postChain = Some rs
           \<and> masq_args r h p \<in> set rs)))"
  proof (cases "e1 \<noteq> None \<or> \<not> dn_snat r \<or> (\<exists>x. split_host_port (dn_target r) = Inl x)")
    case True
    with r a g show ?thesis
      by (cases "dn_snat r") (auto simp: applyRule_def split: option.splits sum.splits)
  next
    case False
    then obtain h p where hp: "e1 = None" "dn_snat r" "split_host_port (dn_target r) = Inr (h, p)"
      by (cases "split_host_port (dn_target r)") auto
    with r a have b: "ipt (cmd ''-A'' postChain (masq_args r h p)) k1 = (e, k')" by (simp add: applyRule_def)
    note g2 = append_grows [OF sp b]
    have "grows (view k) (view k')" by (rule grows_trans [OF g(1) g2(1)])
    moreover obtain rs where "view k1 dnatChain = Some rs" "dnat_args r \<in> set rs" using g(2) [OF hp(1)] by blast
    then have "\<exists>rs. view k' dnatChain = Some rs \<and> dnat_args r \<in> set rs" by (rule grows_mem [OF g2(1)])
    ultimately show ?thesis using g2(2) hp by auto
  qed
  from all show "grows (view k) (view k')" by blast
  from all show "e = None \<Longrightarrow> (\<exists>rs. view k' dnatChain = Some rs \<and> dnat_args r \<in> set rs)
      \<and> (dn_snat r \<longrightarrow> (\<exists>h p rs. split_host_port (dn_target r) = Inr (h, p) \<and> view k' postChain = Some rs
           \<and> masq_args r h p \<in> set rs))" by blast
qed

lemma apply_rules_grows:
  assumes sp: "iptables_spec ipt view"
  shows "grows (view k) (view (snd (apply_rules ipt tx rs st k)))"
proof (induction rs arbitrary: st k)
  case (Cons r rs)
  obtain e k1 where a: "applyRule ipt tx r k = (e, k1)" by fastforce
  have "grows (view k) (view (snd (apply_rules ipt tx rs st' k1)))" for st'
    using applyRule_grows(1) [OF sp a] Cons.IH by (rule grows_trans)
  with Cons.IH a show ?case by (cases e) auto
qed simp

section \<open>A rule reported active is installed\<close>

definition installed :: "nat_table \<Rightarrow> dnat_rule \<Rightarrow> bool" where
  "installed t r \<longleftrightarrow> (\<exists>rs. t dnatChain = Some rs \<and> dnat_args r \<in> set rs)
     \<and> (dn_snat r \<longrightarrow> (\<exists>h p rs. split_host_port (dn_target r) = Inr (h, p) \<and> t postChain = Some rs
          \<and> masq_args r h p \<in> set rs))"

lemma installed_grows: "installed t r \<Longrightarrow> grows t t' \<Longrightarrow> installed t' r"
  unfolding installed_def using grows_mem by metis

lemma apply_rules_other:
  "n \<notin> dn_name ` set rs \<Longrightarrow> map_of (fst (apply_rules ipt tx rs st k)) n = map_of st n"
  by (induction ipt tx rs st k rule: apply_rules.induct) (auto simp: update_conv' split: option.splits prod.splits)

definition rule_report :: "nat_table \<Rightarrow> dnat_rule \<Rightarrow> string option \<Rightarrow> bool" where
  "rule_report t r s \<longleftrightarrow>
     (if dn_enabled r then s = Some ''active'' \<and> installed t r \<or> (\<exists>e. s = Some (''error: '' @ e))
      else s = Some ''disabled'')"

lemma apply_rules_status:
  assumes sp: "iptables_spec ipt view" and "distinct (map dn_name rs)" "r \<in> set rs"
  shows "rule_report (view (snd (apply_rules ipt tx rs st k))) r (map_of (fst (apply_rules ipt tx rs st k)) (dn_name r))"
  using assms(2,3)
proof (induction rs arbitrary: st k)
  case (Cons q rs)
  obtain e k1 where a: "applyRule ipt tx q k = (e, k1)" by fastforce
  show ?case
  proof (cases "r = q")
    case False
    with Cons.prems have "r \<in> set rs" "distinct (map dn_name rs)" by auto
    note IH = Cons.IH [OF this(2,1)]
    show ?thesis using IH a by (cases "dn_enabled q"; cases e) simp_all
  next
    case True
    have other: "map_of (fst (apply_rules ipt tx rs st' k')) (dn_name q) = map_of st' (dn_name q)" for st' k'
      using Cons.prems(1) by (intro apply_rules_other) auto
    show ?thesis
    proof (cases "dn_enabled q")
      case False
      with True other show ?thesis by (simp add: update_conv' rule_report_def)
    next
      case en: True
      show ?thesis
      proof (cases e)
        case (Some x)
        with True en a other show ?thesis by (simp add: update_conv' rule_report_def)
      next
        case None
        with applyRule_grows(2) [OF sp a] have "installed (view k1) q" by (simp add: installed_def)
        then have "installed (view (snd (apply_rules ipt tx rs st' k1))) q" for st'
          using apply_rules_grows [OF sp] by (rule installed_grows)
        with True en None a other show ?thesis by (simp add: update_conv' rule_report_def)
      qed
    qed
  qed
qed simp

text \<open>The whole \<open>Apply\<close>: with unique names, every rule is reported, and one reported active
  is installed.\<close>

lemma failed_status_map:
  "distinct (map dn_name rs) \<Longrightarrow> r \<in> set rs \<Longrightarrow>
     map_of (fold (\<lambda>r. AList.update (dn_name r) (g r)) rs st) (dn_name r) = Some (g r)"
proof (induction rs arbitrary: st)
  case (Cons q rs)
  have other: "n \<notin> dn_name ` set us \<Longrightarrow> map_of (fold (\<lambda>r. AList.update (dn_name r) (g r)) us st') n = map_of st' n" for us st' n
    by (induction us arbitrary: st') (auto simp: update_conv')
  show ?case
  proof (cases "r = q")
    case True
    with Cons.prems(1) other [of "dn_name q" rs] show ?thesis by (simp add: update_conv')
  next
    case False
    with Cons show ?thesis by simp
  qed
qed simp

lemma DNATApply_report:
  assumes sp: "iptables_spec ipt view" and d: "distinct (map dn_name rules)" and r: "r \<in> set rules"
  shows "rule_report (view (dg_kernel (DNATApply ipt tx rules m))) r
    (map_of (dg_status (DNATApply ipt tx rules m)) (dn_name r))"
proof -
  obtain e k where s: "ensureScaffolding ipt (dg_kernel m) = (e, k)" by fastforce
  show ?thesis
  proof (cases e)
    case (Some x)
    with s failed_status_map [OF d r, of "\<lambda>r. if dn_enabled r then ''error: '' @ x else ''disabled''"]
    show ?thesis by (simp add: DNATApply_def failed_status_def rule_report_def)
  next
    case None
    with s apply_rules_status [OF sp d r] show ?thesis
      by (simp add: DNATApply_def Let_def case_prod_unfold)
  qed
qed

section \<open>The result with a reliable iptables\<close>

text \<open>The rules the kernel takes of a list: a rule whose DNAT part it refuses gets no masquerading
  part.\<close>

definition masq_rules :: "(nat_rule \<Rightarrow> bool) \<Rightarrow> dnat_rule list \<Rightarrow> nat_rule list" where
  "masq_rules accepts rs = concat (map (\<lambda>r. if dn_enabled r \<and> dn_snat r \<and> accepts (dnat_args r) then
       (case split_host_port (dn_target r) of Inl e \<Rightarrow> [] | Inr (h, p) \<Rightarrow> filter accepts [masq_args r h p]) else []) rs)"

definition dnat_rules :: "(nat_rule \<Rightarrow> bool) \<Rightarrow> dnat_rule list \<Rightarrow> nat_rule list" where
  "dnat_rules accepts rs = filter accepts (map dnat_args (filter dn_enabled rs))"

text \<open>What \<open>applyRule\<close> answers.\<close>

definition rule_taken :: "(nat_rule \<Rightarrow> bool) \<Rightarrow> dnat_rule \<Rightarrow> bool" where
  "rule_taken accepts r \<longleftrightarrow> accepts (dnat_args r)
     \<and> (dn_snat r \<longrightarrow> (\<forall>h p. split_host_port (dn_target r) = Inr (h, p) \<longrightarrow> accepts (masq_args r h p)))"

definition targets_split :: "dnat_rule list \<Rightarrow> bool" where
  "targets_split rs \<longleftrightarrow> (\<forall>r\<in>set rs. dn_enabled r \<and> dn_snat r \<longrightarrow> (\<exists>h p. split_host_port (dn_target r) = Inr (h, p)))"

lemma masq_rules_Cons:
  "masq_rules accepts (r # rs) = masq_rules accepts [r] @ masq_rules accepts rs"
  by (simp add: masq_rules_def)

lemma applyRule_reliable:
  assumes sp: "iptables_spec ipt view" and re: "reliable accepts ipt view" and ts: "targets_split [r]" and en: "dn_enabled r"
    and v: "view k dnatChain = Some ds" "view k postChain = Some ps"
  shows "\<exists>e k'. applyRule ipt tx r k = (e, k') \<and> (e = None \<longleftrightarrow> rule_taken accepts r)
    \<and> view k' = (view k)(dnatChain \<mapsto> ds @ dnat_rules accepts [r], postChain \<mapsto> ps @ masq_rules accepts [r])"
proof -
  from reliable_append [OF sp re v(1)] obtain e1 k1 where
    k1: "ipt (cmd ''-A'' dnatChain (dnat_args r)) k = (e1, k1)" "e1 = None \<longleftrightarrow> accepts (dnat_args r)"
      "view k1 = (view k)(dnatChain \<mapsto> ds @ filter accepts [dnat_args r])" by blast
  show ?thesis
  proof (cases "dn_snat r \<and> e1 = None")
    case False
    with k1 v en show ?thesis
      by (cases e1) (auto simp: applyRule_def masq_rules_def dnat_rules_def rule_taken_def fun_eq_iff)
  next
    case True
    with ts en obtain h p where hp: "split_host_port (dn_target r) = Inr (h, p)" by (auto simp: targets_split_def)
    have "view k1 postChain = Some ps" using k1 v by simp
    from reliable_append [OF sp re this] obtain e2 k2 where
      "ipt (cmd ''-A'' postChain (masq_args r h p)) k1 = (e2, k2)" "e2 = None \<longleftrightarrow> accepts (masq_args r h p)"
      "view k2 = (view k1)(postChain \<mapsto> ps @ filter accepts [masq_args r h p])" by blast
    with True hp k1 en show ?thesis
      by (auto simp: applyRule_def masq_rules_def dnat_rules_def rule_taken_def split: option.split)
  qed
qed

text \<open>What is in the status after the rules have been applied in turn.\<close>

definition status_tells :: "(nat_rule \<Rightarrow> bool) \<Rightarrow> dnat_rule \<Rightarrow> string option \<Rightarrow> bool" where
  "status_tells accepts r s \<longleftrightarrow> (if \<not> dn_enabled r then s = Some ''disabled''
     else if rule_taken accepts r then s = Some ''active'' else (\<exists>e. s = Some (''error: '' @ e)))"

lemma apply_rules_reliable:
  assumes sp: "iptables_spec ipt view" and re: "reliable accepts ipt view"
  shows "targets_split rs \<Longrightarrow> view k dnatChain = Some ds \<Longrightarrow> view k postChain = Some ps \<Longrightarrow>
    view (snd (apply_rules ipt tx rs st k)) =
      (view k)(dnatChain \<mapsto> ds @ dnat_rules accepts rs, postChain \<mapsto> ps @ masq_rules accepts rs)
    \<and> (distinct (map dn_name rs) \<longrightarrow>
        (\<forall>x\<in>set rs. status_tells accepts x (map_of (fst (apply_rules ipt tx rs st k)) (dn_name x))))"
proof (induction rs arbitrary: k ds ps st)
  case Nil
  then show ?case by (auto simp: dnat_rules_def masq_rules_def fun_eq_iff)
next
  case (Cons r rs)
  have ts: "targets_split rs" "targets_split [r]" using Cons.prems(1) by (simp_all add: targets_split_def)
  have split: "masq_rules accepts (r # rs) = masq_rules accepts [r] @ masq_rules accepts rs"
    "dnat_rules accepts (r # rs) = dnat_rules accepts [r] @ dnat_rules accepts rs"
    by (simp_all add: dnat_rules_def masq_rules_def)
  obtain k1 w where k1: "apply_rules ipt tx (r # rs) st k = apply_rules ipt tx rs (AList.update (dn_name r) w st) k1"
      "status_tells accepts r (Some w)"
      "view k1 = (view k)(dnatChain \<mapsto> ds @ dnat_rules accepts [r], postChain \<mapsto> ps @ masq_rules accepts [r])"
  proof (cases "dn_enabled r")
    case False
    with Cons.prems show ?thesis
      by (intro that [of "''disabled''" k]) (auto simp: dnat_rules_def masq_rules_def status_tells_def fun_eq_iff)
  next
    case True
    from applyRule_reliable [OF sp re ts(2) True Cons.prems(2,3), of tx] obtain e k1 where
      "applyRule ipt tx r k = (e, k1)" "e = None \<longleftrightarrow> rule_taken accepts r"
      "view k1 = (view k)(dnatChain \<mapsto> ds @ dnat_rules accepts [r], postChain \<mapsto> ps @ masq_rules accepts [r])" by blast
    with True show ?thesis
      using that [of "''active''" k1] that [of "''error: '' @ the e" k1] by (cases e) (simp_all add: status_tells_def)
  qed
  then have v1: "view k1 dnatChain = Some (ds @ dnat_rules accepts [r])" "view k1 postChain = Some (ps @ masq_rules accepts [r])" by simp_all
  note IH = Cons.IH [OF ts(1) v1, of "AList.update (dn_name r) w st"]
  have "view (snd (apply_rules ipt tx (r # rs) st k)) =
      (view k)(dnatChain \<mapsto> ds @ dnat_rules accepts (r # rs), postChain \<mapsto> ps @ masq_rules accepts (r # rs))"
    unfolding k1(1) IH [THEN conjunct1] k1(3) split by (simp add: fun_eq_iff)
  moreover have "status_tells accepts x (map_of (fst (apply_rules ipt tx (r # rs) st k)) (dn_name x))"
    if "distinct (map dn_name (r # rs))" "x \<in> set (r # rs)" for x
    unfolding k1(1) using that IH k1(2) by (cases "x = r") (auto simp: apply_rules_other update_conv')
  ultimately show ?case by blast
qed

text \<open>A table with its two built-in chains, and what \<open>Apply\<close> makes of it.\<close>

definition with_jump :: "string \<Rightarrow> string \<Rightarrow> nat_rule list \<Rightarrow> nat_rule list" where
  "with_jump flag target rs = (if [''-j'', target] \<in> set rs then rs else add_jump flag target rs)"

definition built :: "(nat_rule \<Rightarrow> bool) \<Rightarrow> nat_table \<Rightarrow> dnat_rule list \<Rightarrow> nat_rule list \<Rightarrow> nat_rule list \<Rightarrow> nat_table" where
  "built accepts t rules pre post = t(dnatChain \<mapsto> dnat_rules accepts rules, postChain \<mapsto> masq_rules accepts rules,
     ''PREROUTING'' \<mapsto> with_jump ''-I'' dnatChain pre, ''POSTROUTING'' \<mapsto> with_jump ''-A'' postChain post)"

lemma new_chain:
  assumes sp: "iptables_spec ipt view" and re: "reliable accepts ipt view"
  shows "\<exists>rs. view (snd (ipt (cmd ''-N'' c []) k)) = (view k)(c \<mapsto> rs)"
proof (cases "view k c")
  case None
  then have "nat_cmd (cmd ''-N'' c []) (view k) = Some ((view k)(c \<mapsto> []))" by simp
  from reliable_step [OF sp re this] show ?thesis by (auto simp del: fun_upd_apply)
next
  case (Some rs)
  have "view (snd (ipt (cmd ''-N'' c []) k)) = view k"
    by (rule ipt_cases [OF sp, of "cmd ''-N'' c []" k]) (use Some in auto)
  with Some show ?thesis by (intro exI [of _ rs]) (simp add: map_upd_triv)
qed

lemma flush_chain:
  assumes sp: "iptables_spec ipt view" and re: "reliable accepts ipt view" and "view k c = Some rs"
  shows "view (snd (ipt (cmd ''-F'' c []) k)) = (view k)(c \<mapsto> [])"
proof -
  have "nat_cmd (cmd ''-F'' c []) (view k) = Some ((view k)(c \<mapsto> []))" using assms(3) by simp
  from reliable_step [OF sp re this] show ?thesis by auto
qed

lemma ensureJump_reliable:
  assumes sp: "iptables_spec ipt view" and re: "reliable accepts ipt view" and fl: "flag = ''-I'' \<or> flag = ''-A''"
    and parent: "parent \<notin> {dnatChain, postChain}" and v: "view k parent = Some rs"
  shows "\<exists>k'. ensureJump ipt parent target flag k = (None, k') \<and> view k' = (view k)(parent \<mapsto> with_jump flag target rs)"
proof (cases "[''-j'', target] \<in> set rs")
  case True
  with v have "nat_cmd (cmd ''-C'' parent [''-j'', target]) (view k) = Some (view k)" by simp
  from reliable_step [OF sp re this] v True show ?thesis
    by (auto simp: ensureJump_def with_jump_def map_upd_triv)
next
  case False
  show ?thesis
  proof (rule ipt_cases [OF sp, of "cmd ''-C'' parent [''-j'', target]" k])
    fix k1
    assume "nat_cmd (cmd ''-C'' parent [''-j'', target]) (view k) = Some (view k1)"
    with v False show ?thesis by simp
  next
    fix e k1
    assume c: "ipt (cmd ''-C'' parent [''-j'', target]) k = (Some e, k1)" and k1: "view k1 = view k"
    have "nat_cmd (cmd flag parent [''-j'', target]) (view k1) = Some ((view k1)(parent \<mapsto> add_jump flag target rs))"
      using fl v k1 by (auto simp: add_jump_def)
    from reliable_step [OF sp re this] parent obtain k2 where "ipt (cmd flag parent [''-j'', target]) k1 = (None, k2)"
        "view k2 = (view k1)(parent \<mapsto> add_jump flag target rs)" by blast
    with c k1 False show ?thesis by (intro exI [of _ k2]) (simp add: ensureJump_def with_jump_def)
  qed
qed

lemma DNATApply_reliable:
  assumes sp: "iptables_spec ipt view" and re: "reliable accepts ipt view" and ts: "targets_split rules"
    and pre: "view (dg_kernel m) ''PREROUTING'' = Some pre" and post: "view (dg_kernel m) ''POSTROUTING'' = Some post"
  shows "view (dg_kernel (DNATApply ipt tx rules m)) = built accepts (view (dg_kernel m)) rules pre post
    \<and> (distinct (map dn_name rules) \<longrightarrow>
        (\<forall>r\<in>set rules. status_tells accepts r (map_of (dg_status (DNATApply ipt tx rules m)) (dn_name r))))
    \<and> dg_last (DNATApply ipt tx rules m) = []"
proof -
  obtain k0 k1 k2 where ks: "k0 = dg_kernel m" "snd (ipt (cmd ''-N'' dnatChain []) k0) = k1"
      "snd (ipt (cmd ''-N'' postChain []) k1) = k2" by blast
  obtain ds ps where k2: "view k2 = (view k0)(dnatChain \<mapsto> ds, postChain \<mapsto> ps)"
    using new_chain [OF sp re, of dnatChain k0] new_chain [OF sp re, of postChain k1] ks by auto
  with pre ks(1) have v2: "view k2 ''PREROUTING'' = Some pre" by simp
  have "\<exists>k'. ensureJump ipt ''PREROUTING'' dnatChain ''-I'' k2 = (None, k')
      \<and> view k' = (view k2)(''PREROUTING'' \<mapsto> with_jump ''-I'' dnatChain pre)"
    by (rule ensureJump_reliable [OF sp re, OF _ _ v2]) (simp_all add: dnatChain_def postChain_def)
  then obtain k3 where k3: "ensureJump ipt ''PREROUTING'' dnatChain ''-I'' k2 = (None, k3)"
      "view k3 = (view k2)(''PREROUTING'' \<mapsto> with_jump ''-I'' dnatChain pre)" by blast
  with k2 post ks(1) have v3: "view k3 ''POSTROUTING'' = Some post" by simp
  have "\<exists>k'. ensureJump ipt ''POSTROUTING'' postChain ''-A'' k3 = (None, k')
      \<and> view k' = (view k3)(''POSTROUTING'' \<mapsto> with_jump ''-A'' postChain post)"
    by (rule ensureJump_reliable [OF sp re, OF _ _ v3]) (simp_all add: dnatChain_def postChain_def)
  then obtain k4 where k4: "ensureJump ipt ''POSTROUTING'' postChain ''-A'' k3 = (None, k4)"
      "view k4 = (view k3)(''POSTROUTING'' \<mapsto> with_jump ''-A'' postChain post)" by blast
  have sc: "ensureScaffolding ipt (dg_kernel m) = (None, k4)"
    using k3(1) k4(1) ks by (simp add: ensureScaffolding_def Let_def)
  obtain k5 k6 where fs: "snd (ipt (cmd ''-F'' dnatChain []) k4) = k5"
      "snd (ipt (cmd ''-F'' postChain []) k5) = k6" by blast
  have v4: "view k4 dnatChain = Some ds" "view k4 postChain = Some ps" using k4(2) k3(2) k2 by simp_all
  have k5: "view k5 = (view k4)(dnatChain \<mapsto> [])" using flush_chain [OF sp re, OF v4(1)] fs(1) by simp
  then have "view k5 postChain = Some ps" using v4 by simp
  from flush_chain [OF sp re, OF this] fs(2) k5 have k6: "view k6 = (view k4)(dnatChain \<mapsto> [], postChain \<mapsto> [])" by simp
  then have v6: "view k6 dnatChain = Some []" "view k6 postChain = Some []" by simp_all
  have "DNATApply ipt tx rules m = m\<lparr>dg_kernel := snd (apply_rules ipt tx rules [] k6),
      dg_status := fst (apply_rules ipt tx rules [] k6), dg_last := []\<rparr>"
    using sc fs by (simp add: DNATApply_def Let_def case_prod_unfold)
  moreover have "(view k6)(dnatChain \<mapsto> dnat_rules accepts rules, postChain \<mapsto> masq_rules accepts rules) =
      built accepts (view k0) rules pre post"
    unfolding k6 k4(2) k3(2) k2 built_def by (simp add: fun_eq_iff)
  ultimately show ?thesis
    using apply_rules_reliable [OF sp re, OF ts v6, of tx "[]"] ks(1) by simp
qed

lemma with_jump_idem [simp]: "with_jump flag target (with_jump flag target rs) = with_jump flag target rs"
  by (auto simp: with_jump_def add_jump_def)

lemma built_again:
  "built accepts (built accepts t rules pre post) rules' (with_jump ''-I'' dnatChain pre) (with_jump ''-A'' postChain post) =
   built accepts t rules' pre post"
  by (auto simp: built_def fun_eq_iff)

text \<open>Applying a second list gives the same table as applying it alone: nothing of the
  first is left, and the hooks are not doubled.\<close>

lemma DNATApply_twice:
  assumes sp: "iptables_spec ipt view" and re: "reliable accepts ipt view" and "targets_split rules" "targets_split rules'"
    and pre: "view (dg_kernel m) ''PREROUTING'' = Some pre" and post: "view (dg_kernel m) ''POSTROUTING'' = Some post"
  shows "view (dg_kernel (DNATApply ipt tx rules' (DNATApply ipt tx rules m))) =
    view (dg_kernel (DNATApply ipt tx rules' m))"
proof -
  let ?m1 = "DNATApply ipt tx rules m"
  have m1: "view (dg_kernel ?m1) = built accepts (view (dg_kernel m)) rules pre post"
    using DNATApply_reliable [OF sp re, OF assms(3) pre post] by blast
  then have "view (dg_kernel ?m1) ''PREROUTING'' = Some (with_jump ''-I'' dnatChain pre)"
    "view (dg_kernel ?m1) ''POSTROUTING'' = Some (with_jump ''-A'' postChain post)"
    by (simp_all add: built_def)
  from DNATApply_reliable [OF sp re, OF assms(4) this, of tx]
    DNATApply_reliable [OF sp re, OF assms(4) pre post, of tx] m1 built_again
  show ?thesis by simp
qed

lemma DNATShutdown_reliable:
  assumes sp: "iptables_spec ipt view" and re: "reliable accepts ipt view"
    and "view (dg_kernel m) dnatChain = Some ds" "view (dg_kernel m) postChain = Some ps"
  shows "view (dg_kernel (DNATShutdown ipt m)) = (view (dg_kernel m))(dnatChain \<mapsto> [], postChain \<mapsto> [])"
proof -
  let ?k1 = "snd (ipt (cmd ''-F'' dnatChain []) (dg_kernel m))"
  have k1: "view ?k1 = (view (dg_kernel m))(dnatChain \<mapsto> [])" by (rule flush_chain [OF sp re, OF assms(3)])
  then have "view ?k1 postChain = Some ps" using assms(4) by simp
  from flush_chain [OF sp re, OF this] k1 show ?thesis by (simp add: DNATShutdown_def Let_def)
qed

section \<open>The flush is not checked\<close>

text \<open>Both flushes ignore their error: when the flush of the DNAT chain is refused the rules
  of the last time stay, in front of the new ones.\<close>

lemma DNATApply_flush_refused:
  assumes sp: "iptables_spec ipt view"
    and refused: "\<forall>k. fst (ipt (cmd ''-F'' dnatChain []) k) \<noteq> None"
    and old: "view (dg_kernel m) dnatChain = Some ds"
  shows "\<exists>new. view (dg_kernel (DNATApply ipt tx rules m)) dnatChain = Some (ds @ new)"
proof -
  obtain e k where s: "ensureScaffolding ipt (dg_kernel m) = (e, k)" by fastforce
  have keep_N: "view (snd (ipt (cmd ''-N'' c []) k0)) dnatChain = Some ds" if "view k0 dnatChain = Some ds" for c k0
    by (rule ipt_cases [OF sp, of "cmd ''-N'' c []" k0])
      (use that in \<open>auto split: if_splits simp: eq_commute [of "(view k0)(c \<mapsto> [])"]\<close>)
  have keep_J: "view (snd (ensureJump ipt parent target flag k0)) dnatChain = Some ds"
    if "view k0 dnatChain = Some ds" "flag = ''-I'' \<or> flag = ''-A''" "parent \<noteq> dnatChain" for parent target flag k0
    by (rule ensureJump_effect [OF sp that(2), of parent target k0]) (use that(1,3) in auto)
  obtain k1 k2 where ks: "snd (ipt (cmd ''-N'' dnatChain []) (dg_kernel m)) = k1"
      "snd (ipt (cmd ''-N'' postChain []) k1) = k2" by blast
  have "view k2 dnatChain = Some ds" using keep_N [OF keep_N [OF old]] ks by blast
  then have "view k dnatChain = Some ds"
    using s ks keep_J [of k2 "''-I''" "''PREROUTING''" dnatChain] keep_J [of _ "''-A''" "''POSTROUTING''" postChain]
    by (auto simp: ensureScaffolding_def Let_def split: prod.splits option.splits) (metis snd_conv)+
  moreover have "view (snd (ipt (cmd ''-F'' dnatChain []) k)) = view k"
  proof (rule ipt_cases [OF sp, of "cmd ''-F'' dnatChain []" k])
    fix k' assume "ipt (cmd ''-F'' dnatChain []) k = (None, k')"
    with refused show ?thesis by (metis fst_conv)
  qed simp
  ultimately obtain k5 where k5: "snd (ipt (cmd ''-F'' dnatChain []) k) = k5" "view k5 dnatChain = Some ds" by auto
  obtain k6 where k6: "snd (ipt (cmd ''-F'' postChain []) k5) = k6" by blast
  have "view k6 dnatChain = Some ds"
    by (rule ipt_cases [OF sp, of "cmd ''-F'' postChain []" k5]) (use k5 k6 in \<open>auto split: option.splits simp: eq_commute [of "(view k5)(postChain \<mapsto> [])"]\<close>)
  with apply_rules_grows [OF sp, of k6 tx rules "[]"]
  have "\<exists>new. view (snd (apply_rules ipt tx rules [] k6)) dnatChain = Some (ds @ new)" by (simp add: grows_def)
  then show ?thesis
    using s k5(1) k6 \<open>view k dnatChain = Some ds\<close>
    by (cases e) (auto simp: DNATApply_def Let_def case_prod_unfold)
qed

section \<open>A reference iptables\<close>

text \<open>The table itself as the kernel state: every possible command succeeds. The variants
  refuse to flush (another process holds the lock) and refuse masquerading.\<close>

definition ipt_ref :: "nat_table iptables" where
  "ipt_ref args t = (case nat_cmd args t of None \<Rightarrow> (Some ''refused'', t) | Some t' \<Rightarrow> (None, t'))"

definition ipt_locked :: "nat_table iptables" where
  "ipt_locked args t = (if take 3 args = [''-t'', ''nat'', ''-F''] then (Some ''locked'', t) else ipt_ref args t)"

definition ipt_no_masq :: "nat_table iptables" where
  "ipt_no_masq args t = (if ''MASQUERADE'' \<in> set args then (Some ''no masquerade'', t) else ipt_ref args t)"

definition fresh_table :: nat_table where
  "fresh_table = [''PREROUTING'' \<mapsto> [], ''POSTROUTING'' \<mapsto> [[''-j'', ''DOCKER'']]]"

lemma ipt_ref_spec: "iptables_spec ipt_ref (\<lambda>t. t)" "reliable (\<lambda>_. True) ipt_ref (\<lambda>t. t)"
  by (auto simp: iptables_spec_def reliable_def ipt_ref_def split: option.splits)

text \<open>For every set of rules there is an \<open>iptables\<close> whose kernel takes exactly these.\<close>

definition ipt_taking :: "(nat_rule \<Rightarrow> bool) \<Rightarrow> nat_table iptables" where
  "ipt_taking accepts args t =
     (case args of
        _ # _ # flag # c # rule \<Rightarrow>
          if flag = ''-A'' \<and> c \<in> {dnatChain, postChain} \<and> \<not> accepts rule then (Some ''refused'', t) else ipt_ref args t
      | _ \<Rightarrow> ipt_ref args t)"

lemma ipt_taking_spec: "iptables_spec (ipt_taking accepts) (\<lambda>t. t)" "reliable accepts (ipt_taking accepts) (\<lambda>t. t)"
proof -
  show "iptables_spec (ipt_taking accepts) (\<lambda>t. t)"
  proof -
    have two: "ipt_taking accepts args t = (Some ''refused'', t) \<or> ipt_taking accepts args t = ipt_ref args t" for args t
      by (auto simp: ipt_taking_def split: list.split)
    have "case ipt_taking accepts args t of (None, t') \<Rightarrow> nat_cmd args t = Some t' | (Some e, t') \<Rightarrow> t' = t" for args t
      using two [of args t]
    proof
      assume "ipt_taking accepts args t = ipt_ref args t"
      then show ?thesis using ipt_ref_spec(1) [unfolded iptables_spec_def, THEN spec, THEN spec, of args t] by simp
    qed simp
    then show ?thesis by (simp add: iptables_spec_def)
  qed
  show "reliable accepts (ipt_taking accepts) (\<lambda>t. t)"
    by (auto simp: reliable_def ipt_taking_def ipt_ref_def cmd_def split: option.splits)
qed

lemma ipt_locked_spec: "iptables_spec ipt_locked (\<lambda>t. t)"
  by (auto simp: iptables_spec_def ipt_locked_def ipt_ref_def split: option.splits)

lemma ipt_no_masq_spec: "iptables_spec ipt_no_masq (\<lambda>t. t)"
  by (auto simp: iptables_spec_def ipt_no_masq_def ipt_ref_def split: option.splits)

lemmas [model_eval] = dnatChain_def postChain_def cmd_def ensureJump_def ensureScaffolding_def dnat_args_def
  masq_args_def applyRule_def failed_status_def DNATApply_def DNATShutdown_def DNATStatus_def

end
