(* ===== verification/Auth.thy ===== *)
theory Auth
  imports Sha256
begin

text \<open>
  \<open>auth.go\<close>: the allowlist of source networks and the signed session cookie. The clock is
  an argument, in whole seconds (\<open>time.Now().Unix()\<close>); the cookies of a request are the pairs
  \<open>net/http\<close> has parsed from its headers, in order. \<open>ConstantTimeCompare\<close> is equality of the
  byte strings. The first part is the code, the rest states who is let in.
\<close>

section \<open>The authenticator\<close>

record auth =
  au_password :: string
  au_nets :: "ip_net list"
  au_secret :: "byte list"

definition sessionCookie :: string where
  "sessionCookie = ''inproxy_session''"

definition sessionTTL :: int where
  "sessionTTL = 12 * 3600"

text \<open>The loop of \<open>NewAuth\<close> over the entries of the list: blank ones are skipped, the first
  bad one is the error.\<close>

fun parse_nets :: "string list \<Rightarrow> string + ip_net list" where
  "parse_nets [] = Inr []"
| "parse_nets (x # xs) =
     (let c = trim_space x
      in if c = [] then parse_nets xs
         else (case ParseCIDR c of
             None \<Rightarrow> Inl c
           | Some (_, n) \<Rightarrow> bind_res (parse_nets xs) (\<lambda>ns. Inr (n # ns))))"

definition NewAuth :: "string \<Rightarrow> string \<Rightarrow> string + auth" where
  "NewAuth password cidrs =
     bind_res (parse_nets (split_byte (CHR '','') cidrs)) (\<lambda>ns.
     Inr \<lparr>au_password = password, au_nets = ns,
          au_secret = sha256 (string_bytes (''inproxy-session-key:'' @ password))\<rparr>)"

definition IPAllowed :: "auth \<Rightarrow> string \<Rightarrow> bool" where
  "IPAllowed a remoteAddr =
     (let host = (case split_host_port remoteAddr of Inl _ \<Rightarrow> remoteAddr | Inr (h, _) \<Rightarrow> h)
      in case ParseIP host of
           None \<Rightarrow> False
         | Some ip \<Rightarrow> (\<exists>n\<in>set (au_nets a). net_contains n ip))"

definition CheckPassword :: "auth \<Rightarrow> string \<Rightarrow> bool" where
  "CheckPassword a p \<longleftrightarrow> p = au_password a"

definition auth_sign :: "auth \<Rightarrow> string \<Rightarrow> string" where
  "auth_sign a payload = hex_encode (hmac_sha256 (au_secret a) (string_bytes payload))"

record cookie =
  ck_name :: string
  ck_value :: string
  ck_path :: string
  ck_http_only :: bool
  ck_secure :: bool
  ck_lax :: bool
  ck_expires :: "int option"
  ck_max_age :: int

definition IssueCookie :: "auth \<Rightarrow> int \<Rightarrow> bool \<Rightarrow> cookie" where
  "IssueCookie a now secure =
     (let exp = now + sessionTTL; payload = format_int exp
      in \<lparr>ck_name = sessionCookie, ck_value = payload @ ''.'' @ auth_sign a payload, ck_path = ''/_admin'',
          ck_http_only = True, ck_secure = secure, ck_lax = True, ck_expires = Some exp, ck_max_age = 0\<rparr>)"

definition ClearCookie :: cookie where
  "ClearCookie = \<lparr>ck_name = sessionCookie, ck_value = [], ck_path = ''/_admin'', ck_http_only = True,
     ck_secure = False, ck_lax = False, ck_expires = None, ck_max_age = - 1\<rparr>"

definition SessionValid :: "auth \<Rightarrow> (string \<times> string) list \<Rightarrow> int \<Rightarrow> bool" where
  "SessionValid a cookies now =
     (case map_of cookies sessionCookie of
        None \<Rightarrow> False
      | Some value \<Rightarrow>
          (case cut_byte (CHR ''.'') value of
             None \<Rightarrow> False
           | Some (payload, mac) \<Rightarrow>
               if mac \<noteq> auth_sign a payload then False
               else (case parse_int payload of
                   None \<Rightarrow> False
                 | Some exp \<Rightarrow> \<not> now > exp)))"

section \<open>The allowlist\<close>

definition allow_entries :: "string \<Rightarrow> string list" where
  "allow_entries cidrs = filter (\<lambda>c. c \<noteq> []) (map trim_space (split_byte (CHR '','') cidrs))"

lemma parse_nets_Inr_iff:
  "parse_nets xs = Inr ns \<longleftrightarrow>
     map (\<lambda>c. map_option snd (ParseCIDR c)) (filter (\<lambda>c. c \<noteq> []) (map trim_space xs)) = map Some ns"
proof (induction xs arbitrary: ns)
  case (Cons x xs)
  show ?case
  proof (cases "trim_space x = []")
    case False
    with Cons show ?thesis by (cases ns) (auto simp: Let_def res_iffs split: option.splits)
  qed (simp add: Cons)
qed auto

lemma NewAuth_nets:
  "NewAuth pw cidrs = Inr a \<Longrightarrow> map (\<lambda>c. map_option snd (ParseCIDR c)) (allow_entries cidrs) = map Some (au_nets a)"
  by (auto simp: NewAuth_def allow_entries_def parse_nets_Inr_iff res_iffs)

text \<open>What an entry stands for: the addresses that agree with it on its leading bits. An
  IPv4 entry holds only addresses with a 4-byte form.\<close>

definition in_cidr :: "ip \<Rightarrow> nat \<Rightarrow> ip \<Rightarrow> bool" where
  "in_cidr x n ip \<longleftrightarrow>
     (if length x = 4 then (\<exists>b. To4 ip = Some b \<and> take n (ip_bits b) = take n (ip_bits x))
      else take n (ip_bits ip) = take n (ip_bits x)
           \<and> (To4 ip = None \<longleftrightarrow> To4 (and_bytes x (cidr_mask n 16)) = None))"

definition entry_holds :: "string \<Rightarrow> ip \<Rightarrow> bool" where
  "entry_holds c ip \<longleftrightarrow> (case cut_byte (CHR ''/'') c of
       None \<Rightarrow> False
     | Some (addr, bits) \<Rightarrow>
         (case (parse_addr addr, dtoi bits) of (Some x, Some n) \<Rightarrow> in_cidr x n ip | _ \<Rightarrow> False))"

lemma ParseCIDR_contains:
  assumes "ParseCIDR c = Some (a16, net)" "length ip = 16"
  shows "net_contains net ip \<longleftrightarrow> entry_holds c ip"
proof -
  from assms(1) obtain addr bits x n where p: "cut_byte (CHR ''/'') c = Some (addr, bits)"
      "parse_addr addr = Some x" "dtoi bits = Some n" "n \<le> 8 * length x" "To16 x = Some a16"
      "net = \<lparr>net_ip = ip_mask a16 (cidr_mask n (length x)), net_mask = cidr_mask n (length x)\<rparr>"
    by (auto simp: ParseCIDR_def Let_def split: option.splits prod.splits if_splits)
  from parse_addr_length [OF p(2)] show ?thesis
  proof
    assume "length x = 4"
    with p contains_v4 [OF this assms(2), of n] show ?thesis
      by (simp add: entry_holds_def in_cidr_def To16_def)
  next
    assume "length x = 16"
    with p contains_v6 [OF this assms(2), of n] show ?thesis
      by (simp add: entry_holds_def in_cidr_def To16_def)
  qed
qed

definition source_ip :: "string \<Rightarrow> ip option" where
  "source_ip remoteAddr =
     ParseIP (case split_host_port remoteAddr of Inl _ \<Rightarrow> remoteAddr | Inr (h, _) \<Rightarrow> h)"

lemma IPAllowed_iff:
  assumes "NewAuth pw cidrs = Inr a"
  shows "IPAllowed a remote \<longleftrightarrow>
    (\<exists>ip. source_ip remote = Some ip \<and> (\<exists>c\<in>set (allow_entries cidrs). entry_holds c ip))"
proof (cases "source_ip remote")
  case (Some ip)
  then have len: "length ip = 16" by (auto simp: source_ip_def dest: ParseIP_length)
  have "list_all2 (=) (map (\<lambda>c. map_option snd (ParseCIDR c)) (allow_entries cidrs)) (map Some (au_nets a))"
    using NewAuth_nets [OF assms] by (simp only: list.rel_eq)
  then have "list_all2 (\<lambda>c n. map_option snd (ParseCIDR c) = Some n) (allow_entries cidrs) (au_nets a)"
    by (simp only: list_all2_map1 list_all2_map2)
  then have "list_all2 (\<lambda>c n. net_contains n ip \<longleftrightarrow> entry_holds c ip) (allow_entries cidrs) (au_nets a)"
    by (rule list_all2_mono) (use ParseCIDR_contains [OF _ len] in force)
  then have "(\<exists>n\<in>set (au_nets a). net_contains n ip) \<longleftrightarrow> (\<exists>c\<in>set (allow_entries cidrs). entry_holds c ip)"
    by (induction rule: list_all2_induct) auto
  with Some show ?thesis by (simp add: IPAllowed_def source_ip_def Let_def)
qed (simp add: IPAllowed_def source_ip_def Let_def)

section \<open>Sessions\<close>

lemma format_int_no_dot: "CHR ''.'' \<notin> set (format_int n)"
  by (auto simp: format_int_def dest!: format_nat_digits dest: is_digit_not_sign)

lemma SessionValid_iff:
  "SessionValid a cookies now \<longleftrightarrow>
     (\<exists>payload exp. map_of cookies sessionCookie = Some (payload @ CHR ''.'' # auth_sign a payload)
        \<and> CHR ''.'' \<notin> set payload \<and> parse_int payload = Some exp \<and> now \<le> exp)"
proof (cases "map_of cookies sessionCookie")
  case (Some v)
  show ?thesis
  proof (cases "cut_byte (CHR ''.'') v")
    case None
    then have "v \<noteq> q @ CHR ''.'' # m" for q m by (auto simp: cut_byte_None_iff)
    with None Some show ?thesis by (simp add: SessionValid_def)
  next
    case cut: (Some pm)
    obtain p m where pm: "pm = (p, m)" by (cases pm)
    have uniq: "v = q @ CHR ''.'' # x \<and> CHR ''.'' \<notin> set q \<longleftrightarrow> q = p \<and> x = m" for q x
      using cut by (auto simp: pm cut_byte_Some_iff [symmetric])
    have "SessionValid a cookies now \<longleftrightarrow> m = auth_sign a p \<and> (\<exists>e. parse_int p = Some e \<and> now \<le> e)"
      using Some cut by (auto simp: SessionValid_def pm not_less split: option.splits)
    also have "\<dots> \<longleftrightarrow> (\<exists>q e. (v = q @ CHR ''.'' # auth_sign a q \<and> CHR ''.'' \<notin> set q) \<and> parse_int q = Some e \<and> now \<le> e)"
      unfolding uniq by blast
    finally show ?thesis using Some by simp
  qed
qed (simp add: SessionValid_def)

lemma issued_session:
  assumes "- (2 ^ 63) \<le> t + sessionTTL" "t + sessionTTL < 2 ^ 63"
    "map_of cookies sessionCookie = Some (ck_value (IssueCookie a t secure))"
  shows "SessionValid a cookies now \<longleftrightarrow> now \<le> t + sessionTTL"
proof -
  let ?p = "format_int (t + sessionTTL)"
  have "map_of cookies sessionCookie = Some (?p @ CHR ''.'' # auth_sign a ?p)"
    using assms(3) by (simp add: IssueCookie_def Let_def)
  then show ?thesis
    using parse_format_int [OF assms(1,2)] format_int_no_dot [of "t + sessionTTL"]
    by (simp add: SessionValid_def cut_byte_append not_less)
qed

text \<open>Two passwords share a session only by a collision of the two signatures.\<close>

lemma byte_of_hex_digit: "n < 16 \<Longrightarrow> byte_of (hex_digit n) = (if n < 10 then 48 + n else 87 + n)"
  by (simp add: hex_digit_def)

lemma hex_digit_inj:
  assumes "a < 16" "b < 16" "hex_digit a = hex_digit b"
  shows "a = b"
proof -
  have "(if a < 10 then 48 + a else 87 + a) = (if b < 10 then 48 + b else 87 + b)"
    using byte_of_hex_digit [OF assms(1)] byte_of_hex_digit [OF assms(2)] assms(3) by metis
  then show ?thesis using assms(1,2) by presburger
qed

lemma hex_encode_inj: "hex_encode xs = hex_encode ys \<Longrightarrow> xs = ys"
proof (induction xs arbitrary: ys)
  case Nil
  then show ?case by (cases ys) (simp_all add: hex_encode_def)
next
  case (Cons x xs)
  then obtain y zs where ys: "ys = y # zs" by (cases ys) (simp_all add: hex_encode_def)
  have lt: "unat b div 16 < 16" for b :: byte proof -
    have "unat b < 256" using unsigned_less [of b, where ?'a = nat] by simp
    then show ?thesis by simp
  qed
  from Cons.prems ys have "unat x div 16 = unat y div 16" "unat x mod 16 = unat y mod 16"
    using hex_digit_inj [OF lt lt, of x y] hex_digit_inj [of "unat x mod 16" "unat y mod 16"]
    by (simp_all add: hex_encode_def)
  then have "unat x = unat y" by (metis div_mult_mod_eq)
  then have "x = y" by (rule word_unat_eq_iff [THEN iffD2])
  moreover have "xs = zs" using Cons ys by (simp add: hex_encode_def)
  ultimately show ?case using ys by simp
qed

definition session_key :: "string \<Rightarrow> byte list" where
  "session_key password = sha256 (string_bytes (''inproxy-session-key:'' @ password))"

lemma NewAuth_secret: "NewAuth pw cidrs = Inr a \<Longrightarrow> au_secret a = session_key pw"
  by (auto simp: NewAuth_def session_key_def res_iffs)

lemma shared_session:
  assumes "NewAuth pw cidrs = Inr a" "NewAuth pw' cidrs' = Inr a'"
    "SessionValid a cookies now" "SessionValid a' cookies now'"
  shows "\<exists>payload. hmac_sha256 (session_key pw) (string_bytes payload) = hmac_sha256 (session_key pw') (string_bytes payload)"
proof -
  from assms(3,4) obtain p p' where v: "map_of cookies sessionCookie = Some (p @ CHR ''.'' # auth_sign a p)"
      "map_of cookies sessionCookie = Some (p' @ CHR ''.'' # auth_sign a' p')" "CHR ''.'' \<notin> set p" "CHR ''.'' \<notin> set p'"
    by (auto simp: SessionValid_iff)
  have "p = p' \<and> auth_sign a p = auth_sign a' p'"
    using cut_byte_append [OF v(3), of "auth_sign a p"] cut_byte_append [OF v(4), of "auth_sign a' p'"] v(1,2)
    by (metis option.inject prod.inject)
  then have "auth_sign a p = auth_sign a' p" by blast
  then show ?thesis
    using hex_encode_inj by (auto simp: auth_sign_def NewAuth_secret [OF assms(1)] NewAuth_secret [OF assms(2)])
qed

lemmas [model_eval] = NewAuth_def IPAllowed_def CheckPassword_def source_ip_def allow_entries_def
  in_cidr_def entry_holds_def

end
