(* ===== verification/Server.thy ===== *)
theory Server
  imports Load Domains Dnat Auth Web
begin

text \<open>
  The running process: the store with the three components that listen to it and the
  admin's authenticator, as \<open>main\<close> wires them. An operation of the store is executed with
  the listener calls it makes, in the caller's goroutine, as the code makes them. What the
  platform answers is a record of parameters, and so is which empty slices are nil, which the
  model's lists do not tell and only JSON text shows. The listening sockets of the forwarder and of
  the router are one table of the operating system, so each sees the other's as taken.
\<close>

record 's platform =
  pl_refuse :: os_listen
  pl_resolve :: os_resolve
  pl_iptables :: "'s iptables"
  pl_addr_text :: "addr_err \<Rightarrow> string"
  pl_err_text :: "err \<Rightarrow> string"
  pl_json_text :: "json_err \<Rightarrow> string"
  pl_nil_routes :: "http_site \<Rightarrow> bool"
  pl_nil_forwards :: "domain \<Rightarrow> bool"

record 's server =
  sv_store :: store
  sv_auth :: auth
  sv_fwd :: forwarder
  sv_dnat :: "'s dnat_manager"
  sv_router :: router
  sv_own :: "socket list"

text \<open>The process-wide view a \<open>Listen\<close> of one component gets.\<close>

definition beside :: "os_listen \<Rightarrow> socket list \<Rightarrow> os_listen" where
  "beside refuse others held sk = refuse (others @ held) sk"

definition apply_forwards :: "'s platform \<Rightarrow> forward list \<Rightarrow> 's server \<Rightarrow> 's server" where
  "apply_forwards pl fws sv =
     sv\<lparr>sv_fwd := ForwarderApply (beside (pl_refuse pl) (sv_own sv @ ro_held (sv_router sv))) (pl_resolve pl) fws (sv_fwd sv)\<rparr>"

definition apply_dnat :: "'s platform \<Rightarrow> dnat_rule list \<Rightarrow> 's server \<Rightarrow> 's server" where
  "apply_dnat pl rules sv = sv\<lparr>sv_dnat := DNATApply (pl_iptables pl) (pl_addr_text pl) rules (sv_dnat sv)\<rparr>"

definition apply_domains :: "'s platform \<Rightarrow> 's server \<Rightarrow> 's server" where
  "apply_domains pl sv =
     sv\<lparr>sv_router := RouterApply (beside (pl_refuse pl) (sv_own sv @ fr_held (sv_fwd sv))) (sv_store sv) (sv_router sv)\<rparr>"

fun deliver :: "'s platform \<Rightarrow> notification \<Rightarrow> 's server \<Rightarrow> 's server" where
  "deliver pl (NotifyForwards fws) sv = apply_forwards pl fws sv"
| "deliver pl (NotifyDNAT rules) sv = apply_dnat pl rules sv"
| "deliver pl NotifyDomain sv = apply_domains pl sv"

definition exec_op :: "'s platform \<Rightarrow> io_result \<Rightarrow> store_op \<Rightarrow> 's server \<Rightarrow> err option \<times> 's server" where
  "exec_op pl io op sv =
     (case run_op io op (sv_store sv) of
        (e, s', ns) \<Rightarrow> (e, fold (deliver pl) ns (sv\<lparr>sv_store := s'\<rparr>)))"

section \<open>Startup\<close>

text \<open>\<open>env(key, def)\<close>: an empty variable counts as unset.\<close>

definition env :: "(string \<Rightarrow> string) \<Rightarrow> string \<Rightarrow> string \<Rightarrow> string" where
  "env getenv key dflt = (if getenv key \<noteq> [] then getenv key else dflt)"

datatype fatal =
    NoPassword
  | ConfigFailed err
  | BadAllowlist string
  | ListenFailed string
  | ServerExited string string

text \<open>\<open>main\<close> from the environment to the running components: the store is loaded, the
  authenticator built, the forwarder and the DNAT manager are registered and brought up with what
  is configured; then, after the TLS configuration (\<open>tls\<close> tells whether there is one), the domain
  router, which does not exist before. The listening socket of the main port is opened after the
  router's first \<open>Apply\<close>.\<close>

definition boot_components ::
  "'s platform \<Rightarrow> (string \<Rightarrow> string) \<Rightarrow> string option \<Rightarrow> io_result \<Rightarrow> file_read \<Rightarrow> 's \<Rightarrow> fatal + 's server" where
  "boot_components pl getenv mkdirErr io doc krn =
     (let password = getenv ''ADMIN_PASSWORD''
      in if password = [] then Inl NoPassword
         else bind_res (wrap_err ConfigFailed (NewStore mkdirErr io doc (env getenv ''EXTERNAL_HOST'' []))) (\<lambda>store.
              bind_res (wrap_err BadAllowlist
                  (NewAuth password (env getenv ''INTERNAL_CIDR'' ''10.8.0.0/24,127.0.0.1/32,::1/128''))) (\<lambda>auth.
              let sv0 = \<lparr>sv_store = SetForwardListener store, sv_auth = auth, sv_fwd = NewForwarder [],
                     sv_dnat = NewDNATManager krn, sv_router = NewDomainRouter False 0 0 [], sv_own = []\<rparr>;
                  sv1 = apply_forwards pl (ListForwards store) sv0;
                  sv2 = sv1\<lparr>sv_store := SetDNATListener (sv_store sv1)\<rparr>
              in Inr (apply_dnat pl (ListDNAT store) sv2))))"

definition boot_router :: "'s platform \<Rightarrow> (string \<Rightarrow> string) \<Rightarrow> bool \<Rightarrow> 's server \<Rightarrow> 's server" where
  "boot_router pl getenv tls sv =
     (let mainPort = main_port (env getenv ''PROXY_ADDR'' '':443'');
          redirectPort = redirect_port (env getenv ''HTTP_REDIRECT_ADDR'' '':80'');
          sv1 = sv\<lparr>sv_router := NewDomainRouter tls mainPort redirectPort []\<rparr>
      in apply_domains pl (sv1\<lparr>sv_store := SetDomainListener (sv_store sv1)\<rparr>))"

definition boot ::
  "'s platform \<Rightarrow> (string \<Rightarrow> string) \<Rightarrow> string option \<Rightarrow> io_result \<Rightarrow> file_read \<Rightarrow> bool \<Rightarrow> 's
     \<Rightarrow> fatal + 's server" where
  "boot pl getenv mkdirErr io doc tls krn =
     bind_res (boot_components pl getenv mkdirErr io doc krn) (\<lambda>sv. Inr (boot_router pl getenv tls sv))"

lemmas boot_defs = boot_def boot_components_def boot_router_def

text \<open>The program's own listening sockets: the main port in \<open>main\<close> itself, the other two
  servers in goroutines whose failure ends the process just the same.\<close>

definition listen_main :: "'s platform \<Rightarrow> string \<Rightarrow> 's server \<Rightarrow> fatal + 's server" where
  "listen_main pl addr sv =
     (case net_listen (beside (pl_refuse pl) (fr_held (sv_fwd sv) @ ro_held (sv_router sv))) (''tcp'', addr) (sv_own sv) of
        (Some e, _) \<Rightarrow> Inl (ListenFailed e)
      | (None, own) \<Rightarrow> Inr (sv\<lparr>sv_own := own\<rparr>))"

definition run_server :: "'s platform \<Rightarrow> string \<Rightarrow> string \<Rightarrow> 's server \<Rightarrow> fatal + 's server" where
  "run_server pl name addr sv =
     (case net_listen (beside (pl_refuse pl) (fr_held (sv_fwd sv) @ ro_held (sv_router sv))) (''tcp'', addr) (sv_own sv) of
        (Some e, _) \<Rightarrow> Inl (ServerExited name e)
      | (None, own) \<Rightarrow> Inr (sv\<lparr>sv_own := own\<rparr>))"

definition start_servers :: "'s platform \<Rightarrow> (string \<Rightarrow> string) \<Rightarrow> 's server \<Rightarrow> fatal + 's server" where
  "start_servers pl getenv sv =
     bind_res (listen_main pl (env getenv ''PROXY_ADDR'' '':443'') sv) (\<lambda>sv1.
     bind_res (run_server pl ''internal admin UI'' (env getenv ''ADMIN_ADDR'' '':8443'') sv1) (\<lambda>sv2.
     let redirectAddr = env getenv ''HTTP_REDIRECT_ADDR'' '':80''
     in if redirectAddr \<noteq> [] then run_server pl ''HTTP->HTTPS redirect'' redirectAddr sv2 else Inr sv2))"

text \<open>On a signal the components are shut down, then the program's own servers, which close their
  listening sockets.\<close>

definition shut_down :: "'s platform \<Rightarrow> 's server \<Rightarrow> 's server" where
  "shut_down pl sv =
     sv\<lparr>sv_fwd := ForwarderShutdown (sv_fwd sv), sv_dnat := DNATShutdown (pl_iptables pl) (sv_dnat sv),
        sv_router := RouterShutdown (sv_router sv), sv_own := []\<rparr>"

section \<open>The invariant of the process\<close>

definition server_ok :: "'s server \<Rightarrow> bool" where
  "server_ok sv \<longleftrightarrow> forwarder_ok (sv_fwd sv) \<and> listeners_ok (sv_fwd sv) \<and> router_ok (sv_router sv)
     \<and> config_ok (config_of (sv_store sv)) \<and> synced (sv_store sv)
     \<and> st_on_forward (sv_store sv) \<and> st_on_dnat (sv_store sv) \<and> st_on_domain (sv_store sv)"

lemma deliver_store [simp]: "sv_store (deliver pl n sv) = sv_store sv" "sv_auth (deliver pl n sv) = sv_auth sv"
  "sv_own (deliver pl n sv) = sv_own sv"
  by (cases n; simp add: apply_forwards_def apply_dnat_def apply_domains_def)+

lemma fold_deliver_store [simp]: "sv_store (fold (deliver pl) ns sv) = sv_store sv"
  "sv_auth (fold (deliver pl) ns sv) = sv_auth sv"
  by (induction ns arbitrary: sv) simp_all

lemma deliver_ok: "server_ok sv \<Longrightarrow> server_ok (deliver pl n sv)"
  by (cases n) (simp_all add: server_ok_def apply_forwards_def apply_dnat_def apply_domains_def
      ForwarderApply_ok ForwarderApply_listeners_ok RouterApply_ok)

lemma fold_deliver_ok: "server_ok sv \<Longrightarrow> server_ok (fold (deliver pl) ns sv)"
  by (induction ns arbitrary: sv) (simp_all add: deliver_ok)

lemma exec_op_ok:
  assumes "server_ok sv" "exec_op pl io op sv = (e, sv')" "\<forall>x. e = Some x \<longrightarrow> \<not> compile_error x"
  shows "server_ok sv'"
proof -
  obtain s' ns where r: "run_op io op (sv_store sv) = (e, s', ns)" "sv' = fold (deliver pl) ns (sv\<lparr>sv_store := s'\<rparr>)"
    using assms(2) by (auto simp: exec_op_def split: prod.splits)
  have "server_ok (sv\<lparr>sv_store := s'\<rparr>)"
    using assms(1) run_op_listeners [OF r(1)] run_op_config_ok [OF _ r(1)] run_op_synced [OF _ r(1) assms(3)]
    by (simp add: server_ok_def)
  with r(2) show ?thesis by (simp add: fold_deliver_ok)
qed

section \<open>The components mirror the configuration\<close>

definition forwards_live :: "forward list \<Rightarrow> forwarder \<Rightarrow> bool" where
  "forwards_live fws f \<longleftrightarrow>
     (\<forall>e\<in>set (fr_active f). \<exists>w\<in>set fws. fw_name w = fst e \<and> fw_enabled w \<and> same_listener w (snd e))
     \<and> (\<forall>w\<in>set fws. case map_of (fr_status f) (fw_name w) of
           None \<Rightarrow> False
         | Some s \<Rightarrow> (if \<not> fw_enabled w then s = ''disabled''
                      else if fw_name w \<in> fst ` set (fr_active f) then s = []
                      else (\<exists>e. s = ''error: '' @ e)))
     \<and> (\<forall>n. map_of (fr_status f) n \<noteq> None \<longrightarrow> n \<in> fw_name ` set fws)
     \<and> mset (fr_held f) = (\<Sum>w\<leftarrow>filter (\<lambda>w. fw_name w \<in> fst ` set (fr_active f)) fws. proto_sockets w)"

definition rules_live :: "('s \<Rightarrow> nat_table) \<Rightarrow> dnat_rule list \<Rightarrow> 's dnat_manager \<Rightarrow> bool" where
  "rules_live view rules m \<longleftrightarrow>
     (\<forall>r\<in>set rules. rule_report (view (dg_kernel m)) r (map_of (dg_status m) (dn_name r)))"

definition ports_live :: "store \<Rightarrow> router \<Rightarrow> bool" where
  "ports_live s r \<longleftrightarrow> set (map fst (ro_active r)) \<subseteq> set (wanted_ports r s)
     \<and> mset (ro_held r) = mset (map (port_socket \<circ> fst) (ro_active r))"

definition live :: "('s \<Rightarrow> nat_table) \<Rightarrow> 's server \<Rightarrow> bool" where
  "live view sv \<longleftrightarrow> forwards_live (st_forwards (sv_store sv)) (sv_fwd sv)
     \<and> rules_live view (st_dnat (sv_store sv)) (sv_dnat sv) \<and> ports_live (sv_store sv) (sv_router sv)"

lemma ForwarderApply_status_names:
  assumes "distinct (map fw_name fws)"
  shows "map_of (fr_status (ForwarderApply refuse resolve fws f)) n \<noteq> None \<Longrightarrow> n \<in> fw_name ` set fws"
proof -
  obtain act out held where r: "reconcile fw_name fw_enabled same_listener (startListener refuse resolve)
      stop_listener fws (fr_active f) (fr_held f) = (act, out, held)" using prod_cases3 by blast
  have "map fst out = map fw_name fws" by (rule fwd.reconcile_report_keys [OF r])
  then have "distinct (map fst out)" "fst ` set out = fw_name ` set fws" using assms by (simp_all flip: set_map)
  moreover assume "map_of (fr_status (ForwarderApply refuse resolve fws f)) n \<noteq> None"
  ultimately show ?thesis
    by (auto simp: ForwarderApply_def r status_map_of map_of_eq_None_iff)
qed

lemma ForwarderApply_live:
  "forwarder_ok f \<Longrightarrow> listeners_ok f \<Longrightarrow> distinct (map fw_name fws) \<Longrightarrow> forwards_live fws (ForwarderApply refuse resolve fws f)"
  using ForwarderApply_active [of fws _ _ refuse resolve f] ForwarderApply_status [of fws _ refuse resolve f]
    ForwarderApply_sockets [of f fws refuse resolve] ForwarderApply_status_names [of fws refuse resolve f]
  unfolding forwards_live_def by fastforce

lemma DNATApply_live:
  "iptables_spec ipt view \<Longrightarrow> distinct (map dn_name rules) \<Longrightarrow> rules_live view rules (DNATApply ipt tx rules m)"
  by (simp add: rules_live_def DNATApply_report)

lemma router_sockets: "router_ok r \<Longrightarrow> mset (ro_held r) = mset (map (port_socket \<circ> fst) (ro_active r))"
proof -
  assume ok: "router_ok r"
  then have "map (port_socket \<circ> snd) (ro_active r) = map (port_socket \<circ> fst) (ro_active r)"
    by (force simp: router_ok_def)
  with ok show ?thesis by (simp add: router_ok_def)
qed

lemma RouterApply_live: "router_ok r \<Longrightarrow> synced s \<Longrightarrow> ports_live s (RouterApply refuse s r)"
  using RouterApply_active [of s _ _ refuse r] router_sockets [OF RouterApply_ok [of r s refuse]]
  by (auto simp: ports_live_def wanted_ports_def)

lemma config_names: "config_ok (config_of s) \<Longrightarrow> distinct (map fw_name (st_forwards s)) \<and> distinct (map dn_name (st_dnat s))"
  by (simp add: config_ok_def unique_keys_def)

lemma synced_ports: "synced s \<Longrightarrow> synced s' \<Longrightarrow> st_domains s' = st_domains s \<Longrightarrow> ports_live s' r \<longleftrightarrow> ports_live s r"
  by (auto simp: synced_def ports_live_def wanted_ports_def DomainPorts_def)

text \<open>What an operation leaves alone in the store.\<close>

lemma op_config_frame:
  assumes "op_config op c = Inr c'"
  shows "op_fire op = (\<lambda>_. []) \<and> cf_forwards c' = cf_forwards c \<and> cf_dnat c' = cf_dnat c \<and> cf_domains c' = cf_domains c
    \<or> op_fire op = fireForwards \<and> cf_dnat c' = cf_dnat c \<and> cf_domains c' = cf_domains c
    \<or> op_fire op = fireDNAT \<and> cf_forwards c' = cf_forwards c \<and> cf_domains c' = cf_domains c
    \<or> op_fire op = fireDomain \<and> cf_forwards c' = cf_forwards c \<and> cf_dnat c' = cf_dnat c"
  using assms by (cases op; clarsimp simp: edit_in_Inr_iff)

lemma compile_error_write: "compile_error x \<Longrightarrow> write_error x"
  by (auto simp: write_error_def compile_error_def split: err.splits)

text \<open>A clean operation was refused without effect, or has changed the configuration as asked
  and called its listener on the new store.\<close>

lemma exec_op_cases:
  assumes x: "exec_op pl io op sv = (e, sv')" and clean: "\<forall>x. e = Some x \<longrightarrow> \<not> write_error x"
  obtains (refused) "sv' = sv"
  | (changed) s' where "op_config op (config_of (sv_store sv)) = Inr (config_of s')" "sv_store sv' = s'"
      "sv' = fold (deliver pl) (op_fire op s') (sv\<lparr>sv_store := s'\<rparr>)"
proof -
  obtain s' ns where r: "run_op io op (sv_store sv) = (e, s', ns)" "sv' = fold (deliver pl) ns (sv\<lparr>sv_store := s'\<rparr>)"
    using x by (auto simp: exec_op_def split: prod.splits)
  show thesis
  proof (cases e)
    case (Some err)
    with r clean run_op_rejected have "s' = sv_store sv \<and> ns = []" by blast
    then show ?thesis using r(2) by (intro refused) simp
  next
    case None
    with run_op_config [OF r(1)] r(2) show ?thesis by (intro changed [of s']) auto
  qed
qed

lemma exec_op_live:
  assumes ok: "server_ok sv" and lv: "live view sv" and sp: "iptables_spec (pl_iptables pl) view"
    and x: "exec_op pl io op sv = (e, sv')" and clean: "\<forall>x. e = Some x \<longrightarrow> \<not> write_error x"
  shows "server_ok sv' \<and> live view sv'"
proof -
  have clean': "\<forall>x. e = Some x \<longrightarrow> \<not> compile_error x"
    using clean compile_error_write by blast
  have ok': "server_ok sv'" by (rule exec_op_ok [OF ok x clean'])
  show ?thesis
  proof (rule exec_op_cases [OF x clean])
    fix s'
    assume c: "op_config op (config_of (sv_store sv)) = Inr (config_of s')" and s': "sv_store sv' = s'"
      and r: "sv' = fold (deliver pl) (op_fire op s') (sv\<lparr>sv_store := s'\<rparr>)"
    have regs: "st_on_forward s'" "st_on_dnat s'" "st_on_domain s'" "config_ok (config_of s')" "synced s'"
      using ok' s' by (simp_all add: server_ok_def)
    have old: "forwarder_ok (sv_fwd sv)" "listeners_ok (sv_fwd sv)" "router_ok (sv_router sv)" "synced (sv_store sv)"
      using ok by (simp_all add: server_ok_def)
    note names = config_names [OF regs(4)]
    note renewed = ForwarderApply_live [OF old(1,2)] DNATApply_live [OF sp] RouterApply_live [OF old(3) regs(5)]
    note defs = fireForwards_def fireDNAT_def fireDomain_def apply_forwards_def apply_dnat_def apply_domains_def
    have ports: "st_domains s' = st_domains (sv_store sv) \<Longrightarrow> ports_live s' (sv_router sv)"
      using synced_ports [OF old(4) regs(5)] lv by (simp add: live_def)
    from op_config_frame [OF c] show ?thesis
      by (elim disjE conjE) (use ok' lv names regs(1-3) ports in \<open>simp_all add: r live_def defs renewed\<close>)
  qed (use ok lv in simp)
qed

inductive server_run :: "'s platform \<Rightarrow> 's server \<Rightarrow> 's server \<Rightarrow> bool" for pl where
  run_start: "server_run pl sv sv"
| run_op: "server_run pl sv0 sv \<Longrightarrow> exec_op pl io op sv = (e, sv') \<Longrightarrow> \<forall>x. e = Some x \<longrightarrow> \<not> write_error x \<Longrightarrow>
     server_run pl sv0 sv'"

lemma server_run_live:
  assumes "server_run pl sv0 sv" "server_ok sv0" "live view sv0" "iptables_spec (pl_iptables pl) view"
  shows "server_ok sv \<and> live view sv"
  using assms by (induction rule: server_run.induct) (auto dest: exec_op_live)

section \<open>Startup brings the components up\<close>

lemma synced_listeners [simp]:
  "synced (SetForwardListener s) \<longleftrightarrow> synced s" "synced (SetDNATListener s) \<longleftrightarrow> synced s"
  "synced (SetDomainListener s) \<longleftrightarrow> synced s"
  "config_of (SetForwardListener s) = config_of s" "config_of (SetDNATListener s) = config_of s"
  "config_of (SetDomainListener s) = config_of s"
  by (simp_all add: synced_def config_of_def SetForwardListener_def SetDNATListener_def SetDomainListener_def)

lemma new_components_ok:
  "forwarder_ok (NewForwarder [])" "listeners_ok (NewForwarder [])" "router_ok (NewDomainRouter tls p q [])"
  by (simp_all add: forwarder_ok_def listeners_ok_def router_ok_def NewForwarder_def NewDomainRouter_def)

lemma boot_store:
  assumes "boot pl getenv mk io doc tls krn = Inr sv"
  shows "\<exists>s. NewStore mk io doc (env getenv ''EXTERNAL_HOST'' []) = Inr s
    \<and> sv_store sv = SetDomainListener (SetDNATListener (SetForwardListener s))"
  using assms by (auto simp: boot_defs Let_def res_iffs apply_forwards_def apply_dnat_def apply_domains_def split: if_splits)

lemma boot_live:
  assumes b: "boot pl getenv mk io doc tls krn = Inr sv" and ok: "config_ok (config_of (sv_store sv))"
    and sp: "iptables_spec (pl_iptables pl) view"
  shows "server_ok sv \<and> live view sv"
proof -
  from boot_store [OF b] obtain s where s1: "NewStore mk io doc (env getenv ''EXTERNAL_HOST'' []) = Inr s"
    and s2: "sv_store sv = SetDomainListener (SetDNATListener (SetForwardListener s))" by blast
  note unfold = boot_defs Let_def res_iffs apply_forwards_def apply_dnat_def apply_domains_def
  note s = s1 s2
  have fwd: "\<exists>refuse. sv_fwd sv = ForwarderApply refuse (pl_resolve pl) (st_forwards s) (NewForwarder [])"
    using b s1 by (clarsimp simp: unfold split: if_splits) blast
  have dn: "\<exists>m. sv_dnat sv = DNATApply (pl_iptables pl) (pl_addr_text pl) (st_dnat s) m"
    using b s1 by (clarsimp simp: unfold split: if_splits) blast
  have ro: "\<exists>refuse p q. sv_router sv = RouterApply refuse (sv_store sv) (NewDomainRouter tls p q [])"
    using b s1 by (clarsimp simp: unfold split: if_splits) blast
  have sy: "synced (sv_store sv)" using NewStore_synced [OF s(1)] s(2) by simp
  have same: "st_forwards (sv_store sv) = st_forwards s" "st_dnat (sv_store sv) = st_dnat s"
      "st_on_forward (sv_store sv)" "st_on_dnat (sv_store sv)" "st_on_domain (sv_store sv)"
    using s(2) by (simp_all add: SetForwardListener_def SetDNATListener_def SetDomainListener_def)
  note names = config_names [OF ok]
  have "server_ok sv"
    using ok sy same fwd ro by (auto simp: server_ok_def ForwarderApply_ok ForwarderApply_listeners_ok
        RouterApply_ok new_components_ok)
  moreover have "live view sv"
    using names same fwd dn ro ForwarderApply_live [OF new_components_ok(1,2)] DNATApply_live [OF sp]
      RouterApply_live [OF new_components_ok(3) sy] by (auto simp: live_def)
  ultimately show ?thesis by blast
qed

lemma boot_dnat:
  assumes "boot pl getenv mk io doc tls krn = Inr sv"
  shows "\<exists>m. dg_kernel m = krn \<and> sv_dnat sv = DNATApply (pl_iptables pl) (pl_addr_text pl) (st_dnat (sv_store sv)) m"
proof -
  let ?m = "NewDNATManager krn"
  from boot_store [OF assms] obtain s where s: "NewStore mk io doc (env getenv ''EXTERNAL_HOST'' []) = Inr s"
    and st: "sv_store sv = SetDomainListener (SetDNATListener (SetForwardListener s))" by blast
  have "sv_dnat sv = DNATApply (pl_iptables pl) (pl_addr_text pl) (st_dnat s) ?m"
    using assms s by (auto simp: boot_defs Let_def res_iffs apply_forwards_def apply_dnat_def apply_domains_def split: if_splits)
  moreover have "st_dnat (sv_store sv) = st_dnat s"
    using st by (simp add: SetForwardListener_def SetDNATListener_def SetDomainListener_def)
  ultimately show ?thesis by (intro exI [of _ ?m]) simp
qed

section \<open>The kernel's table\<close>

text \<open>When iptables works, the nat table is at all times the one the program found with its
  two chains holding the rules configured and its two hooks.\<close>

lemma canonical_addr_splits: "canonical_addr e a \<Longrightarrow> \<exists>h p. split_host_port a = Inr (h, p)"
  by (cases "split_host_port a") (auto simp: canonical_addr_def)

lemma config_targets_split: "config_ok (config_of s) \<Longrightarrow> targets_split (st_dnat s)"
  using canonical_addr_splits by (auto simp: config_ok_def config_of_def targets_split_def dnat_wf_def)

definition kernel_exact :: "(nat_rule \<Rightarrow> bool) \<Rightarrow> ('s \<Rightarrow> nat_table) \<Rightarrow> nat_table \<Rightarrow> nat_rule list \<Rightarrow> nat_rule list \<Rightarrow> 's server \<Rightarrow> bool" where
  "kernel_exact accepts view t pre post sv \<longleftrightarrow>
     view (dg_kernel (sv_dnat sv)) = built accepts t (st_dnat (sv_store sv)) pre post"

lemma DNATApply_exact_again:
  assumes sp: "iptables_spec ipt view" and re: "reliable accepts ipt view" and ts: "targets_split rules'"
    and m: "view (dg_kernel m) = built accepts t rules pre post"
  shows "view (dg_kernel (DNATApply ipt tx rules' m)) = built accepts t rules' pre post"
proof -
  have "view (dg_kernel m) ''PREROUTING'' = Some (with_jump ''-I'' dnatChain pre)"
    "view (dg_kernel m) ''POSTROUTING'' = Some (with_jump ''-A'' postChain post)"
    using m by (simp_all add: built_def)
  from DNATApply_reliable [OF sp re, OF ts this] m built_again show ?thesis by simp
qed

lemma exec_op_kernel:
  assumes ok: "server_ok sv" and k: "kernel_exact accepts view t pre post sv"
    and sp: "iptables_spec (pl_iptables pl) view" and re: "reliable accepts (pl_iptables pl) view"
    and x: "exec_op pl io op sv = (e, sv')" and clean: "\<forall>x. e = Some x \<longrightarrow> \<not> write_error x" and ok': "server_ok sv'"
  shows "kernel_exact accepts view t pre post sv'"
proof (rule exec_op_cases [OF x clean])
  fix s'
  assume c: "op_config op (config_of (sv_store sv)) = Inr (config_of s')" and s': "sv_store sv' = s'"
    and r: "sv' = fold (deliver pl) (op_fire op s') (sv\<lparr>sv_store := s'\<rparr>)"
  have regs: "st_on_forward s'" "st_on_dnat s'" "st_on_domain s'" "targets_split (st_dnat s')"
    using ok' s' config_targets_split by (simp_all add: server_ok_def)
  note renewed = DNATApply_exact_again [OF sp re regs(4)]
  from op_config_frame [OF c] k show ?thesis
    by (elim disjE conjE) (use regs(1-3) in \<open>simp_all add: r kernel_exact_def fireForwards_def fireDNAT_def
        fireDomain_def apply_forwards_def apply_dnat_def apply_domains_def renewed\<close>)
qed (use k in simp)

lemma server_run_kernel:
  assumes "server_run pl sv0 sv" "server_ok sv0" "live view sv0" "iptables_spec (pl_iptables pl) view"
    and "reliable accepts (pl_iptables pl) view" "kernel_exact accepts view t pre post sv0"
  shows "kernel_exact accepts view t pre post sv"
  using assms
proof (induction rule: server_run.induct)
  case (run_op sv0 sv io op e sv')
  have "server_ok sv \<and> live view sv" by (rule server_run_live [OF run_op(1) run_op(5,6,7)])
  then show ?case
    using exec_op_kernel [OF _ run_op.IH run_op(7,8) run_op(2,3)] exec_op_live [OF _ _ run_op(7) run_op(2,3)] run_op(5-9)
    by blast
qed

lemma boot_kernel:
  assumes "boot pl getenv mk io doc tls krn = Inr sv" "config_ok (config_of (sv_store sv))"
    and "iptables_spec (pl_iptables pl) view" "reliable accepts (pl_iptables pl) view"
    and "view krn ''PREROUTING'' = Some pre" "view krn ''POSTROUTING'' = Some post"
  shows "kernel_exact accepts view (view krn) pre post sv"
  using boot_dnat [OF assms(1)] DNATApply_reliable [OF assms(3,4) config_targets_split [OF assms(2)]] assms(5,6)
  by (auto simp: kernel_exact_def)

section \<open>Nothing enabled is left out\<close>

text \<open>On a system that refuses no socket and resolves every address everything enabled runs.\<close>

definition willing :: "'s platform \<Rightarrow> bool" where
  "willing pl \<longleftrightarrow> (\<forall>held sk. pl_refuse pl held sk = None) \<and> (\<forall>a. pl_resolve pl a = None)"

definition all_served :: "'s server \<Rightarrow> bool" where
  "all_served sv \<longleftrightarrow>
     (\<forall>w\<in>set (st_forwards (sv_store sv)). fw_enabled w \<longrightarrow> fw_name w \<in> fst ` set (fr_active (sv_fwd sv)))
     \<and> fst ` set (ro_active (sv_router sv)) = set (wanted_ports (sv_router sv) (sv_store sv))"

lemma beside_willing: "willing pl \<Longrightarrow> \<forall>held sk. beside (pl_refuse pl) others held sk = None"
  by (simp add: willing_def beside_def)

lemma wanted_ports_cong:
  "synced s \<Longrightarrow> synced s' \<Longrightarrow> st_domains s' = st_domains s \<Longrightarrow> wanted_ports r s' = wanted_ports r s"
  by (simp add: synced_def wanted_ports_def DomainPorts_def)

lemma wanted_ports_router [simp]: "wanted_ports (RouterApply refuse s r) s' = wanted_ports r s'"
  by (simp add: wanted_ports_def)

lemma exec_op_served:
  assumes w: "willing pl" and ok: "server_ok sv" and sd: "all_served sv"
    and x: "exec_op pl io op sv = (e, sv')" and clean: "\<forall>x. e = Some x \<longrightarrow> \<not> write_error x" and ok': "server_ok sv'"
  shows "all_served sv'"
proof (rule exec_op_cases [OF x clean])
  fix s'
  assume c: "op_config op (config_of (sv_store sv)) = Inr (config_of s')" and s': "sv_store sv' = s'"
    and r: "sv' = fold (deliver pl) (op_fire op s') (sv\<lparr>sv_store := s'\<rparr>)"
  have regs: "st_on_forward s'" "st_on_dnat s'" "st_on_domain s'" "synced s'" "synced (sv_store sv)"
    using ok ok' s' by (simp_all add: server_ok_def)
  have resolve: "\<forall>a. pl_resolve pl a = None" using w by (simp add: willing_def)
  note fwds = ForwarderApply_serves [OF beside_willing [OF w] resolve]
  note ports = RouterApply_serves [OF beside_willing [OF w] regs(4)]
  note same = wanted_ports_cong [OF regs(5,4)]
  from op_config_frame [OF c] sd show ?thesis
    by (elim disjE conjE) (use regs(1-3) in \<open>simp_all add: r all_served_def fireForwards_def fireDNAT_def fireDomain_def
        apply_forwards_def apply_dnat_def apply_domains_def fwds ports same\<close>)
qed (use sd in simp)

lemma server_run_served:
  assumes "server_run pl sv0 sv" "willing pl" "server_ok sv0" "live view sv0" "iptables_spec (pl_iptables pl) view" "all_served sv0"
  shows "all_served sv"
  using assms
proof (induction rule: server_run.induct)
  case (run_op sv0 sv io op e sv')
  have "server_ok sv \<and> live view sv" by (rule server_run_live [OF run_op(1) run_op(6,7,8)])
  then show ?case
    using exec_op_served [OF run_op(5) _ run_op.IH run_op(2,3)] exec_op_live [OF _ _ run_op(8) run_op(2,3)] run_op(5-9)
    by blast
qed

lemma boot_served:
  assumes b: "boot pl getenv mk io doc tls krn = Inr sv" and w: "willing pl"
  shows "all_served sv"
proof -
  from boot_store [OF b] obtain s where s1: "NewStore mk io doc (env getenv ''EXTERNAL_HOST'' []) = Inr s"
    and s2: "sv_store sv = SetDomainListener (SetDNATListener (SetForwardListener s))" by blast
  note unfold = boot_defs Let_def res_iffs apply_forwards_def apply_dnat_def apply_domains_def
  have "\<exists>others. sv_fwd sv = ForwarderApply (beside (pl_refuse pl) others) (pl_resolve pl) (st_forwards s) (NewForwarder [])"
    using b s1 by (clarsimp simp: unfold split: if_splits) blast
  moreover have "\<exists>others p q. sv_router sv = RouterApply (beside (pl_refuse pl) others) (sv_store sv) (NewDomainRouter tls p q [])"
    using b s1 by (clarsimp simp: unfold split: if_splits) blast
  moreover have "synced (sv_store sv)" using NewStore_synced [OF s1] s2 by simp
  moreover have "st_forwards (sv_store sv) = st_forwards s"
    using s2 by (simp add: SetForwardListener_def SetDNATListener_def SetDomainListener_def)
  moreover have "\<forall>a. pl_resolve pl a = None" using w by (simp add: willing_def)
  ultimately show ?thesis
    using ForwarderApply_serves [OF beside_willing [OF w]] RouterApply_serves [OF beside_willing [OF w]]
    by (fastforce simp: all_served_def)
qed

section \<open>The own sockets\<close>

lemma net_listen_ok: "net_listen refuse sk held = (None, held') \<Longrightarrow> set held' = insert sk (set held)"
  by (auto simp: net_listen_def split: option.splits)

lemma listen_own:
  "listen_main pl addr sv = Inr sv' \<Longrightarrow> \<exists>own. sv' = sv\<lparr>sv_own := own\<rparr> \<and> set own = insert (''tcp'', addr) (set (sv_own sv))"
  "run_server pl name addr sv = Inr sv' \<Longrightarrow> \<exists>own. sv' = sv\<lparr>sv_own := own\<rparr> \<and> set own = insert (''tcp'', addr) (set (sv_own sv))"
  by (auto simp: listen_main_def run_server_def dest: net_listen_ok split: prod.splits option.splits)

text \<open>Starting the servers leaves the components alone. The redirect server is always
  started: \<open>env\<close> takes an empty variable for an unset one.\<close>

lemma start_servers_own:
  assumes "start_servers pl getenv sv = Inr sv'"
  shows "\<exists>own. sv' = sv\<lparr>sv_own := own\<rparr> \<and> (''tcp'', env getenv ''HTTP_REDIRECT_ADDR'' '':80'') \<in> set own"
proof -
  have "env getenv ''HTTP_REDIRECT_ADDR'' '':80'' \<noteq> []" by (simp add: env_def)
  with assms obtain sv1 sv2 where "listen_main pl (env getenv ''PROXY_ADDR'' '':443'') sv = Inr sv1"
      "run_server pl ''internal admin UI'' (env getenv ''ADMIN_ADDR'' '':8443'') sv1 = Inr sv2"
      "run_server pl ''HTTP->HTTPS redirect'' (env getenv ''HTTP_REDIRECT_ADDR'' '':80'') sv2 = Inr sv'"
    by (auto simp: start_servers_def res_iffs Let_def)
  from listen_own(1) [OF this(1)] listen_own(2) [OF this(2)] listen_own(2) [OF this(3)] show ?thesis by auto
qed

lemma start_servers_live:
  "start_servers pl getenv sv = Inr sv' \<Longrightarrow> server_ok sv \<and> live view sv \<Longrightarrow> server_ok sv' \<and> live view sv'"
  by (auto dest!: start_servers_own simp: server_ok_def live_def)

text \<open>A running forward holds its listen address; when that is the main port's, the process
  cannot start.\<close>

lemma summand_subseteq: "x \<in> set xs \<Longrightarrow> f x \<subseteq># (\<Sum>x\<leftarrow>xs. f x :: 'a multiset)"
  by (induction xs) (auto intro: subset_mset.add_increasing)

lemma live_forward_sockets:
  assumes "forwards_live fws f" "w \<in> set fws" "fw_name w \<in> fst ` set (fr_active f)"
  shows "proto_sockets w \<subseteq># mset (fr_held f)"
proof -
  have held: "mset (fr_held f) = (\<Sum>w\<leftarrow>filter (\<lambda>w. fw_name w \<in> fst ` set (fr_active f)) fws. proto_sockets w)"
    using assms(1) by (simp add: forwards_live_def)
  show ?thesis unfolding held using assms(2,3) by (intro summand_subseteq) simp
qed

lemma live_forward_socket:
  assumes "forwards_live fws f" "w \<in> set fws" "fw_name w \<in> fst ` set (fr_active f)" "fw_proto w \<noteq> ''udp''"
  shows "(''tcp'', fw_listen w) \<in> set (fr_held f)"
proof -
  have "(''tcp'', fw_listen w) \<in># proto_sockets w" using assms(4) by (simp add: proto_sockets_def)
  with live_forward_sockets [OF assms(1-3)] show ?thesis by (metis mset_subset_eqD set_mset_mset)
qed

lemma listen_main_taken:
  assumes "\<forall>held sk. sk \<in> set held \<longrightarrow> pl_refuse pl held sk \<noteq> None" "(''tcp'', addr) \<in> set (fr_held (sv_fwd sv))"
  shows "\<exists>e. listen_main pl addr sv = Inl (ListenFailed e)"
  using assms by (auto simp: listen_main_def net_listen_def beside_def split: option.splits)

section \<open>Shutdown\<close>

lemma shut_down_closes:
  assumes "server_ok sv"
  shows "fr_held (sv_fwd (shut_down pl sv)) = [] \<and> fr_active (sv_fwd (shut_down pl sv)) = []
    \<and> ro_held (sv_router (shut_down pl sv)) = [] \<and> ro_active (sv_router (shut_down pl sv)) = [] \<and> sv_own (shut_down pl sv) = []"
  using assms by (simp add: shut_down_def server_ok_def ForwarderShutdown_ok RouterShutdown_ok)

lemmas [model_eval] = beside_def apply_forwards_def apply_dnat_def apply_domains_def exec_op_def env_def boot_defs
  NewDNATManager_def listen_main_def run_server_def start_servers_def
  shut_down_def

end
