(* ===== verification/Race.thy ===== *)
theory Race
  imports Server Examples
begin

text \<open>
  Concurrent requests. The store's operations run under its lock, but the listeners are
  called after the lock is released: \<open>fireForwards\<close> copies the list under a read lock and
  then calls \<open>Forwarder.Apply\<close>, which takes its own lock; \<open>fireDomain\<close> calls
  \<open>DomainRouter.Apply\<close>, which reads the store while it holds its lock. The machine has one
  event for each of these atomic parts, and the goroutine that is between two parts is a
  thread with a phase. \<open>fireDNAT\<close> has the shape of \<open>fireForwards\<close>.
\<close>

datatype phase =
    WantForwards
  | HaveForwards "forward list"
  | WantRules
  | HaveRules "dnat_rule list"
  | WantDomains

record 's race =
  ra_store :: store
  ra_fwd :: forwarder
  ra_dnat :: "'s dnat_manager"
  ra_router :: router
  ra_threads :: "(nat \<times> phase) list"
  ra_failed :: bool

datatype race_event =
    Commit nat io_result store_op
  | Snapshot nat
  | ApplyForwards nat
  | SnapshotRules nat
  | ApplyRules nat
  | ApplyDomains nat

fun next_phase :: "notification list \<Rightarrow> phase option" where
  "next_phase (NotifyForwards fws # ns) = Some WantForwards"
| "next_phase (NotifyDNAT rules # ns) = Some WantRules"
| "next_phase (NotifyDomain # ns) = Some WantDomains"
| "next_phase [] = None"

definition add_thread :: "nat \<Rightarrow> phase option \<Rightarrow> (nat \<times> phase) list \<Rightarrow> (nat \<times> phase) list" where
  "add_thread t p ths = (case p of None \<Rightarrow> ths | Some q \<Rightarrow> (t, q) # ths)"

definition failed_write :: "err option \<Rightarrow> bool" where
  "failed_write e = (case e of None \<Rightarrow> False | Some x \<Rightarrow> write_error x)"

fun race_step :: "'s platform \<Rightarrow> race_event \<Rightarrow> 's race \<Rightarrow> 's race option" where
  "race_step pl (Commit t io op) st =
     (if t \<in> fst ` set (ra_threads st) then None
      else (case run_op io op (ra_store st) of
          (e, s', ns) \<Rightarrow> Some (st\<lparr>ra_store := s', ra_threads := add_thread t (next_phase ns) (ra_threads st),
             ra_failed := (ra_failed st \<or> failed_write e)\<rparr>)))"
| "race_step pl (Snapshot t) st =
     (if map_of (ra_threads st) t = Some WantForwards
      then Some (st\<lparr>ra_threads := AList.update t (HaveForwards (st_forwards (ra_store st))) (ra_threads st)\<rparr>)
      else None)"
| "race_step pl (ApplyForwards t) st =
     (case map_of (ra_threads st) t of
        Some (HaveForwards fws) \<Rightarrow>
          Some (st\<lparr>ra_fwd := ForwarderApply (beside (pl_refuse pl) (ro_held (ra_router st))) (pl_resolve pl) fws (ra_fwd st),
                 ra_threads := AList.delete t (ra_threads st)\<rparr>)
      | _ \<Rightarrow> None)"
| "race_step pl (SnapshotRules t) st =
     (if map_of (ra_threads st) t = Some WantRules
      then Some (st\<lparr>ra_threads := AList.update t (HaveRules (st_dnat (ra_store st))) (ra_threads st)\<rparr>)
      else None)"
| "race_step pl (ApplyRules t) st =
     (case map_of (ra_threads st) t of
        Some (HaveRules rules) \<Rightarrow>
          Some (st\<lparr>ra_dnat := DNATApply (pl_iptables pl) (pl_addr_text pl) rules (ra_dnat st),
                 ra_threads := AList.delete t (ra_threads st)\<rparr>)
      | _ \<Rightarrow> None)"
| "race_step pl (ApplyDomains t) st =
     (if map_of (ra_threads st) t = Some WantDomains
      then Some (st\<lparr>ra_router := RouterApply (beside (pl_refuse pl) (fr_held (ra_fwd st))) (ra_store st) (ra_router st),
                 ra_threads := AList.delete t (ra_threads st)\<rparr>)
      else None)"

fun race_run :: "'s platform \<Rightarrow> race_event list \<Rightarrow> 's race \<Rightarrow> 's race option" where
  "race_run pl [] st = Some st"
| "race_run pl (e # es) st = (case race_step pl e st of None \<Rightarrow> None | Some st' \<Rightarrow> race_run pl es st')"

text \<open>A running process with no change under way.\<close>

definition race_start :: "'s server \<Rightarrow> 's race" where
  "race_start sv = \<lparr>ra_store = sv_store sv, ra_fwd = sv_fwd sv, ra_dnat = sv_dnat sv, ra_router = sv_router sv, ra_threads = [], ra_failed = False\<rparr>"

section \<open>The domain router converges\<close>

text \<open>The router mirrors a store: it listens on no other port than those wanted, and on a system
  that refuses nothing (\<open>full\<close>) on all of them.\<close>

definition mirrors :: "bool \<Rightarrow> store \<Rightarrow> router \<Rightarrow> bool" where
  "mirrors full s r \<longleftrightarrow> ports_live s r \<and> (full \<longrightarrow> fst ` set (ro_active r) = set (wanted_ports r s))"

lemma mirrors_cong: "synced s \<Longrightarrow> synced s' \<Longrightarrow> st_domains s' = st_domains s \<Longrightarrow> mirrors full s' r \<longleftrightarrow> mirrors full s r"
  using synced_ports [of s s' r] wanted_ports_cong [of s s' r] by (simp add: mirrors_def)

lemma RouterApply_mirrors:
  assumes "router_ok r" "synced s" "full \<Longrightarrow> willing pl"
  shows "mirrors full s (RouterApply (beside (pl_refuse pl) others) s r)"
  using RouterApply_live [OF assms(1,2)] RouterApply_serves [OF beside_willing assms(2), of pl others r] assms(3)
  by (simp add: mirrors_def)

text \<open>As long as no write failed: the store is in order, and either the router mirrors it or
  some goroutine is still to apply.\<close>

definition race_ok :: "bool \<Rightarrow> 's race \<Rightarrow> bool" where
  "race_ok full st \<longleftrightarrow> forwarder_ok (ra_fwd st) \<and> distinct (map fst (ra_threads st))
     \<and> (\<not> ra_failed st \<longrightarrow> router_ok (ra_router st) \<and> synced (ra_store st) \<and> st_on_domain (ra_store st) \<and> st_on_forward (ra_store st)
          \<and> (mirrors full (ra_store st) (ra_router st) \<or> WantDomains \<in> snd ` set (ra_threads st)))"

lemma other_thread_stays:
  assumes "distinct (map fst ths)" "(u, p) \<in> set ths" "(t, q) \<in> set ths" "p \<noteq> q"
  shows "p \<in> snd ` set (AList.delete t ths)" "p \<in> snd ` set (AList.update t q' ths)"
proof -
  have u: "map_of ths u = Some p" and "map_of ths t = Some q" using assms by simp_all
  with assms(4) have "u \<noteq> t" by auto
  with assms(2) show "p \<in> snd ` set (AList.delete t ths)" by (force simp: AList.delete_eq)
  have "map_of (AList.update t q' ths) u = Some p" using u \<open>u \<noteq> t\<close> by (simp add: update_conv')
  then show "p \<in> snd ` set (AList.update t q' ths)" by (force dest: map_of_SomeD)
qed

lemma threads_distinct:
  "distinct (map fst ths) \<Longrightarrow> distinct (map fst (AList.delete t ths))"
  "distinct (map fst ths) \<Longrightarrow> distinct (map fst (AList.update t p ths))"
  "distinct (map fst ths) \<Longrightarrow> t \<notin> fst ` set ths \<Longrightarrow> distinct (map fst (add_thread t q ths))"
  by (simp_all add: AList.delete_eq distinct_map_filter_key distinct_update add_thread_def split: option.split)

text \<open>What a step did, by the kind of its event.\<close>

lemma race_step_cases [consumes 1, case_names Commit Snapshot ApplyForwards SnapshotRules ApplyRules ApplyDomains]:
  assumes "race_step pl ev st = Some st'"
  obtains (Commit) t io op e s' ns where "run_op io op (ra_store st) = (e, s', ns)" "t \<notin> fst ` set (ra_threads st)"
      "st' = st\<lparr>ra_store := s', ra_threads := add_thread t (next_phase ns) (ra_threads st),
         ra_failed := (ra_failed st \<or> failed_write e)\<rparr>"
  | (Snapshot) t where "map_of (ra_threads st) t = Some WantForwards"
      "st' = st\<lparr>ra_threads := AList.update t (HaveForwards (st_forwards (ra_store st))) (ra_threads st)\<rparr>"
  | (ApplyForwards) t fws where "map_of (ra_threads st) t = Some (HaveForwards fws)"
      "st' = st\<lparr>ra_fwd := ForwarderApply (beside (pl_refuse pl) (ro_held (ra_router st))) (pl_resolve pl) fws (ra_fwd st),
         ra_threads := AList.delete t (ra_threads st)\<rparr>"
  | (SnapshotRules) t where "map_of (ra_threads st) t = Some WantRules"
      "st' = st\<lparr>ra_threads := AList.update t (HaveRules (st_dnat (ra_store st))) (ra_threads st)\<rparr>"
  | (ApplyRules) t rules where "map_of (ra_threads st) t = Some (HaveRules rules)"
      "st' = st\<lparr>ra_dnat := DNATApply (pl_iptables pl) (pl_addr_text pl) rules (ra_dnat st),
         ra_threads := AList.delete t (ra_threads st)\<rparr>"
  | (ApplyDomains) t where "map_of (ra_threads st) t = Some WantDomains"
      "st' = st\<lparr>ra_router := RouterApply (beside (pl_refuse pl) (fr_held (ra_fwd st))) (ra_store st) (ra_router st),
         ra_threads := AList.delete t (ra_threads st)\<rparr>"
  using assms
  by (cases "(pl, ev, st)" rule: race_step.cases) (auto split: if_splits prod.splits option.splits phase.splits)

text \<open>A committed change leaves the router mirroring the store, or a goroutine that will apply it.\<close>

lemma commit_mirrors:
  assumes "synced s" "st_on_domain s" "mirrors full s r \<or> WantDomains \<in> snd ` set ths"
    and run: "run_op io op s = (e, s', ns)" and "\<not> failed_write e"
  shows "synced s'" "mirrors full s' r \<or> WantDomains \<in> snd ` set (add_thread t (next_phase ns) ths)"
proof -
  have clean: "\<forall>x. e = Some x \<longrightarrow> \<not> write_error x" using assms(5) by (auto simp: failed_write_def)
  show sy: "synced s'" using run_op_synced [OF assms(1) run] clean compile_error_write by blast
  show "mirrors full s' r \<or> WantDomains \<in> snd ` set (add_thread t (next_phase ns) ths)" (is ?after)
  proof (cases e)
    case (Some x)
    with run clean run_op_rejected have "s' = s" "ns = []" by blast+
    with assms(3) show ?thesis by (simp add: add_thread_def)
  next
    case None
    with run_op_config [OF run] have c: "op_config op (config_of s) = Inr (config_of s')" "ns = op_fire op s'" by auto
    have same: "st_domains s' = st_domains s \<Longrightarrow> ?after"
      using assms(3) mirrors_cong [OF assms(1) sy] by (auto simp: add_thread_def split: option.split)
    have "st_on_domain s'" using run_op_listeners [OF run] assms(2) by simp
    with op_config_frame [OF c(1)] same show ?thesis
      by (elim disjE conjE) (simp_all add: c(2) fireDomain_def add_thread_def)
  qed
qed

lemma race_step_ok:
  assumes "race_step pl ev st = Some st'" and ok: "race_ok full st" and w: "full \<Longrightarrow> willing pl"
  shows "race_ok full st'"
  using assms(1)
proof (cases rule: race_step_cases)
  case (Commit t io op e s' ns)
  show ?thesis
  proof (cases "ra_failed st \<or> failed_write e")
    case True
    with ok Commit(2) show ?thesis by (auto simp: race_ok_def Commit(3) threads_distinct)
  next
    case False
    then have old: "synced (ra_store st)" "st_on_domain (ra_store st)"
        "mirrors full (ra_store st) (ra_router st) \<or> WantDomains \<in> snd ` set (ra_threads st)"
      using ok by (auto simp: race_ok_def)
    have written: "\<not> failed_write e" using False by simp
    from False ok Commit(2) commit_mirrors(1) [OF old Commit(1) written] commit_mirrors(2) [OF old Commit(1) written, of t] show ?thesis
      using run_op_listeners [OF Commit(1)]
      by (auto simp: race_ok_def Commit(3) threads_distinct)
  qed
next
  case (ApplyDomains t)
  with ok show ?thesis
    by (cases "ra_failed st") (auto simp: race_ok_def threads_distinct RouterApply_ok RouterApply_mirrors [OF _ _ w])
qed (use ok in \<open>auto simp: race_ok_def threads_distinct ForwarderApply_ok intro: other_thread_stays\<close>)

lemma race_start_ok: "server_ok sv \<Longrightarrow> mirrors full (sv_store sv) (sv_router sv) \<Longrightarrow> race_ok full (race_start sv)"
  by (simp add: race_ok_def race_start_def server_ok_def)

lemma race_run_ok: "race_run pl es st = Some st' \<Longrightarrow> race_ok full st \<Longrightarrow> (full \<Longrightarrow> willing pl) \<Longrightarrow> race_ok full st'"
  by (induction es arbitrary: st) (auto split: option.splits dest: race_step_ok)

section \<open>Each component shows one configuration\<close>

text \<open>The stores a run goes through.\<close>

fun race_stores :: "'s platform \<Rightarrow> race_event list \<Rightarrow> 's race \<Rightarrow> store list" where
  "race_stores pl [] st = [ra_store st]"
| "race_stores pl (e # es) st = ra_store st # (case race_step pl e st of None \<Rightarrow> [] | Some st' \<Rightarrow> race_stores pl es st')"

text \<open>A list on its way to a component is one the store had, and what a component shows is one
  such list, whole.\<close>

fun phase_from :: "store set \<Rightarrow> phase \<Rightarrow> bool" where
  "phase_from S (HaveForwards fws) \<longleftrightarrow> (\<exists>s\<in>S. fws = st_forwards s)"
| "phase_from S (HaveRules rules) \<longleftrightarrow> (\<exists>s\<in>S. rules = st_dnat s)"
| "phase_from S p \<longleftrightarrow> True"

definition threads_from :: "store set \<Rightarrow> (nat \<times> phase) list \<Rightarrow> bool" where
  "threads_from S ths \<longleftrightarrow> (\<forall>e\<in>set ths. phase_from S (snd e))"

definition shows_one ::
  "(nat_rule \<Rightarrow> bool) \<Rightarrow> ('s \<Rightarrow> nat_table) \<Rightarrow> nat_table \<Rightarrow> nat_rule list \<Rightarrow> nat_rule list \<Rightarrow> store set \<Rightarrow> 's race \<Rightarrow> bool" where
  "shows_one accepts view t pre post S st \<longleftrightarrow> threads_from S (ra_threads st)
     \<and> ra_store st \<in> S \<and> (\<forall>s\<in>S. config_ok (config_of s)) \<and> forwarder_ok (ra_fwd st) \<and> listeners_ok (ra_fwd st)
     \<and> (\<exists>s\<in>S. forwards_live (st_forwards s) (ra_fwd st))
     \<and> (\<exists>s\<in>S. view (dg_kernel (ra_dnat st)) = built accepts t (st_dnat s) pre post)"

lemma phase_from_mono: "phase_from S p \<Longrightarrow> S \<subseteq> S' \<Longrightarrow> phase_from S' p"
  by (cases p) auto

lemma next_phase_from: "next_phase ns = Some p \<Longrightarrow> phase_from S p"
  by (induction ns rule: next_phase.induct) auto

lemma threads_from_intros:
  "threads_from S ths \<Longrightarrow> S \<subseteq> S' \<Longrightarrow> threads_from S' ths"
  "threads_from S ths \<Longrightarrow> phase_from S p \<Longrightarrow> threads_from S (AList.update t p ths)"
  "threads_from S ths \<Longrightarrow> threads_from S (AList.delete t ths)"
  "threads_from S ths \<Longrightarrow> threads_from S (add_thread t (next_phase ns) ths)"
  using phase_from_mono next_phase_from [of ns _ S] set_update_subset [of t p ths]
  by (auto simp: threads_from_def AList.delete_eq add_thread_def split: option.splits)

lemma map_of_phase: "map_of ths t = Some p \<Longrightarrow> threads_from S ths \<Longrightarrow> phase_from S p"
  by (auto simp: threads_from_def dest!: map_of_SomeD)

lemma race_step_shows_one:
  assumes "race_step pl ev st = Some st'" and one: "shows_one accepts view t pre post S st"
    and sp: "iptables_spec (pl_iptables pl) view" and re: "reliable accepts (pl_iptables pl) view"
  shows "shows_one accepts view t pre post (insert (ra_store st') S) st'"
  using assms(1)
proof (cases rule: race_step_cases)
  case (Commit u io op e s' ns)
  have "config_ok (config_of s')" using run_op_config_ok [OF _ Commit(1)] one by (simp add: shows_one_def)
  moreover have "threads_from (insert s' S) (ra_threads st)"
    using one threads_from_intros(1) [of S "ra_threads st" "insert s' S"] by (auto simp: shows_one_def)
  then have "threads_from (insert s' S) (add_thread u (next_phase ns) (ra_threads st))" by (rule threads_from_intros(4))
  ultimately show ?thesis using one by (simp add: shows_one_def Commit(3))
next
  case (Snapshot u)
  have "phase_from S (HaveForwards (st_forwards (ra_store st)))" using one by (auto simp: shows_one_def)
  from threads_from_intros(2) [OF _ this] one show ?thesis by (auto simp: shows_one_def insert_absorb Snapshot(2))
next
  case (ApplyForwards u fws)
  from map_of_phase [OF ApplyForwards(1), of S] one obtain s where s: "s \<in> S" "fws = st_forwards s" by (auto simp: shows_one_def)
  with one config_names [of s] have "distinct (map fw_name fws)" by (simp add: shows_one_def)
  with one s show ?thesis
    using ForwarderApply_live [of "ra_fwd st" fws]
    by (auto simp: shows_one_def ApplyForwards(2) insert_absorb ForwarderApply_ok ForwarderApply_listeners_ok
        intro: threads_from_intros(3))
next
  case (SnapshotRules u)
  have "phase_from S (HaveRules (st_dnat (ra_store st)))" using one by (auto simp: shows_one_def)
  from threads_from_intros(2) [OF _ this] one show ?thesis by (auto simp: shows_one_def insert_absorb SnapshotRules(2))
next
  case (ApplyRules u rules)
  from map_of_phase [OF ApplyRules(1), of S] one obtain s where s: "s \<in> S" "rules = st_dnat s" by (auto simp: shows_one_def)
  with one config_targets_split [of s] have ts: "targets_split rules" by (simp add: shows_one_def)
  from one have "\<exists>s0\<in>S. view (dg_kernel (ra_dnat st)) = built accepts t (st_dnat s0) pre post" by (simp add: shows_one_def)
  then obtain s0 where "s0 \<in> S" "view (dg_kernel (ra_dnat st)) = built accepts t (st_dnat s0) pre post" ..
  with DNATApply_exact_again [OF sp re ts] s(2) have
      "view (dg_kernel (DNATApply (pl_iptables pl) (pl_addr_text pl) rules (ra_dnat st))) = built accepts t (st_dnat s) pre post" by blast
  with one s(1) show ?thesis
    by (auto simp: shows_one_def ApplyRules(2) insert_absorb intro: threads_from_intros(3))
qed (use one in \<open>auto simp: shows_one_def insert_absorb intro: threads_from_intros(3)\<close>)

lemma race_run_shows_one:
  assumes "race_run pl es st = Some st'" "shows_one accepts view t pre post S st"
    and "iptables_spec (pl_iptables pl) view" "reliable accepts (pl_iptables pl) view"
  shows "shows_one accepts view t pre post (S \<union> set (race_stores pl es st)) st'"
  using assms(1,2)
proof (induction es arbitrary: st S)
  case Nil
  then show ?case by (auto simp: shows_one_def insert_absorb)
next
  case (Cons e es)
  then obtain st1 where st1: "race_step pl e st = Some st1" "race_run pl es st1 = Some st'" by (auto split: option.splits)
  have "ra_store st1 \<in> set (race_stores pl es st1)" by (cases es) simp_all
  moreover have "ra_store st \<in> S" using Cons.prems(2) by (simp add: shows_one_def)
  ultimately have "insert (ra_store st1) S \<union> set (race_stores pl es st1) = S \<union> set (race_stores pl (e # es) st)"
    using st1(1) by auto
  with Cons.IH [OF st1(2) race_step_shows_one [OF st1(1) Cons.prems(2) assms(3,4)]] show ?case by simp
qed

lemma race_start_shows_one:
  assumes "server_ok sv" "live view' sv" "kernel_exact accepts view t pre post sv"
  shows "shows_one accepts view t pre post {sv_store sv} (race_start sv)"
  using assms by (simp add: shows_one_def threads_from_def race_start_def server_ok_def live_def kernel_exact_def)

lemmas [model_eval] = add_thread_def failed_write_def

end
