(* ===== verification/ProcessProps.thy ===== *)
theory ProcessProps
  imports Race Examples
begin

text \<open>
  The properties of the running process: that its listeners, statuses and kernel rules
  follow the configuration from the start through every accepted change, what the kernel's
  nat table looks like and what of it is left alone, that a shutdown gives everything back,
  and what concurrent changes can and cannot upset. They rest on \<open>Server\<close>, \<open>Dnat\<close> and
  \<open>Race\<close>.
\<close>

section \<open>A process\<close>

text \<open>A platform that refuses nothing, and the process started on it from the file that holds
  \<open>demo_config\<close>.\<close>

definition demo_pl :: "nat_table platform" where
  "demo_pl = \<lparr>pl_refuse = \<lambda>_ _. None, pl_resolve = \<lambda>_. None, pl_iptables = ipt_ref, pl_addr_text = \<lambda>_. ''bad address'',
     pl_err_text = \<lambda>_. ''refused'',
     pl_json_text = \<lambda>_. ''bad JSON'', pl_nil_routes = \<lambda>_. False, pl_nil_forwards = \<lambda>_. False\<rparr>"

definition demo_env :: "string \<Rightarrow> string" where
  "demo_env k = (if k = ''ADMIN_PASSWORD'' then ''secret'' else [])"

lemma demo_pl_spec: "iptables_spec (pl_iptables demo_pl) (\<lambda>t. t)"
  by (simp add: demo_pl_def ipt_ref_spec)

lemma demo_auth: "\<exists>a. NewAuth ''secret'' ''10.8.0.0/24,127.0.0.1/32,::1/128'' = Inr a"
  by (simp add: model_eval go_eval Let_def)

lemma demo_boot:
  "\<exists>sv. boot demo_pl demo_env None IoOk (demo_file demo_config) True fresh_table = Inr sv
    \<and> config_of (sv_store sv) = demo_config"
proof -
  have "config_of demo_store = demo_config" by (simp add: config_of_def demo_states blank_store_def)
  with reload_synced [OF demo_synced, of IoOk "\<lambda>_. False" "\<lambda>_. False" "[]"] demo_text_safe(1) obtain s where
      s: "NewStore None IoOk (demo_file demo_config) [] = Inr s" "config_of s = demo_config" by (auto simp: demo_file_def)
  obtain a where a: "NewAuth ''secret'' ''10.8.0.0/24,127.0.0.1/32,::1/128'' = Inr a" using demo_auth by blast
  have "\<exists>sv. boot demo_pl demo_env None IoOk (demo_file demo_config) True fresh_table = Inr sv"
    by (simp add: boot_defs demo_env_def env_def s a Let_def)
  then obtain sv where sv: "boot demo_pl demo_env None IoOk (demo_file demo_config) True fresh_table = Inr sv" ..
  from boot_store [OF sv] s have "config_of (sv_store sv) = demo_config" by (auto simp: demo_env_def env_def)
  with sv show ?thesis by blast
qed

lemma demo_config_ok: "config_ok demo_config"
  using demo_ok by (simp add: config_of_def demo_states blank_store_def)

lemma demo_config_fields: "config_of s = demo_config \<Longrightarrow>
    st_forwards s = [demo_forward] \<and> st_dnat s = [demo_rule] \<and> st_domains s = [demo_domain] \<and> st_sites s = [demo_site]"
  by (simp add: config_of_def demo_config_def)

lemma demo_delete: "st_forwards s = [demo_forward] \<Longrightarrow>
    \<exists>s' ns. run_op IoOk (OpDeleteForward ''ssh'') s = (None, s', ns) \<and> st_forwards s' = []"
  by (simp add: op_defs model_eval demo_forward_def)

section \<open>The process follows the configuration\<close>

lemma demo_servers: "\<exists>sv1. start_servers demo_pl demo_env sv = Inr sv1 \<and> sv_store sv1 = sv_store sv \<and> sv_dnat sv1 = sv_dnat sv
    \<and> sv_fwd sv1 = sv_fwd sv \<and> sv_router sv1 = sv_router sv"
  by (simp add: start_servers_def listen_main_def run_server_def net_listen_def beside_def demo_pl_def env_def demo_env_def)

text \<open>C1: from the start on, after every change that did not fail at the file or at a proxy,
  the forwarder runs only configured, enabled forwards with the settings configured and holds
  exactly the sockets they ask for, each forward's status says whether it runs, each DNAT rule
  reported active is in the kernel, and the domain router listens only on ports of enabled domain
  forwards; and the configuration stays well-formed and the tables in step with it.\<close>

theorem process_mirrors_configuration:
  assumes "boot pl getenv mk io doc tls krn = Inr sv0" "config_ok (config_of (sv_store sv0))"
    and "start_servers pl getenv sv0 = Inr sv1" "iptables_spec (pl_iptables pl) view" "server_run pl sv1 sv"
  shows "forwards_live (st_forwards (sv_store sv)) (sv_fwd sv) \<and> rules_live view (st_dnat (sv_store sv)) (sv_dnat sv)
    \<and> ports_live (sv_store sv) (sv_router sv) \<and> config_ok (config_of (sv_store sv)) \<and> synced (sv_store sv)"
proof -
  have "server_ok sv1 \<and> live view sv1" by (rule start_servers_live [OF assms(3) boot_live [OF assms(1,2,4)]])
  with server_run_live [OF assms(5) _ _ assms(4)] show ?thesis by (simp add: live_def server_ok_def)
qed

theorem process_mirrors_configuration_witness:
  "\<exists>sv0 sv1 sv. boot demo_pl demo_env None IoOk (demo_file demo_config) True fresh_table = Inr sv0
    \<and> start_servers demo_pl demo_env sv0 = Inr sv1
    \<and> exec_op demo_pl IoOk (OpDeleteForward ''ssh'') sv1 = (None, sv) \<and> fr_active (sv_fwd sv) = [] \<and> fr_held (sv_fwd sv) = []"
proof -
  obtain sv0 where b: "boot demo_pl demo_env None IoOk (demo_file demo_config) True fresh_table = Inr sv0"
      "config_of (sv_store sv0) = demo_config" using demo_boot by blast
  obtain sv1 where sv1: "start_servers demo_pl demo_env sv0 = Inr sv1" "sv_store sv1 = sv_store sv0" using demo_servers by blast
  from demo_delete [of "sv_store sv1"] demo_config_fields [OF b(2)] sv1(2) obtain s' ns where
      d: "run_op IoOk (OpDeleteForward ''ssh'') (sv_store sv1) = (None, s', ns)" "st_forwards s' = []" by auto
  obtain sv where x: "exec_op demo_pl IoOk (OpDeleteForward ''ssh'') sv1 = (None, sv)" "sv_store sv = s'"
    using d by (simp add: exec_op_def)
  have "server_run demo_pl sv1 sv" by (rule run_op [OF run_start x(1)]) simp
  from process_mirrors_configuration [OF b(1) _ sv1(1) demo_pl_spec this] b(2) demo_config_ok x(2) d(2)
  have "forwards_live [] (sv_fwd sv)" by simp
  then have "fr_active (sv_fwd sv) = []" "fr_held (sv_fwd sv) = []"
    by (cases "fr_active (sv_fwd sv)"; auto simp: forwards_live_def)+
  with b(1) sv1(1) x(1) show ?thesis by blast
qed

text \<open>C35: on a system that refuses no socket and resolves every address, from the start with a
  well-formed configuration on, after changes one at a time of which none failed at the file or at a
  proxy, all enabled forwards run and are reported without an error, and the domain router listens on
  all the ports of enabled domain forwards other than the two main ports. (A failed write keeps a
  new forward in memory without starting it.)\<close>

theorem everything_enabled_runs:
  assumes "boot pl getenv mk io doc tls krn = Inr sv0" "config_ok (config_of (sv_store sv0))"
    and "start_servers pl getenv sv0 = Inr sv1" "iptables_spec (pl_iptables pl) view" "server_run pl sv1 sv"
    and "\<forall>held sk. pl_refuse pl held sk = None" "\<forall>a. pl_resolve pl a = None"
  shows "(\<forall>w\<in>set (st_forwards (sv_store sv)). fw_enabled w \<longrightarrow>
       fw_name w \<in> fst ` set (fr_active (sv_fwd sv)) \<and> map_of (fr_status (sv_fwd sv)) (fw_name w) = Some [])
    \<and> fst ` set (ro_active (sv_router sv)) =
        {p \<in> set (DomainPorts (sv_store sv)). p \<noteq> ro_main (sv_router sv) \<and> p \<noteq> ro_http (sv_router sv)}"
proof -
  have w: "willing pl" using assms(6,7) by (simp add: willing_def)
  have ok: "server_ok sv1" "live view sv1" using start_servers_live [OF assms(3) boot_live [OF assms(1,2,4)]] by simp_all
  obtain own where "sv1 = sv0\<lparr>sv_own := own\<rparr>" using start_servers_own [OF assms(3)] by blast
  with boot_served [OF assms(1) w] have "all_served sv1" by (simp add: all_served_def)
  from server_run_served [OF assms(5) w ok assms(4) this] have served: "all_served sv" .
  have "forwards_live (st_forwards (sv_store sv)) (sv_fwd sv)"
    using server_run_live [OF assms(5) ok assms(4)] by (simp add: live_def)
  note status = this [unfolded forwards_live_def, THEN conjunct2, THEN conjunct1, rule_format]
  have "map_of (fr_status (sv_fwd sv)) (fw_name w) = Some []"
    if "w \<in> set (st_forwards (sv_store sv))" "fw_enabled w" "fw_name w \<in> fst ` set (fr_active (sv_fwd sv))" for w
    using status [OF that(1)] that(2,3) by (cases "map_of (fr_status (sv_fwd sv)) (fw_name w)") simp_all
  moreover have "set (wanted_ports (sv_router sv) (sv_store sv)) =
      {p \<in> set (DomainPorts (sv_store sv)). p \<noteq> ro_main (sv_router sv) \<and> p \<noteq> ro_http (sv_router sv)}"
    by (auto simp: wanted_ports_def)
  ultimately show ?thesis using served by (simp add: all_served_def)
qed

theorem everything_enabled_runs_witness:
  "\<exists>sv sv1. boot demo_pl demo_env None IoOk (demo_file demo_config) True fresh_table = Inr sv
    \<and> start_servers demo_pl demo_env sv = Inr sv1 \<and> ''ssh'' \<in> fst ` set (fr_active (sv_fwd sv1))"
proof -
  obtain sv where b: "boot demo_pl demo_env None IoOk (demo_file demo_config) True fresh_table = Inr sv"
      "config_of (sv_store sv) = demo_config" using demo_boot by blast
  obtain sv1 where sv1: "start_servers demo_pl demo_env sv = Inr sv1" "sv_store sv1 = sv_store sv" using demo_servers by blast
  have "fw_enabled demo_forward" "fw_name demo_forward = ''ssh''" by (simp_all add: demo_forward_def)
  with everything_enabled_runs [OF b(1) _ sv1(1) demo_pl_spec run_start] b(2) demo_config_ok sv1(2) demo_config_fields [OF b(2)]
  have "''ssh'' \<in> fst ` set (fr_active (sv_fwd sv1))" by (simp add: demo_pl_def)
  with b(1) sv1(1) show ?thesis by blast
qed

lemma run_kernel_exact:
  assumes b: "boot pl getenv mk io doc tls krn = Inr sv0" "config_ok (config_of (sv_store sv0))"
    and sp: "iptables_spec (pl_iptables pl) view" and re: "reliable accepts (pl_iptables pl) view"
    and hooks: "view krn ''PREROUTING'' = Some pre" "view krn ''POSTROUTING'' = Some post"
    and start: "start_servers pl getenv sv0 = Inr sv1" and run: "server_run pl sv1 sv"
  shows "kernel_exact accepts view (view krn) pre post sv"
proof (rule server_run_kernel [OF run _ _ sp re])
  show "server_ok sv1" "live view sv1" using start_servers_live [OF start boot_live [OF b sp]] by simp_all
  have "kernel_exact accepts view (view krn) pre post sv0" by (rule boot_kernel) (fact b sp re hooks)+
  with start_servers_own [OF start] show "kernel_exact accepts view (view krn) pre post sv1" by (auto simp: kernel_exact_def)
qed

text \<open>C8: when \<open>iptables\<close> fails only on rules the kernel does not take (\<open>reliable\<close>), the two
  built-in chains were there, the loaded configuration is well-formed and the changes came one at a
  time with none failing at the file or at a proxy, then the kernel's nat table is after each of them
  the one found at the start, with the program's DNAT chain holding exactly those enabled rules that
  the kernel takes, in order, its masquerading chain those that ask for it, and each hook present
  once if it was not there before: nothing of deleted or disabled rules is left, and nothing else
  has changed.\<close>

theorem kernel_table_exact:
  assumes "boot pl getenv mk io doc tls krn = Inr sv0" "config_ok (config_of (sv_store sv0))"
    and "iptables_spec (pl_iptables pl) view" "reliable accepts (pl_iptables pl) view"
    and "view krn ''PREROUTING'' = Some pre" "view krn ''POSTROUTING'' = Some post"
    and "start_servers pl getenv sv0 = Inr sv1" "server_run pl sv1 sv"
  shows "view (dg_kernel (sv_dnat sv)) = (view krn)
    (dnatChain \<mapsto> filter accepts (map dnat_args (filter dn_enabled (st_dnat (sv_store sv)))),
     postChain \<mapsto> masq_rules accepts (st_dnat (sv_store sv)),
     ''PREROUTING'' \<mapsto> (if [''-j'', dnatChain] \<in> set pre then pre else [''-j'', dnatChain] # pre),
     ''POSTROUTING'' \<mapsto> (if [''-j'', postChain] \<in> set post then post else post @ [[''-j'', postChain]]))"
  using run_kernel_exact [OF assms] by (simp add: kernel_exact_def built_def dnat_rules_def with_jump_def add_jump_def)

lemma fresh_table_hooks: "fresh_table ''PREROUTING'' = Some []" "fresh_table ''POSTROUTING'' = Some [[''-j'', ''DOCKER'']]"
  by (simp_all add: fresh_table_def)

theorem kernel_table_exact_witness:
  "\<exists>sv sv1. boot demo_pl demo_env None IoOk (demo_file demo_config) True fresh_table = Inr sv
    \<and> start_servers demo_pl demo_env sv = Inr sv1 \<and> dg_kernel (sv_dnat sv1) dnatChain = Some [dnat_args demo_rule]
    \<and> dg_kernel (sv_dnat sv1) ''POSTROUTING'' = Some [[''-j'', ''DOCKER''], [''-j'', postChain]]"
proof -
  obtain sv where b: "boot demo_pl demo_env None IoOk (demo_file demo_config) True fresh_table = Inr sv"
      "config_of (sv_store sv) = demo_config" using demo_boot by blast
  obtain sv1 where sv1: "start_servers demo_pl demo_env sv = Inr sv1" "sv_store sv1 = sv_store sv" using demo_servers by blast
  have re: "reliable (\<lambda>_. True) (pl_iptables demo_pl) (\<lambda>t. t)" by (simp add: demo_pl_def ipt_ref_spec)
  have en: "dn_enabled demo_rule" by (simp add: demo_rule_def)
  have "dg_kernel (sv_dnat sv1) dnatChain = Some (map dnat_args (filter dn_enabled (st_dnat (sv_store sv1))))
    \<and> dg_kernel (sv_dnat sv1) ''POSTROUTING'' = Some [[''-j'', ''DOCKER''], [''-j'', postChain]]"
    using kernel_table_exact [where view = "\<lambda>t. t", OF b(1) _ demo_pl_spec re fresh_table_hooks sv1(1) run_start] b(2) demo_config_ok
    by (simp add: postChain_def dnatChain_def)
  with b(1) en demo_config_fields [OF b(2)] sv1 show ?thesis by auto
qed

text \<open>C29: whatever iptables refuses, an \<open>Apply\<close> changes nothing in the kernel but the
  program's two chains and, in the two built-in chains, its hook in front of the rest or behind
  it; a shutdown changes the program's two chains only.\<close>

theorem foreign_rules_untouched:
  fixes m :: "'s dnat_manager"
  assumes "iptables_spec ipt view"
  defines "t \<equiv> view (dg_kernel m)"
  shows "(\<forall>c. c \<notin> {dnatChain, postChain, ''PREROUTING'', ''POSTROUTING''} \<longrightarrow>
       view (dg_kernel (DNATApply ipt tx rules m)) c = t c)
    \<and> (view (dg_kernel (DNATApply ipt tx rules m)) ''PREROUTING'' = t ''PREROUTING''
       \<or> (\<exists>rs. t ''PREROUTING'' = Some rs
            \<and> view (dg_kernel (DNATApply ipt tx rules m)) ''PREROUTING'' = Some ([''-j'', dnatChain] # rs)))
    \<and> (view (dg_kernel (DNATApply ipt tx rules m)) ''POSTROUTING'' = t ''POSTROUTING''
       \<or> (\<exists>rs. t ''POSTROUTING'' = Some rs
            \<and> view (dg_kernel (DNATApply ipt tx rules m)) ''POSTROUTING'' = Some (rs @ [[''-j'', postChain]])))
    \<and> (\<forall>c. c \<notin> {dnatChain, postChain} \<longrightarrow> view (dg_kernel (DNATShutdown ipt m)) c = t c)"
proof -
  have "own_only t (view (dg_kernel (DNATShutdown ipt m)))"
    using own_only_trans [OF own_cmd [OF assms(1), of dnatChain "dg_kernel m" "''-F''" "[]"]
        own_cmd [OF assms(1), of postChain _ "''-F''" "[]"]] by (simp add: DNATShutdown_def Let_def t_def)
  with DNATApply_hooks [OF assms(1), of m tx rules] show ?thesis by (simp add: hooked_def own_only_def t_def)
qed

theorem foreign_rules_untouched_witness:
  "dg_kernel (DNATShutdown ipt_locked \<lparr>dg_kernel = fresh_table, dg_status = [], dg_last = []\<rparr>) ''POSTROUTING''
    = Some [[''-j'', ''DOCKER'']]"
  using foreign_rules_untouched [OF ipt_locked_spec, where m = "\<lparr>dg_kernel = fresh_table, dg_status = [], dg_last = []\<rparr>"]
    fresh_table_hooks by simp

text \<open>C30: a shutdown closes every listening socket of the forwarder, of the domain router and of the
  program's own servers, and when iptables fails only on rules the kernel does not take, it takes every
  rule out of the program's chains; only the two empty chains and their hooks stay behind.\<close>

theorem shutdown_gives_back:
  assumes "boot pl getenv mk io doc tls krn = Inr sv0" "config_ok (config_of (sv_store sv0))"
    and "iptables_spec (pl_iptables pl) view" "reliable accepts (pl_iptables pl) view"
    and "view krn ''PREROUTING'' = Some pre" "view krn ''POSTROUTING'' = Some post"
    and "start_servers pl getenv sv0 = Inr sv1" "server_run pl sv1 sv"
  shows "fr_held (sv_fwd (shut_down pl sv)) = [] \<and> fr_active (sv_fwd (shut_down pl sv)) = []
    \<and> ro_held (sv_router (shut_down pl sv)) = [] \<and> ro_active (sv_router (shut_down pl sv)) = [] \<and> sv_own (shut_down pl sv) = []
    \<and> view (dg_kernel (sv_dnat (shut_down pl sv))) = (view krn)(dnatChain \<mapsto> [], postChain \<mapsto> [],
        ''PREROUTING'' \<mapsto> (if [''-j'', dnatChain] \<in> set pre then pre else [''-j'', dnatChain] # pre),
        ''POSTROUTING'' \<mapsto> (if [''-j'', postChain] \<in> set post then post else post @ [[''-j'', postChain]]))"
proof -
  have "server_ok sv"
    using server_run_live [OF assms(8) _ _ assms(3)] start_servers_live [OF assms(7) boot_live [OF assms(1-3)]] by blast
  have k: "view (dg_kernel (sv_dnat sv)) = built accepts (view krn) (st_dnat (sv_store sv)) pre post"
    using run_kernel_exact [OF assms] by (simp add: kernel_exact_def)
  have "view (dg_kernel (sv_dnat (shut_down pl sv))) = (view (dg_kernel (sv_dnat sv)))(dnatChain \<mapsto> [], postChain \<mapsto> [])"
    unfolding shut_down_def using DNATShutdown_reliable [OF assms(3,4), of "sv_dnat sv"] k by (simp add: built_def)
  moreover have "(built accepts t rules pre post)(dnatChain \<mapsto> [], postChain \<mapsto> []) = t(dnatChain \<mapsto> [], postChain \<mapsto> [],
      ''PREROUTING'' \<mapsto> with_jump ''-I'' dnatChain pre, ''POSTROUTING'' \<mapsto> with_jump ''-A'' postChain post)" for t rules
    by (auto simp: built_def fun_eq_iff)
  ultimately show ?thesis
    using shut_down_closes [OF \<open>server_ok sv\<close>, of pl] k by (simp add: with_jump_def add_jump_def)
qed

theorem shutdown_gives_back_witness:
  "\<exists>sv sv1. boot demo_pl demo_env None IoOk (demo_file demo_config) True fresh_table = Inr sv
    \<and> start_servers demo_pl demo_env sv = Inr sv1
    \<and> fr_held (sv_fwd (shut_down demo_pl sv1)) = [] \<and> dg_kernel (sv_dnat (shut_down demo_pl sv1)) dnatChain = Some []"
proof -
  obtain sv where b: "boot demo_pl demo_env None IoOk (demo_file demo_config) True fresh_table = Inr sv"
      "config_of (sv_store sv) = demo_config" using demo_boot by blast
  obtain sv1 where sv1: "start_servers demo_pl demo_env sv = Inr sv1" "sv_store sv1 = sv_store sv" using demo_servers by blast
  have re: "reliable (\<lambda>_. True) (pl_iptables demo_pl) (\<lambda>t. t)" by (simp add: demo_pl_def ipt_ref_spec)
  from shutdown_gives_back [where view = "\<lambda>t. t", OF b(1) _ demo_pl_spec re fresh_table_hooks sv1(1) run_start] b(2) demo_config_ok
  have "fr_held (sv_fwd (shut_down demo_pl sv1)) = []" "dg_kernel (sv_dnat (shut_down demo_pl sv1)) dnatChain = Some []"
    by simp_all
  with b(1) sv1(1) show ?thesis by blast
qed

text \<open>The forwards are brought up before the program opens its own main port, and nothing
  in the validation keeps a forward off that port: when the file holds an enabled TCP forward
  whose listen address is the main port's, it takes the address and the program cannot start.\<close>

theorem forward_on_main_port_blocks_start:
  assumes "boot pl getenv mk io doc tls krn = Inr sv" "config_ok (config_of (sv_store sv))"
    and "iptables_spec (pl_iptables pl) view" "\<forall>held sk. sk \<in> set held \<longrightarrow> pl_refuse pl held sk \<noteq> None"
    and "w \<in> set (st_forwards (sv_store sv))" "fw_name w \<in> fst ` set (fr_active (sv_fwd sv))" "fw_proto w \<noteq> ''udp''"
    and "fw_listen w = env getenv ''PROXY_ADDR'' '':443''"
  shows "\<exists>e. start_servers pl getenv sv = Inl (ListenFailed e)"
proof -
  have "forwards_live (st_forwards (sv_store sv)) (sv_fwd sv)" using boot_live [OF assms(1-3)] by (simp add: live_def)
  from live_forward_socket [OF this assms(5-7)] assms(8)
  have "(''tcp'', env getenv ''PROXY_ADDR'' '':443'') \<in> set (fr_held (sv_fwd sv))" by simp
  from listen_main_taken [OF assms(4) this] show ?thesis by (auto simp: start_servers_def)
qed

definition demo_strict :: "nat_table platform" where
  "demo_strict = demo_pl\<lparr>pl_refuse := \<lambda>held sk. if sk \<in> set held then Some ''address already in use'' else None\<rparr>"

definition demo_taker :: forward where
  "demo_taker = demo_forward\<lparr>fw_listen := '':443''\<rparr>"

lemma demo_taker_valid: "validateForward demo_taker = Inr demo_taker"
  by (simp add: demo_taker_def demo_forward_def model_eval go_eval Let_def)

lemma demo_strict_boot:
  "\<exists>sv. boot demo_strict demo_env None IoOk (demo_file (empty_config\<lparr>cf_forwards := [demo_taker]\<rparr>)) True fresh_table = Inr sv
    \<and> config_of (sv_store sv) = empty_config\<lparr>cf_forwards := [demo_taker]\<rparr> \<and> fst ` set (fr_active (sv_fwd sv)) = {''ssh''}"
proof -
  obtain a where a: "NewAuth ''secret'' ''10.8.0.0/24,127.0.0.1/32,::1/128'' = Inr a" using demo_auth by blast
  let ?c = "empty_config\<lparr>cf_forwards := [demo_taker]\<rparr>"
  have s: "NewStore None IoOk (demo_file ?c) [] = Inr (with_config ?c blank_store)"
  proof -
    have "text_safe ?c"
      by (simp add: text_safe_def config_int64_def config_utf8_def ascii_valid empty_config_def demo_taker_def demo_forward_def)
    then show ?thesis unfolding demo_file_def
      by (simp only: NewStore_text_safe) (simp add: empty_config_def model_eval Let_def)
  qed
  show ?thesis
    by (simp add: boot_defs demo_env_def env_def s a Let_def)
      (simp add: demo_strict_def demo_pl_def demo_taker_def demo_forward_def empty_config_def with_config_def
        config_of_def SetForwardListener_def SetDNATListener_def SetDomainListener_def model_eval)
qed

theorem forward_on_main_port_blocks_start_witness:
  "validateForward demo_taker = Inr demo_taker
    \<and> (\<exists>sv e. boot demo_strict demo_env None IoOk (demo_file (empty_config\<lparr>cf_forwards := [demo_taker]\<rparr>)) True fresh_table = Inr sv
        \<and> start_servers demo_strict demo_env sv = Inl (ListenFailed e))"
proof -
  obtain sv where b: "boot demo_strict demo_env None IoOk (demo_file (empty_config\<lparr>cf_forwards := [demo_taker]\<rparr>)) True fresh_table = Inr sv"
      "config_of (sv_store sv) = empty_config\<lparr>cf_forwards := [demo_taker]\<rparr>" "fst ` set (fr_active (sv_fwd sv)) = {''ssh''}"
    using demo_strict_boot by blast
  have sp: "iptables_spec (pl_iptables demo_strict) (\<lambda>t. t)" using demo_pl_spec by (simp add: demo_strict_def)
  have strict: "\<forall>held sk. sk \<in> set held \<longrightarrow> pl_refuse demo_strict held sk \<noteq> None" by (simp add: demo_strict_def)
  have fws: "st_forwards (sv_store sv) = [demo_taker]" using b(2) by (simp add: config_of_def empty_config_def)
  have ok: "config_ok (config_of (sv_store sv))"
    using validateForward_wf [OF demo_taker_valid] unfolding b(2) by (simp add: config_ok_def empty_config_def unique_keys_def)
  have w: "fw_name demo_taker = ''ssh''" "fw_proto demo_taker \<noteq> ''udp''" "fw_listen demo_taker = env demo_env ''PROXY_ADDR'' '':443''"
    by (simp_all add: demo_taker_def demo_forward_def env_def demo_env_def)
  from forward_on_main_port_blocks_start [OF b(1) ok sp strict, of demo_taker] fws b(3) w
  have "\<exists>e. start_servers demo_strict demo_env sv = Inl (ListenFailed e)" by simp
  with b(1) demo_taker_valid show ?thesis by blast
qed

section \<open>Concurrent changes\<close>

text \<open>C26: however the goroutines of concurrent changes interleave, as long as no change failed at
  the file or at a proxy the domain router ends up in step: from a start with a well-formed
  configuration on, when no change is under way any more it listens only on ports the stored
  configuration has enabled forwards on, and holds no other socket; on a system that refuses no
  socket it listens on all of them but the two main ports.\<close>

theorem domain_router_converges:
  assumes "boot pl getenv mk io doc tls krn = Inr sv" "config_ok (config_of (sv_store sv))" "iptables_spec (pl_iptables pl) view"
    and "race_run pl es (race_start sv) = Some st" "\<not> ra_failed st" "ra_threads st = []"
  shows "set (map fst (ro_active (ra_router st))) \<subseteq> set (wanted_ports (ra_router st) (ra_store st))
    \<and> mset (ro_held (ra_router st)) = mset (map (port_socket \<circ> fst) (ro_active (ra_router st)))
    \<and> ((\<forall>held sk. pl_refuse pl held sk = None) \<and> (\<forall>a. pl_resolve pl a = None) \<longrightarrow>
         set (map fst (ro_active (ra_router st))) =
           {p \<in> set (DomainPorts (ra_store st)). p \<noteq> ro_main (ra_router st) \<and> p \<noteq> ro_http (ra_router st)})"
proof -
  have ok: "server_ok sv" "ports_live (sv_store sv) (sv_router sv)"
    using boot_live [OF assms(1-3)] by (simp_all add: live_def)
  have "willing pl \<Longrightarrow> all_served sv" by (rule boot_served [OF assms(1)])
  with ok have "mirrors (willing pl) (sv_store sv) (sv_router sv)" by (simp add: mirrors_def all_served_def)
  from race_run_ok [OF assms(4) race_start_ok [OF ok(1) this]] have "race_ok (willing pl) st" by blast
  with assms(5,6) have "mirrors (willing pl) (ra_store st) (ra_router st)" by (simp add: race_ok_def)
  then show ?thesis by (auto simp: mirrors_def ports_live_def willing_def wanted_ports_def)
qed

text \<open>The process before and after a forward comes and goes.\<close>

definition demo_race :: "nat_table race" where
  "demo_race = \<lparr>ra_store = demo_s2, ra_fwd = NewForwarder [], ra_dnat = NewDNATManager fresh_table, ra_router = NewDomainRouter True 443 80 [],
     ra_threads = [], ra_failed = False\<rparr>"

definition demo_gone :: store where
  "demo_gone = demo_s3\<lparr>st_forwards := [], st_file := Some (demo_config\<lparr>cf_forwards := [], cf_dnat := []\<rparr>)\<rparr>"

lemma demo_deleted: "run_op IoOk (OpDeleteForward ''ssh'') demo_s3 = (None, demo_gone, [NotifyForwards []])"
  by (simp add: op_defs) (simp add: demo_gone_def demo_forward_def demo_states blank_store_def model_eval Let_def)

lemma demo_start_ssh:
  "ForwarderApply (beside (pl_refuse demo_pl) held) (pl_resolve demo_pl) [demo_forward] (NewForwarder []) =
     \<lparr>fr_active = [(''ssh'', \<lparr>fl_fwd = demo_forward, fl_ln = True, fl_pc = False\<rparr>)], fr_status = [(''ssh'', [])],
      fr_held = [(''tcp'', '':2222'')]\<rparr>"
  by (simp add: demo_pl_def demo_forward_def model_eval)

theorem domain_router_converges_witness:
  "\<exists>sv st. boot demo_pl demo_env None IoOk (demo_file demo_config) True fresh_table = Inr sv
    \<and> race_run demo_pl [Commit 7 IoOk (OpDeleteDomain ''mail.example.com''), ApplyDomains 7] (race_start sv) = Some st
    \<and> ra_threads st = [] \<and> ro_active (ra_router st) = []"
proof -
  obtain sv where b: "boot demo_pl demo_env None IoOk (demo_file demo_config) True fresh_table = Inr sv"
      "config_of (sv_store sv) = demo_config" using demo_boot by blast
  have cf: "config_ok (config_of (sv_store sv))" using b(2) demo_config_ok by simp
  have ok: "server_ok sv" using boot_live [OF b(1) cf demo_pl_spec] by simp
  then have reg: "st_on_domain (sv_store sv)" by (simp add: server_ok_def)
  note st = demo_config_fields [OF b(2)]
  obtain s' where d: "run_op IoOk (OpDeleteDomain ''mail.example.com'') (sv_store sv) = (None, s', [NotifyDomain])"
      "st_domains s' = []"
    using st reg by (simp add: op_defs) (simp add: demo_domain_def demo_site_def model_eval go_eval Let_def)
  obtain st where run: "race_run demo_pl [Commit 7 IoOk (OpDeleteDomain ''mail.example.com''), ApplyDomains 7] (race_start sv) = Some st"
      "ra_threads st = []" "\<not> ra_failed st" "ra_store st = s'"
    using d by (simp add: race_start_def add_thread_def failed_write_def del: run_op.simps)
  have "synced s'" using run_op_synced [OF _ d(1)] ok by (simp add: server_ok_def)
  then have "DomainPorts s' = []" using DomainPorts_exact(1) [of s'] d(2) by (cases "DomainPorts s'") auto
  then have "wanted_ports (ra_router st) (ra_store st) = []" using run(4) by (simp add: wanted_ports_def)
  with domain_router_converges [OF b(1) cf demo_pl_spec run(1,3,2)] run b(1) show ?thesis by auto
qed

text \<open>C27: however the goroutines of concurrent changes interleave and whatever fails, the forwarder
  and, when iptables fails only on rules the kernel does not take, the kernel's table each show one
  configuration whole (of its rules those that the kernel takes), one that was the stored one at some point since the start: never rules or listeners of two configurations mixed.
  (Which one need not be the last: see the next theorem.)\<close>

theorem components_show_one_configuration:
  assumes "boot pl getenv mk io doc tls krn = Inr sv0" "config_ok (config_of (sv_store sv0))"
    and "iptables_spec (pl_iptables pl) view" "reliable accepts (pl_iptables pl) view"
    and "view krn ''PREROUTING'' = Some pre" "view krn ''POSTROUTING'' = Some post"
    and "race_run pl es (race_start sv0) = Some st"
  shows "(\<exists>s\<in>set (race_stores pl es (race_start sv0)). forwards_live (st_forwards s) (ra_fwd st))
    \<and> (\<exists>s\<in>set (race_stores pl es (race_start sv0)). view (dg_kernel (ra_dnat st)) = (view krn)
         (dnatChain \<mapsto> filter accepts (map dnat_args (filter dn_enabled (st_dnat s))), postChain \<mapsto> masq_rules accepts (st_dnat s),
          ''PREROUTING'' \<mapsto> (if [''-j'', dnatChain] \<in> set pre then pre else [''-j'', dnatChain] # pre),
          ''POSTROUTING'' \<mapsto> (if [''-j'', postChain] \<in> set post then post else post @ [[''-j'', postChain]])))"
proof -
  have ok: "server_ok sv0" "live view sv0" using boot_live [OF assms(1-3)] by simp_all
  have "kernel_exact accepts view (view krn) pre post sv0" by (rule boot_kernel) (fact assms)+
  note start = race_start_shows_one [OF ok this]
  have "{sv_store sv0} \<union> set (race_stores pl es (race_start sv0)) = set (race_stores pl es (race_start sv0))"
    by (cases es) (auto simp: race_start_def)
  with race_run_shows_one [where view = view, OF assms(7) start assms(3,4)] have
      "shows_one accepts view (view krn) pre post (set (race_stores pl es (race_start sv0))) st" by simp
  then obtain s1 s2 where s: "s1 \<in> set (race_stores pl es (race_start sv0))" "forwards_live (st_forwards s1) (ra_fwd st)"
      "s2 \<in> set (race_stores pl es (race_start sv0))" "view (dg_kernel (ra_dnat st)) = built accepts (view krn) (st_dnat s2) pre post"
    unfolding shows_one_def by blast
  show ?thesis
    by (intro conjI bexI [OF _ s(1)] bexI [OF _ s(3)])
      (simp_all add: s(2,4) built_def dnat_rules_def with_jump_def add_jump_def)
qed

theorem components_show_one_configuration_witness:
  "\<exists>sv st. boot demo_pl demo_env None IoOk (demo_file demo_config) True fresh_table = Inr sv
    \<and> race_run demo_pl [Commit 7 IoOk (OpDeleteForward ''ssh''), Snapshot 7] (race_start sv) = Some st
    \<and> (\<exists>s\<in>set (race_stores demo_pl [Commit 7 IoOk (OpDeleteForward ''ssh''), Snapshot 7] (race_start sv)).
         dg_kernel (ra_dnat st) dnatChain = Some (map dnat_args (filter dn_enabled (st_dnat s))))"
proof -
  obtain sv where b: "boot demo_pl demo_env None IoOk (demo_file demo_config) True fresh_table = Inr sv"
      "config_of (sv_store sv) = demo_config" using demo_boot by blast
  have ok: "config_ok (config_of (sv_store sv))" using b(2) demo_config_ok by simp
  have reg: "st_on_forward (sv_store sv)" using boot_live [OF b(1) ok demo_pl_spec] by (simp add: server_ok_def)
  have re: "reliable (\<lambda>_. True) (pl_iptables demo_pl) (\<lambda>t. t)" by (simp add: demo_pl_def ipt_ref_spec)
  obtain s' where d: "run_op IoOk (OpDeleteForward ''ssh'') (sv_store sv) = (None, s', [NotifyForwards []])"
    using demo_config_fields [OF b(2)] reg by (simp add: op_defs) (simp add: model_eval demo_forward_def)
  obtain st where st: "race_run demo_pl [Commit 7 IoOk (OpDeleteForward ''ssh''), Snapshot 7] (race_start sv) = Some st"
    using d by (simp add: race_start_def add_thread_def failed_write_def del: run_op.simps)
  have "\<exists>s\<in>set (race_stores demo_pl [Commit 7 IoOk (OpDeleteForward ''ssh''), Snapshot 7] (race_start sv)).
      dg_kernel (ra_dnat st) dnatChain = Some (map dnat_args (filter dn_enabled (st_dnat s)))"
    using components_show_one_configuration [where view = "\<lambda>t. t", OF b(1) ok demo_pl_spec re fresh_table_hooks st]
    by (auto simp: dnatChain_def postChain_def simp del: race_stores.simps race_run.simps)
  with b(1) st show ?thesis by blast
qed

text \<open>The forwarder need not converge: \<open>fireForwards\<close> copies the list before \<open>Apply\<close>
  takes its lock, so of two changes close together the older copy may be applied last. Here a
  forward is saved and deleted, both requests are done, the configuration has no forward, and
  its listener still runs.\<close>

theorem deleted_forward_keeps_listening:
  "\<exists>st. race_run demo_pl
      [Commit 1 IoOk (OpUpsertForward [] demo_forward), Snapshot 1,
       Commit 2 IoOk (OpDeleteForward ''ssh''), Snapshot 2, ApplyForwards 2, ApplyForwards 1] demo_race = Some st
    \<and> ra_threads st = [] \<and> \<not> ra_failed st \<and> st_forwards (ra_store st) = []
    \<and> fr_held (ra_fwd st) = [(''tcp'', '':2222'')] \<and> map fst (fr_active (ra_fwd st)) = [''ssh'']"
proof -
  have empty: "ForwarderApply (beside (pl_refuse demo_pl) held) (pl_resolve demo_pl) [] (NewForwarder []) = NewForwarder []" for held
    by (simp add: model_eval)
  have "st_forwards demo_s3 = [demo_forward]" "st_forwards demo_gone = []" by (simp_all add: demo_s3_def demo_gone_def)
  with empty show ?thesis
    using demo_step3 demo_deleted demo_start_ssh
    by (simp add: demo_race_def add_thread_def failed_write_def del: run_op.simps)
qed

end
