(* ===== verification/FormText.thy ===== *)
theory FormText
  imports RequestUri
begin

text \<open>
  The text handling behind the admin pages: \<open>url.QueryEscape\<close> and the reading of one
  query parameter (\<open>r.URL.Query().Get\<close>), form values, and the path cleaning and pattern
  matching of \<open>http.ServeMux\<close> for patterns without wildcards.
\<close>

section \<open>Query components\<close>

definition query_plain :: "char \<Rightarrow> bool" where
  "query_plain c \<longleftrightarrow> is_alnum c \<or> c \<in> set ''-_.~''"

fun QueryEscape :: "string \<Rightarrow> string" where
  "QueryEscape [] = []"
| "QueryEscape (c # s) =
     (if query_plain c then c # QueryEscape s
      else if c = CHR '' '' then CHR ''+'' # QueryEscape s
      else CHR ''%'' # upper_hex (byte_of c div 16) # upper_hex (byte_of c mod 16) # QueryEscape s)"

text \<open>\<open>QueryUnescape\<close>: plus is a space.\<close>

fun QueryUnescape :: "string \<Rightarrow> string option" where
  "QueryUnescape [] = Some []"
| "QueryUnescape (c # s) =
     (if c = CHR ''%'' then
        (case s of
           a # b # r \<Rightarrow>
             if is_hex a \<and> is_hex b
             then map_option ((#) (char_of (16 * unhex a + unhex b))) (QueryUnescape r) else None
         | _ \<Rightarrow> None)
      else map_option ((#) (if c = CHR ''+'' then CHR '' '' else c)) (QueryUnescape s))"

text \<open>\<open>url.ParseQuery\<close> keeps the pairs it can decode and drops the others; \<open>Get\<close> takes the
  first value of the key.\<close>

definition query_pair :: "string \<Rightarrow> (string \<times> string) option" where
  "query_pair part =
     (if CHR '';'' \<in> set part \<or> part = [] then None
      else (let (k, v) = (case cut_byte (CHR ''='') part of None \<Rightarrow> (part, []) | Some kv \<Rightarrow> kv)
        in case (QueryUnescape k, QueryUnescape v) of (Some k', Some v') \<Rightarrow> Some (k', v') | _ \<Rightarrow> None))"

definition query_get :: "string \<Rightarrow> string \<Rightarrow> string" where
  "query_get query key =
     (case map_of (List.map_filter query_pair (split_byte (CHR ''&'') query)) key of None \<Rightarrow> [] | Some v \<Rightarrow> v)"

lemma QueryUnescape_escape [simp]: "QueryUnescape (QueryEscape s) = Some s"
proof (induction s)
  case (Cons c s)
  have b: "byte_of c div 16 < 16" "byte_of c mod 16 < 16"
    using byte_of_lt [of c] by (auto intro: less_mult_imp_div_less)
  have "16 * (byte_of c div 16) + byte_of c mod 16 = byte_of c" by (rule mult_div_mod_eq)
  then have "char_of (16 * (byte_of c div 16) + byte_of c mod 16) = c" by (simp only: char_of_char)
  note escaped = this
  have plain: "query_plain c \<Longrightarrow> c \<noteq> CHR ''%'' \<and> c \<noteq> CHR ''+''"
    by (auto simp: query_plain_def byte_class_defs)
  consider "query_plain c" | "\<not> query_plain c" "c = CHR '' ''" | "\<not> query_plain c" "c \<noteq> CHR '' ''" by blast
  then show ?case
  proof cases
    case 3
    then show ?thesis
      using Cons escaped upper_hex_props [OF b(1)] upper_hex_props [OF b(2)] by simp
  qed (use Cons plain in simp_all)
qed simp

lemma query_escape_bytes:
  assumes "c \<in> {CHR ''&'', CHR '';'', CHR ''='', CHR ''#'', CHR ''?''}"
  shows "c \<notin> set (QueryEscape s)"
proof (induction s)
  case (Cons d s)
  have b: "byte_of d div 16 < 16" "byte_of d mod 16 < 16"
    using byte_of_lt [of d] by (auto intro: less_mult_imp_div_less)
  have "\<not> is_hex c" "\<not> query_plain c" "c \<noteq> CHR ''%''" "c \<noteq> CHR ''+''"
    using assms by (auto simp: is_hex_def query_plain_def byte_class_defs)
  with Cons upper_hex_props(1) [OF b(1)] upper_hex_props(1) [OF b(2)] show ?case by auto
qed simp

text \<open>One escaped pair is read back.\<close>

lemma query_get_escape:
  assumes "key \<noteq> []" "\<forall>c\<in>set key. query_plain c"
  shows "query_get (key @ ''='' @ QueryEscape msg) key = msg"
proof -
  have plain: "c \<notin> set key" if "\<not> query_plain c" for c using assms(2) that by auto
  have np: "\<not> query_plain (CHR ''='')" "\<not> query_plain (CHR ''&'')" "\<not> query_plain (CHR '';'')"
    by (simp_all add: query_plain_def byte_class_defs)
  have "QueryEscape key = key" using assms(2) by (induction key) auto
  then have uk: "QueryUnescape key = Some key" by (metis QueryUnescape_escape)
  have "CHR ''&'' \<notin> set (key @ ''='' @ QueryEscape msg)" "CHR '';'' \<notin> set (key @ ''='' @ QueryEscape msg)"
    using plain np query_escape_bytes by auto
  moreover have "cut_byte (CHR ''='') (key @ ''='' @ QueryEscape msg) = Some (key, QueryEscape msg)"
    using cut_byte_append [of "CHR ''=''" key "QueryEscape msg"] plain np by simp
  ultimately show ?thesis
    using uk by (simp add: query_get_def split_byte_no_sep query_pair_def List.map_filter_def)
qed

section \<open>Paths\<close>

text \<open>\<open>cleanPath\<close>: \<open>path.Clean\<close> of the rooted path, with a final slash put back.\<close>

fun clean_segments :: "string list \<Rightarrow> string list \<Rightarrow> string list" where
  "clean_segments acc [] = rev acc"
| "clean_segments acc (x # xs) =
     (if x = [] \<or> x = ''.'' then clean_segments acc xs
      else if x = ''..'' then clean_segments (drop 1 acc) xs
      else clean_segments (x # acc) xs)"

definition join_segments :: "string list \<Rightarrow> string" where
  "join_segments xs = concat (map (\<lambda>x. slash # x) xs)"

definition cleanPath :: "string \<Rightarrow> string" where
  "cleanPath p =
     (if p = [] then ''/''
      else (let q = (if has_prefix p ''/'' then p else slash # p);
                np = join_segments (clean_segments [] (split_byte slash q));
                r = (if np = [] then ''/'' else np)
        in if has_suffix q ''/'' \<and> r \<noteq> ''/'' then r @ ''/'' else r))"

text \<open>The segments of an escaped path as the matcher compares them.\<close>

definition path_segments :: "string \<Rightarrow> string list" where
  "path_segments p = map (\<lambda>x. case unescape EncPath x of Inl _ \<Rightarrow> x | Inr y \<Rightarrow> y) (split_byte slash (drop 1 p))"

lemmas [go_eval] = query_plain_def query_pair_def query_get_def join_segments_def cleanPath_def path_segments_def

end
