(* ===== verification/Admin.thy ===== *)
theory Admin
  imports Server FormText
begin

text \<open>
  The management interface of \<open>admin.go\<close>: the IP gate, the dispatch, the session check and
  every handler, as one function from a request and the process to a reply and the process
  after it. A request carries what \<open>net/http\<close> has parsed: the form values, the cookies, the
  escaped path and the query. A page is the data handed to its template; the texts of errors are those of the platform record.
\<close>

record admin_request =
  ar_remote :: string
  ar_method :: string
  ar_path :: string
  ar_query :: string
  ar_form :: "(string \<times> string) list"
  ar_cookies :: "(string \<times> string) list"
  ar_tls :: bool
  ar_now :: int

text \<open>A row of the two pages that show a status beside each entry.\<close>

type_synonym dnatView = "dnat_rule \<times> string"

type_synonym forwardView = "forward \<times> string"

datatype page =
    LoginPage "string option"
  | SitesPage "http_site list" string string string
  | DomainsPage "domain list" string string string
  | ForwardsPage "forwardView list" string string
  | DnatPage "dnatView list" string string

datatype reply =
    Forbidden
  | MovedTo string
  | SeeOther string "cookie option"
  | Page page

definition form_value :: "admin_request \<Rightarrow> string \<Rightarrow> string" where
  "form_value r k = (case map_of (ar_form r) k of None \<Rightarrow> [] | Some v \<Rightarrow> v)"

definition trimmed_value :: "admin_request \<Rightarrow> string \<Rightarrow> string" where
  "trimmed_value r k = trim_space (form_value r k)"

definition redirectMsgTo :: "string \<Rightarrow> string \<Rightarrow> string \<Rightarrow> reply" where
  "redirectMsgTo base kind msg = SeeOther (base @ ''?'' @ kind @ ''='' @ QueryEscape msg) None"

definition redirectMsg :: "string \<Rightarrow> string \<Rightarrow> reply" where
  "redirectMsg kind msg = redirectMsgTo ''/_admin'' kind msg"

definition post :: "admin_request \<Rightarrow> bool" where
  "post r \<longleftrightarrow> ar_method r = ''POST''"

section \<open>Signing in and out\<close>

definition login :: "'s server \<Rightarrow> admin_request \<Rightarrow> reply" where
  "login sv r =
     (if SessionValid (sv_auth sv) (ar_cookies r) (ar_now r) then SeeOther ''/_admin'' None
      else if post r then
        (if CheckPassword (sv_auth sv) (form_value r ''password'')
         then SeeOther ''/_admin'' (Some (IssueCookie (sv_auth sv) (ar_now r) (ar_tls r)))
         else Page (LoginPage (Some ''Incorrect password'')))
      else Page (LoginPage None))"

definition logout :: reply where
  "logout = SeeOther ''/_admin/login'' (Some ClearCookie)"

section \<open>The pages\<close>

text \<open>The list again, as the JSON text the page's script starts from.\<close>

definition sites_json :: "(http_site \<Rightarrow> bool) \<Rightarrow> http_site list \<Rightarrow> string" where
  "sites_json nilr sites = Marshal (JArr (map (\<lambda>s. enc_site (nilr s) s) sites))"

definition domains_json :: "(domain \<Rightarrow> bool) \<Rightarrow> domain list \<Rightarrow> string" where
  "domains_json nilf domains = Marshal (JArr (map (\<lambda>d. enc_domain (nilf d) d) domains))"

definition dashboard :: "'s platform \<Rightarrow> 's server \<Rightarrow> admin_request \<Rightarrow> reply" where
  "dashboard pl sv r =
     Page (SitesPage (ListSites (sv_store sv)) (sites_json (pl_nil_routes pl) (ListSites (sv_store sv)))
       (query_get (ar_query r) ''notice'') (query_get (ar_query r) ''error''))"

definition domains_page :: "'s platform \<Rightarrow> 's server \<Rightarrow> admin_request \<Rightarrow> reply" where
  "domains_page pl sv r =
     Page (DomainsPage (ListDomains (sv_store sv)) (domains_json (pl_nil_forwards pl) (ListDomains (sv_store sv)))
       (query_get (ar_query r) ''notice'') (query_get (ar_query r) ''error''))"

definition lookup_status :: "(string \<times> string) list \<Rightarrow> string \<Rightarrow> string" where
  "lookup_status st n = (case map_of st n of None \<Rightarrow> [] | Some s \<Rightarrow> s)"

definition shown_status :: "string \<Rightarrow> bool \<Rightarrow> string \<Rightarrow> string" where
  "shown_status fine enabled s = (if \<not> enabled then ''disabled'' else if s = [] then fine else s)"

definition dnat_page :: "'s server \<Rightarrow> admin_request \<Rightarrow> reply" where
  "dnat_page sv r =
     (let (st, gerr) = DNATStatus (sv_dnat sv);
          rows = map (\<lambda>d. (d, shown_status ''active'' (dn_enabled d) (lookup_status st (dn_name d)))) (ListDNAT (sv_store sv));
          err = query_get (ar_query r) ''error'';
          err' = (if err = [] \<and> gerr \<noteq> [] then ''iptables error: '' @ gerr else err)
      in Page (DnatPage rows (query_get (ar_query r) ''notice'') err'))"

definition forwards_page :: "'s server \<Rightarrow> admin_request \<Rightarrow> reply" where
  "forwards_page sv r =
     (let st = ForwarderStatus (sv_fwd sv);
          rows = map (\<lambda>f. (f, shown_status ''running'' (fw_enabled f) (lookup_status st (fw_name f)))) (ListForwards (sv_store sv))
      in Page (ForwardsPage rows (query_get (ar_query r) ''notice'') (query_get (ar_query r) ''error'')))"

section \<open>The operations\<close>

text \<open>A handler that changes the configuration: the operation and its message, or a reply
  when the form cannot be read.\<close>

definition run_edit ::
  "'s platform \<Rightarrow> io_result \<Rightarrow> string \<Rightarrow> store_op \<Rightarrow> ('s server \<Rightarrow> reply) \<Rightarrow> 's server \<Rightarrow> reply \<times> 's server" where
  "run_edit pl io base op good sv =
     (case exec_op pl io op sv of
        (Some e, sv') \<Rightarrow> (redirectMsgTo base ''error'' (pl_err_text pl e), sv')
      | (None, sv') \<Rightarrow> (good sv', sv'))"

definition decode_list :: "(string \<Rightarrow> json_err + 'a list) \<Rightarrow> string \<Rightarrow> json_err + 'a list" where
  "decode_list dec v = (let s = trim_space v in if s \<noteq> [] then dec s else Inr [])"

definition save :: "'s platform \<Rightarrow> io_result \<Rightarrow> admin_request \<Rightarrow> 's server \<Rightarrow> reply \<times> 's server" where
  "save pl io r sv =
     (if \<not> post r then (SeeOther ''/_admin'' None, sv)
      else (case decode_list unmarshal_routes (form_value r ''routes_json'') of
          Inl e \<Rightarrow> (redirectMsg ''error'' (''could not read routes: '' @ pl_json_text pl e), sv)
        | Inr routes \<Rightarrow>
            (let site = \<lparr>hs_host = trimmed_value r ''host'', hs_desc = trimmed_value r ''description'', hs_routes = routes\<rparr>
             in run_edit pl io ''/_admin'' (OpUpsertSite (trimmed_value r ''old_host'') site)
                  (\<lambda>_. redirectMsg ''notice''
                     (''Saved '' @ hs_host site @ '' (certificate is obtained on first HTTPS request)'')) sv)))"

definition delete_site :: "'s platform \<Rightarrow> io_result \<Rightarrow> admin_request \<Rightarrow> 's server \<Rightarrow> reply \<times> 's server" where
  "delete_site pl io r sv =
     (if \<not> post r then (SeeOther ''/_admin'' None, sv)
      else run_edit pl io ''/_admin'' (OpDeleteSite (trimmed_value r ''host''))
             (\<lambda>_. redirectMsg ''notice'' (''Deleted '' @ trimmed_value r ''host'')) sv)"

definition saveDomain :: "'s platform \<Rightarrow> io_result \<Rightarrow> admin_request \<Rightarrow> 's server \<Rightarrow> reply \<times> 's server" where
  "saveDomain pl io r sv =
     (if \<not> post r then (SeeOther ''/_admin/domains'' None, sv)
      else (case decode_list unmarshal_forwards (form_value r ''forwards_json'') of
          Inl e \<Rightarrow> (redirectMsgTo ''/_admin/domains'' ''error'' (''could not read port forwards: '' @ pl_json_text pl e), sv)
        | Inr forwards \<Rightarrow>
            (let d = \<lparr>dm_host = trimmed_value r ''host'', dm_desc = trimmed_value r ''description'', dm_forwards = forwards\<rparr>
             in run_edit pl io ''/_admin/domains'' (OpUpsertDomain (trimmed_value r ''old_host'') d)
                  (\<lambda>_. redirectMsgTo ''/_admin/domains'' ''notice''
                     (''Saved domain '' @ dm_host d @ '' (terminate-mode certs are obtained on first HTTPS request)'')) sv)))"

definition deleteDomain :: "'s platform \<Rightarrow> io_result \<Rightarrow> admin_request \<Rightarrow> 's server \<Rightarrow> reply \<times> 's server" where
  "deleteDomain pl io r sv =
     (if \<not> post r then (SeeOther ''/_admin/domains'' None, sv)
      else run_edit pl io ''/_admin/domains'' (OpDeleteDomain (trimmed_value r ''host''))
             (\<lambda>_. redirectMsgTo ''/_admin/domains'' ''notice'' (''Deleted domain '' @ trimmed_value r ''host'')) sv)"

text \<open>The dash in the two warnings is U+2014 in UTF-8.\<close>

definition em_dash :: string where
  "em_dash = [CHR 0xE2, CHR 0x80, CHR 0x94]"

definition saveDNAT :: "'s platform \<Rightarrow> io_result \<Rightarrow> admin_request \<Rightarrow> 's server \<Rightarrow> reply \<times> 's server" where
  "saveDNAT pl io r sv =
     (if \<not> post r then (SeeOther ''/_admin/dnat'' None, sv)
      else (let v = trimmed_value r ''listen_port''
        in case (if v = [] then Some 0 else parse_int v) of
          None \<Rightarrow> (redirectMsgTo ''/_admin/dnat'' ''error'' ''public port must be a number'', sv)
        | Some port \<Rightarrow>
            (let d = \<lparr>dn_name = trimmed_value r ''name'', dn_proto = trimmed_value r ''proto'', dn_port = port,
                  dn_target = trimmed_value r ''target'', dn_snat = (form_value r ''snat'' = ''on''),
                  dn_desc = trimmed_value r ''description'', dn_enabled = (form_value r ''enabled'' = ''on'')\<rparr>
             in run_edit pl io ''/_admin/dnat'' (OpUpsertDNAT (trimmed_value r ''old_name'') d)
                  (\<lambda>sv'. let st = lookup_status (fst (DNATStatus (sv_dnat sv'))) (dn_name d)
                     in if has_prefix st ''error:''
                        then redirectMsgTo ''/_admin/dnat'' ''error''
                          (''Saved, but applying to iptables failed '' @ em_dash @ '' '' @ st)
                        else redirectMsgTo ''/_admin/dnat'' ''notice'' (''Saved DNAT rule '' @ dn_name d)) sv)))"

definition deleteDNAT :: "'s platform \<Rightarrow> io_result \<Rightarrow> admin_request \<Rightarrow> 's server \<Rightarrow> reply \<times> 's server" where
  "deleteDNAT pl io r sv =
     (if \<not> post r then (SeeOther ''/_admin/dnat'' None, sv)
      else run_edit pl io ''/_admin/dnat'' (OpDeleteDNAT (trimmed_value r ''name''))
             (\<lambda>_. redirectMsgTo ''/_admin/dnat'' ''notice'' (''Deleted DNAT rule '' @ trimmed_value r ''name'')) sv)"

definition saveForward :: "'s platform \<Rightarrow> io_result \<Rightarrow> admin_request \<Rightarrow> 's server \<Rightarrow> reply \<times> 's server" where
  "saveForward pl io r sv =
     (if \<not> post r then (SeeOther ''/_admin/forwards'' None, sv)
      else (let f = \<lparr>fw_name = trimmed_value r ''name'', fw_proto = trimmed_value r ''proto'',
                fw_listen = trimmed_value r ''listen'', fw_target = trimmed_value r ''target'',
                fw_proxy_proto = (form_value r ''proxy_proto'' = ''on''), fw_desc = trimmed_value r ''description'',
                fw_enabled = (form_value r ''enabled'' = ''on'')\<rparr>
            in run_edit pl io ''/_admin/forwards'' (OpUpsertForward (trimmed_value r ''old_name'') f)
                 (\<lambda>sv'. let s = lookup_status (ForwarderStatus (sv_fwd sv')) (fw_name f)
                    in if has_prefix s ''error:''
                       then redirectMsgTo ''/_admin/forwards'' ''error'' (''Saved, but listener failed '' @ em_dash @ '' '' @ s)
                       else redirectMsgTo ''/_admin/forwards'' ''notice'' (''Saved forward '' @ fw_name f)) sv))"

definition deleteForward :: "'s platform \<Rightarrow> io_result \<Rightarrow> admin_request \<Rightarrow> 's server \<Rightarrow> reply \<times> 's server" where
  "deleteForward pl io r sv =
     (if \<not> post r then (SeeOther ''/_admin/forwards'' None, sv)
      else run_edit pl io ''/_admin/forwards'' (OpDeleteForward (trimmed_value r ''name''))
             (\<lambda>_. redirectMsgTo ''/_admin/forwards'' ''notice'' (''Deleted forward '' @ trimmed_value r ''name'')) sv)"

section \<open>Dispatch\<close>

datatype admin_route =
    RLogin | RLogout | RSave | RDelete | RForwards | RForwardsSave | RForwardsDelete
  | RDnat | RDnatSave | RDnatDelete | RDomains | RDomainsSave | RDomainsDelete | RDashboard | RRoot

text \<open>The patterns of \<open>Handler\<close>: the exact ones, the subtree \<open>/_admin/\<close>, and everything
  else.\<close>

definition admin_patterns :: "(string list \<times> admin_route) list" where
  "admin_patterns =
    [([''_admin'', ''login''], RLogin), ([''_admin'', ''logout''], RLogout),
     ([''_admin'', ''save''], RSave), ([''_admin'', ''delete''], RDelete),
     ([''_admin'', ''forwards''], RForwards), ([''_admin'', ''forwards'', ''save''], RForwardsSave),
     ([''_admin'', ''forwards'', ''delete''], RForwardsDelete),
     ([''_admin'', ''dnat''], RDnat), ([''_admin'', ''dnat'', ''save''], RDnatSave),
     ([''_admin'', ''dnat'', ''delete''], RDnatDelete),
     ([''_admin'', ''domains''], RDomains), ([''_admin'', ''domains'', ''save''], RDomainsSave),
     ([''_admin'', ''domains'', ''delete''], RDomainsDelete), ([''_admin''], RDashboard)]"

definition admin_route :: "string \<Rightarrow> admin_route" where
  "admin_route path =
     (let segs = path_segments path
      in case map_of admin_patterns segs of
           Some h \<Rightarrow> h
         | None \<Rightarrow> if 2 \<le> length segs \<and> hd segs = ''_admin'' then RDashboard else RRoot)"

definition requireAuth :: "'s server \<Rightarrow> admin_request \<Rightarrow> reply \<times> 's server \<Rightarrow> reply \<times> 's server" where
  "requireAuth sv r h =
     (if \<not> SessionValid (sv_auth sv) (ar_cookies r) (ar_now r) then (SeeOther ''/_admin/login'' None, sv) else h)"

definition serve_route ::
  "'s platform \<Rightarrow> io_result \<Rightarrow> admin_route \<Rightarrow> admin_request \<Rightarrow> 's server \<Rightarrow> reply \<times> 's server" where
  "serve_route pl io h r sv =
     (case h of
        RLogin \<Rightarrow> (login sv r, sv)
      | RLogout \<Rightarrow> (logout, sv)
      | RRoot \<Rightarrow> (SeeOther ''/_admin'' None, sv)
      | RSave \<Rightarrow> requireAuth sv r (save pl io r sv)
      | RDelete \<Rightarrow> requireAuth sv r (delete_site pl io r sv)
      | RForwards \<Rightarrow> requireAuth sv r (forwards_page sv r, sv)
      | RForwardsSave \<Rightarrow> requireAuth sv r (saveForward pl io r sv)
      | RForwardsDelete \<Rightarrow> requireAuth sv r (deleteForward pl io r sv)
      | RDnat \<Rightarrow> requireAuth sv r (dnat_page sv r, sv)
      | RDnatSave \<Rightarrow> requireAuth sv r (saveDNAT pl io r sv)
      | RDnatDelete \<Rightarrow> requireAuth sv r (deleteDNAT pl io r sv)
      | RDomains \<Rightarrow> requireAuth sv r (domains_page pl sv r, sv)
      | RDomainsSave \<Rightarrow> requireAuth sv r (saveDomain pl io r sv)
      | RDomainsDelete \<Rightarrow> requireAuth sv r (deleteDomain pl io r sv)
      | RDashboard \<Rightarrow> requireAuth sv r (dashboard pl sv r, sv))"

text \<open>\<open>ipGate\<close> around the mux, which sends an unclean path to the clean one, unless the method is
  CONNECT: then the path is matched as it is (an empty one is sent to the root with a slash added).\<close>

definition admin_handler ::
  "'s platform \<Rightarrow> io_result \<Rightarrow> admin_request \<Rightarrow> 's server \<Rightarrow> reply \<times> 's server" where
  "admin_handler pl io r sv =
     (if \<not> IPAllowed (sv_auth sv) (ar_remote r) then (Forbidden, sv)
      else if ar_method r = ''CONNECT'' \<and> ar_path r = [] then (MovedTo (cleanPath [] @ ''/''), sv)
      else if ar_method r \<noteq> ''CONNECT'' \<and> cleanPath (ar_path r) \<noteq> ar_path r then (MovedTo (cleanPath (ar_path r)), sv)
      else serve_route pl io (admin_route (ar_path r)) r sv)"

section \<open>Who may do what\<close>

lemma run_edit_cases:
  assumes "run_edit pl io base op good sv = (rep, sv')"
  shows "\<exists>e. exec_op pl io op sv = (e, sv') \<and>
    rep = (case e of Some x \<Rightarrow> redirectMsgTo base ''error'' (pl_err_text pl x) | None \<Rightarrow> good sv')"
  using assms by (auto simp: run_edit_def split: prod.splits option.splits)

definition is_edit :: "'s platform \<Rightarrow> io_result \<Rightarrow> 's server \<Rightarrow> reply \<times> 's server \<Rightarrow> bool" where
  "is_edit pl io sv out \<longleftrightarrow> (\<exists>op e. exec_op pl io op sv = (e, snd out)
     \<and> (\<forall>x. e = Some x \<longrightarrow> (\<exists>base. fst out = redirectMsgTo base ''error'' (pl_err_text pl x))))"

lemma run_edit_is_edit: "is_edit pl io sv (run_edit pl io base op good sv)"
proof -
  obtain rep sv' where r: "run_edit pl io base op good sv = (rep, sv')" by fastforce
  from run_edit_cases [OF r] obtain e where e: "exec_op pl io op sv = (e, sv')"
      "rep = (case e of Some x \<Rightarrow> redirectMsgTo base ''error'' (pl_err_text pl x) | None \<Rightarrow> good sv')" by blast
  then show ?thesis unfolding is_edit_def r by (intro exI [of _ op] exI [of _ e]) auto
qed

definition editing :: "admin_route \<Rightarrow> bool" where
  "editing h \<longleftrightarrow> h \<in> {RSave, RDelete, RForwardsSave, RForwardsDelete, RDnatSave, RDnatDelete, RDomainsSave, RDomainsDelete}"

lemmas edit_handlers = save_def delete_site_def saveDomain_def deleteDomain_def saveDNAT_def deleteDNAT_def
  saveForward_def deleteForward_def

text \<open>A request either leaves the process alone or is one operation of the store, asked for
  by a POST from an allowed address with a valid session.\<close>

lemma serve_route_cases:
  "snd (serve_route pl io h r sv) = sv
   \<or> SessionValid (sv_auth sv) (ar_cookies r) (ar_now r) \<and> post r \<and> editing h \<and> is_edit pl io sv (serve_route pl io h r sv)"
proof (cases "SessionValid (sv_auth sv) (ar_cookies r) (ar_now r) \<and> post r")
  case False
  then show ?thesis by (cases h) (auto simp: serve_route_def requireAuth_def edit_handlers)
next
  case True
  then show ?thesis
    by (cases h) (simp_all add: serve_route_def requireAuth_def editing_def edit_handlers run_edit_is_edit Let_def
        split: sum.split option.split)
qed

lemma admin_handler_cases:
  "snd (admin_handler pl io r sv) = sv
   \<or> IPAllowed (sv_auth sv) (ar_remote r) \<and> SessionValid (sv_auth sv) (ar_cookies r) (ar_now r) \<and> post r
      \<and> is_edit pl io sv (admin_handler pl io r sv)"
  using serve_route_cases [of pl io "admin_route (ar_path r)" r sv] by (auto simp: admin_handler_def)

text \<open>A session cookie is handed out only for the password, to an allowed address.\<close>

lemma reply_no_cookie [simp]: "redirectMsgTo base kind msg \<noteq> SeeOther loc (Some c)"
  by (simp add: redirectMsgTo_def)

lemma run_edit_no_cookie:
  assumes "\<And>sv'. good sv' \<noteq> SeeOther loc (Some c)"
  shows "fst (run_edit pl io base op good sv) \<noteq> SeeOther loc (Some c)"
  using assms by (simp add: run_edit_def split: prod.split option.split)

lemma edit_no_cookie:
  "fst (save pl io r sv) \<noteq> SeeOther loc (Some c)" "fst (delete_site pl io r sv) \<noteq> SeeOther loc (Some c)"
  "fst (saveDomain pl io r sv) \<noteq> SeeOther loc (Some c)" "fst (deleteDomain pl io r sv) \<noteq> SeeOther loc (Some c)"
  "fst (saveDNAT pl io r sv) \<noteq> SeeOther loc (Some c)" "fst (deleteDNAT pl io r sv) \<noteq> SeeOther loc (Some c)"
  "fst (saveForward pl io r sv) \<noteq> SeeOther loc (Some c)" "fst (deleteForward pl io r sv) \<noteq> SeeOther loc (Some c)"
  by (simp_all add: edit_handlers redirectMsg_def run_edit_no_cookie Let_def split: sum.split option.split)

lemma serve_route_cookie:
  assumes "fst (serve_route pl io h r sv) = SeeOther loc (Some c)" "ck_value c \<noteq> []"
  shows "post r \<and> CheckPassword (sv_auth sv) (form_value r ''password'')
    \<and> c = IssueCookie (sv_auth sv) (ar_now r) (ar_tls r)"
  using assms
  by (cases h) (auto simp: edit_no_cookie serve_route_def requireAuth_def login_def logout_def ClearCookie_def forwards_page_def
      dnat_page_def domains_page_def dashboard_def Let_def split: if_splits prod.splits)

lemma admin_cookie:
  assumes "fst (admin_handler pl io r sv) = SeeOther loc (Some c)" "ck_value c \<noteq> []"
  shows "IPAllowed (sv_auth sv) (ar_remote r) \<and> post r \<and> form_value r ''password'' = au_password (sv_auth sv)
    \<and> c = IssueCookie (sv_auth sv) (ar_now r) (ar_tls r)"
  using assms serve_route_cookie [of pl io "admin_route (ar_path r)" r sv loc c]
  by (auto simp: admin_handler_def CheckPassword_def split: if_splits)

text \<open>The message of a redirect is what the next page shows.\<close>

lemma redirect_message:
  assumes "kind = ''notice'' \<or> kind = ''error''" "CHR ''?'' \<notin> set base"
  shows "\<exists>q. redirectMsgTo base kind msg = SeeOther (base @ ''?'' @ q) None
    \<and> cut_query (base @ ''?'' @ q) = (base, False, q) \<and> query_get q kind = msg"
proof -
  have kinds: "\<forall>c\<in>set ''notice''. query_plain c" "\<forall>c\<in>set ''error''. query_plain c"
    by (simp_all add: query_plain_def byte_class_defs)
  let ?q = "kind @ ''='' @ QueryEscape msg"
  have "query_get ?q kind = msg" using assms(1) kinds by (intro query_get_escape) auto
  moreover have "cut_query (base @ ''?'' @ ?q) = (base, False, ?q)"
    using cut_query_print [OF assms(2), of False ?q] assms(1) by auto
  ultimately show ?thesis by (auto simp: redirectMsgTo_def)
qed

section \<open>What the pages show\<close>

text \<open>On a live process the forwards page shows a forward as running exactly when its
  listener runs.\<close>

lemma forwards_page_truthful:
  assumes lv: "forwards_live (st_forwards (sv_store sv)) (sv_fwd sv)" and f: "f \<in> set (st_forwards (sv_store sv))"
  shows "\<exists>rows n e. forwards_page sv r = Page (ForwardsPage rows n e)
    \<and> (\<exists>st. (f, st) \<in> set rows \<and>
         (st = ''running'' \<longleftrightarrow> fw_enabled f \<and> fw_name f \<in> fst ` set (fr_active (sv_fwd sv))))"
proof -
  let ?st = "shown_status ''running'' (fw_enabled f) (lookup_status (ForwarderStatus (sv_fwd sv)) (fw_name f))"
  from lv f have "case map_of (fr_status (sv_fwd sv)) (fw_name f) of
      None \<Rightarrow> False
    | Some s \<Rightarrow> (if \<not> fw_enabled f then s = ''disabled''
                else if fw_name f \<in> fst ` set (fr_active (sv_fwd sv)) then s = []
                else (\<exists>e. s = ''error: '' @ e))"
    unfolding forwards_live_def by blast
  then have "?st = ''running'' \<longleftrightarrow> fw_enabled f \<and> fw_name f \<in> fst ` set (fr_active (sv_fwd sv))"
    by (auto simp: shown_status_def lookup_status_def ForwarderStatus_def split: option.splits if_splits)
  then show ?thesis using f by (force simp: forwards_page_def Let_def)
qed

text \<open>A forward whose save failed at the file is in the configuration, not running, and shown
  as running.\<close>

lemma unsaved_forward_shown_running:
  assumes lv: "forwards_live (st_forwards (sv_store sv)) (sv_fwd sv)"
    and v: "validateForward f0 = Inr f" "fw_enabled f" and ed: "edit_forwards [] f (st_forwards (sv_store sv)) = Inr xs"
  shows "\<exists>sv' rows n e. exec_op pl (IoWriteError m) (OpUpsertForward [] f0) sv = (Some (WriteFailed m), sv')
    \<and> forwards_page sv' r = Page (ForwardsPage rows n e) \<and> (f, ''running'') \<in> set rows
    \<and> fw_name f \<notin> fst ` set (fr_active (sv_fwd sv'))"
proof -
  let ?sv = "sv\<lparr>sv_store := (sv_store sv)\<lparr>st_forwards := xs\<rparr>\<rparr>"
  from forwards.edit_add [OF ed] have new: "f \<in> set xs" "fw_name f \<notin> fw_name ` set (st_forwards (sv_store sv))"
    by (auto simp: key_set_def)
  have x: "exec_op pl (IoWriteError m) (OpUpsertForward [] f0) sv = (Some (WriteFailed m), ?sv)"
    using v ed by (simp add: exec_op_def UpsertForward_def persistLocked_def finish_def)
  from lv have names: "map_of (fr_status (sv_fwd sv)) n \<noteq> None \<Longrightarrow> n \<in> fw_name ` set (st_forwards (sv_store sv))"
      and run: "e \<in> set (fr_active (sv_fwd sv)) \<Longrightarrow> \<exists>w\<in>set (st_forwards (sv_store sv)). fw_name w = fst e" for n e
    unfolding forwards_live_def by blast+
  have "map_of (fr_status (sv_fwd sv)) (fw_name f) = None" using names new(2) by blast
  moreover have "fw_name f \<notin> fst ` set (fr_active (sv_fwd sv))"
  proof
    assume "fw_name f \<in> fst ` set (fr_active (sv_fwd sv))"
    then obtain e where "e \<in> set (fr_active (sv_fwd sv))" "fst e = fw_name f" by auto
    with run [of e] obtain w where "w \<in> set (st_forwards (sv_store sv))" "fw_name w = fw_name f" by auto
    then have "fw_name f \<in> fw_name ` set (st_forwards (sv_store sv))" by (metis image_eqI)
    with new(2) show False by simp
  qed
  ultimately have st: "lookup_status (fr_status (sv_fwd sv)) (fw_name f) = []" "fw_name f \<notin> fst ` set (fr_active (sv_fwd sv))"
    by (simp_all add: lookup_status_def)
  let ?rows = "map (\<lambda>f. (f, shown_status ''running'' (fw_enabled f) (lookup_status (fr_status (sv_fwd sv)) (fw_name f)))) xs"
  have "forwards_page ?sv r = Page (ForwardsPage ?rows (query_get (ar_query r) ''notice'') (query_get (ar_query r) ''error''))"
    by (simp add: forwards_page_def ForwarderStatus_def)
  moreover have "(f, ''running'') \<in> set ?rows" using new(1) v(2) st(1) by (force simp: shown_status_def)
  ultimately show ?thesis
    using x st(2) by (intro exI [of _ ?sv] exI [of _ ?rows]) auto
qed

lemmas [model_eval] = form_value_def trimmed_value_def redirectMsgTo_def redirectMsg_def post_def login_def logout_def
  dashboard_def domains_page_def lookup_status_def shown_status_def dnat_page_def forwards_page_def run_edit_def
  decode_list_def edit_handlers admin_patterns_def admin_route_def requireAuth_def serve_route_def admin_handler_def

end
