(* ===== verification/Tls.thy ===== *)
theory Tls
  imports Web Auth
begin

text \<open>
  The certificate files (\<open>tls.go\<close>) and the choice of the certificate source by
  \<open>TLS_MODE\<close> in \<open>main.go\<close>. The file system is a map from paths to nodes; what the platform
  answers (directory creation, randomness, opening and writing files, encoding) is a record of
  parameters, an error text for each step that can fail. A generated certificate is the data of
  its template with the key it was signed by; keys are numbered. The ten years to the expiry
  date are counted by the local calendar, a parameter.
\<close>

record certificate =
  ce_serial :: int
  ce_name :: string
  ce_from :: int
  ce_until :: int
  ce_ips :: "ip list"
  ce_dns :: "string list"
  ce_key :: nat

datatype content = CertPem certificate | KeyPem nat | Other string

datatype node = Dir | File "content"

type_synonym files = "string \<rightharpoonup> node"

record tls_platform =
  tp_mkdir :: "string option"
  tp_keygen :: "string + nat"
  tp_serial :: "string + int"
  tp_create :: "certificate \<Rightarrow> string option"
  tp_open_cert :: "string option"
  tp_write_cert :: "string option"
  tp_marshal :: "string option"
  tp_open_key :: "string option"
  tp_write_key :: "string option"
  tp_now :: int
  tp_ten_years :: "int \<Rightarrow> int"

definition fileExists :: "files \<Rightarrow> string \<Rightarrow> bool" where
  "fileExists fs p = (case fs p of Some (File c) \<Rightarrow> True | _ \<Rightarrow> False)"

text \<open>The loop over the names: addresses and host names go to different fields, blanks to
  none.\<close>

fun split_sans :: "string list \<Rightarrow> ip list \<times> string list" where
  "split_sans [] = ([], [])"
| "split_sans (s # ss) =
     (let (ips, dns) = split_sans ss
      in if s = [] then (ips, dns)
         else (case ParseIP s of Some a \<Rightarrow> (a # ips, dns) | None \<Rightarrow> (ips, s # dns)))"

text \<open>Opening truncates; a failed write leaves the truncated file. An open that fails
  leaves the file as it was.\<close>

definition write_file :: "string option \<Rightarrow> string option \<Rightarrow> string \<Rightarrow> content \<Rightarrow> files \<Rightarrow> string option \<times> files" where
  "write_file open_err write_err path c fs =
     (case open_err of
        Some e \<Rightarrow> (Some e, fs)
      | None \<Rightarrow>
          (case write_err of
             Some e \<Rightarrow> (Some e, fs(path \<mapsto> File (Other [])))
           | None \<Rightarrow> (None, fs(path \<mapsto> File c))))"

definition ensureTLS :: "tls_platform \<Rightarrow> string \<Rightarrow> string \<Rightarrow> string list \<Rightarrow> files \<Rightarrow> string option \<times> files" where
  "ensureTLS tp certPath keyPath sans fs =
     (if fileExists fs certPath \<and> fileExists fs keyPath then (None, fs)
      else (case tp_mkdir tp of
          Some e \<Rightarrow> (Some e, fs)
        | None \<Rightarrow>
        (case tp_keygen tp of
          Inl e \<Rightarrow> (Some e, fs)
        | Inr priv \<Rightarrow>
        (case tp_serial tp of
          Inl e \<Rightarrow> (Some e, fs)
        | Inr serial \<Rightarrow>
          (let (ips, dns) = split_sans sans;
               tmpl = \<lparr>ce_serial = serial, ce_name = ''inproxy self-signed'', ce_from = tp_now tp - 3600,
                 ce_until = tp_ten_years tp (tp_now tp), ce_ips = ips, ce_dns = dns, ce_key = priv\<rparr>
           in case tp_create tp tmpl of
                Some e \<Rightarrow> (Some (''create cert: '' @ e), fs)
              | None \<Rightarrow>
                (case write_file (tp_open_cert tp) (tp_write_cert tp) certPath (CertPem tmpl) fs of
                   (Some e, fs1) \<Rightarrow> (Some e, fs1)
                 | (None, fs1) \<Rightarrow>
                     (case tp_marshal tp of
                        Some e \<Rightarrow> (Some e, fs1)
                      | None \<Rightarrow> write_file (tp_open_key tp) (tp_write_key tp) keyPath (KeyPem priv) fs1)))))))"

section \<open>The certificate source\<close>

datatype tls_fatal =
    NeedsExternalHost
  | GenerateFailed string
  | FilesMissing
  | LoadFailed string
  | UnknownMode string

datatype tls_source =
    Autocert
  | KeyPair content content

text \<open>\<open>tls.LoadX509KeyPair\<close> is a parameter on the two contents, an error text or none.\<close>

definition load_pair :: "(content \<Rightarrow> content \<Rightarrow> string option) \<Rightarrow> files \<Rightarrow> string \<Rightarrow> string \<Rightarrow> tls_fatal + tls_source" where
  "load_pair load fs certPath keyPath =
     (case (fs certPath, fs keyPath) of
        (Some (File c), Some (File k)) \<Rightarrow> (case load c k of Some e \<Rightarrow> Inl (LoadFailed e) | None \<Rightarrow> Inr (KeyPair c k))
      | _ \<Rightarrow> Inl (LoadFailed []))"

definition tls_setup ::
  "tls_platform \<Rightarrow> (content \<Rightarrow> content \<Rightarrow> string option) \<Rightarrow> string \<Rightarrow> string \<Rightarrow> string \<Rightarrow> string \<Rightarrow> files
     \<Rightarrow> (tls_fatal + tls_source) \<times> files" where
  "tls_setup tp load tlsMode externalHost certPath keyPath fs =
     (if tlsMode = ''auto'' then
        (if externalHost = [] then (Inl NeedsExternalHost, fs) else (Inr Autocert, fs))
      else if tlsMode = ''self'' then
        (case ensureTLS tp certPath keyPath [''127.0.0.1'', ''::1'', externalHost] fs of
           (Some e, fs1) \<Rightarrow> (Inl (GenerateFailed e), fs1)
         | (None, fs1) \<Rightarrow> (load_pair load fs1 certPath keyPath, fs1))
      else if tlsMode = ''file'' then
        (if \<not> fileExists fs certPath \<or> \<not> fileExists fs keyPath then (Inl FilesMissing, fs)
         else (load_pair load fs certPath keyPath, fs))
      else (Inl (UnknownMode tlsMode), fs))"

section \<open>What the generated pair is\<close>

lemma fileExists_upd [simp]: "fileExists (fs(p \<mapsto> File c)) q \<longleftrightarrow> q = p \<or> fileExists fs q"
  by (simp add: fileExists_def)

lemma split_sans_spec: "split_sans ss = (List.map_filter ParseIP ss, filter (\<lambda>s. s \<noteq> [] \<and> ParseIP s = None) ss)"
proof (induction ss)
  case (Cons s ss)
  have "ParseIP [] = None" by (simp add: ParseIP_def parse_addr_def)
  with Cons show ?case by (auto simp: List.map_filter_def split: option.splits)
qed (simp add: List.map_filter_def)

text \<open>An existing pair is left alone; otherwise success leaves a matching pair, a
  certificate for exactly the names asked for.\<close>

lemma ensureTLS_existing:
  "fileExists fs certPath \<Longrightarrow> fileExists fs keyPath \<Longrightarrow> ensureTLS tp certPath keyPath sans fs = (None, fs)"
  by (simp add: ensureTLS_def)

lemma write_file_None: "write_file a b p c fs = (None, fs') \<longleftrightarrow> a = None \<and> b = None \<and> fs' = fs(p \<mapsto> File c)"
  by (auto simp: write_file_def split: option.splits)

lemma ensureTLS_generates:
  assumes e: "ensureTLS tp certPath keyPath sans fs = (None, fs')" and d: "certPath \<noteq> keyPath"
    and m: "\<not> (fileExists fs certPath \<and> fileExists fs keyPath)"
  shows "\<exists>c. fs' = fs(certPath \<mapsto> File (CertPem c), keyPath \<mapsto> File (KeyPem (ce_key c)))
    \<and> ce_ips c = List.map_filter ParseIP sans \<and> ce_dns c = filter (\<lambda>s. s \<noteq> [] \<and> ParseIP s = None) sans"
proof -
  from e m obtain priv serial fs1 where p: "tp_keygen tp = Inr priv" "tp_serial tp = Inr serial"
    and w: "let c = \<lparr>ce_serial = serial, ce_name = ''inproxy self-signed'', ce_from = tp_now tp - 3600,
        ce_until = tp_ten_years tp (tp_now tp), ce_ips = List.map_filter ParseIP sans,
        ce_dns = filter (\<lambda>s. s \<noteq> [] \<and> ParseIP s = None) sans, ce_key = priv\<rparr>
      in write_file (tp_open_cert tp) (tp_write_cert tp) certPath (CertPem c) fs = (None, fs1)"
      "write_file (tp_open_key tp) (tp_write_key tp) keyPath (KeyPem priv) fs1 = (None, fs')"
    by (auto simp: ensureTLS_def Let_def split_sans_spec split: if_splits option.splits sum.splits prod.splits)
  let ?c = "\<lparr>ce_serial = serial, ce_name = ''inproxy self-signed'', ce_from = tp_now tp - 3600,
    ce_until = tp_ten_years tp (tp_now tp), ce_ips = List.map_filter ParseIP sans,
    ce_dns = filter (\<lambda>s. s \<noteq> [] \<and> ParseIP s = None) sans, ce_key = priv\<rparr>"
  have "fs' = fs(certPath \<mapsto> File (CertPem ?c), keyPath \<mapsto> File (KeyPem (ce_key ?c)))"
    using w by (simp add: write_file_None Let_def)
  then show ?thesis by (intro exI [of _ ?c]) simp
qed

text \<open>A run that fails can only have touched the two files.\<close>

lemma ensureTLS_frame:
  "ensureTLS tp certPath keyPath sans fs = (e, fs') \<Longrightarrow> p \<noteq> certPath \<Longrightarrow> p \<noteq> keyPath \<Longrightarrow> fs' p = fs p"
  by (auto simp: ensureTLS_def write_file_def Let_def split: if_splits option.splits sum.splits prod.splits)

lemmas [model_eval] = fileExists_def write_file_def ensureTLS_def load_pair_def tls_setup_def

end
