(* ===== verification/AccessProps.thy ===== *)
theory AccessProps
  imports Admin Tls Examples
begin

text \<open>
  The properties of what comes in over HTTP: who may use the management interface and what
  it does, how long a session lasts, where a routed request goes, what the redirect to HTTPS
  points at, for which names certificates are obtained. They rest on \<open>Auth\<close>, \<open>Web\<close> and
  \<open>Admin\<close>.
\<close>

section \<open>The management interface\<close>

text \<open>C20: a request is let in exactly when its source address parses and lies in one of the
  networks of the allowlist: it agrees with the entry's address on as many leading bits as the
  entry says, an IPv4 entry holding only addresses with an IPv4 form.\<close>

theorem allowlist_exact:
  assumes "NewAuth pw cidrs = Inr a"
  shows "IPAllowed a remote \<longleftrightarrow>
    (\<exists>ip. source_ip remote = Some ip \<and> (\<exists>c\<in>set (allow_entries cidrs). entry_holds c ip))"
  by (rule IPAllowed_iff [OF assms])

lemma demo_allow: "\<exists>a. NewAuth ''secret'' ''10.8.0.0/24,10.7.0.1/32'' = Inr a \<and> au_password a = ''secret''
    \<and> IPAllowed a ''10.8.0.7:4000'' \<and> \<not> IPAllowed a ''10.9.0.7:4000''"
  by (simp add: NewAuth_def IPAllowed_def model_eval go_eval Let_def)

theorem allowlist_exact_witness:
  "\<exists>a. NewAuth ''secret'' ''10.8.0.0/24,10.7.0.1/32'' = Inr a \<and>
     (\<exists>ip. source_ip ''10.8.0.7:4000'' = Some ip \<and> (\<exists>c\<in>set (allow_entries ''10.8.0.0/24,10.7.0.1/32''). entry_holds c ip))"
proof -
  obtain a where a: "NewAuth ''secret'' ''10.8.0.0/24,10.7.0.1/32'' = Inr a" "IPAllowed a ''10.8.0.7:4000''"
    using demo_allow by blast
  from allowlist_exact [OF a(1)] a show ?thesis by blast
qed

text \<open>C19: with the authenticator made from a password, a session cookie is honoured for exactly
  the twelve hours after it was issued (times within the range of a 64-bit clock), and every cookie
  that is honoured carries the signature of its own expiry time under the key derived from that
  password: HMAC-SHA-256 under SHA-256 of a fixed label and the password.\<close>

theorem session_lifetime:
  assumes "NewAuth pw cidrs = Inr a" "- (2 ^ 63) \<le> t + 43200" "t + 43200 < 2 ^ 63"
    and "map_of cookies sessionCookie = Some (ck_value (IssueCookie a t secure))"
  shows "(SessionValid a cookies now \<longleftrightarrow> now \<le> t + 43200)
    \<and> (\<forall>cs. SessionValid a cs now \<longrightarrow> (\<exists>payload exp. parse_int payload = Some exp \<and> now \<le> exp
         \<and> map_of cs sessionCookie = Some (payload @ CHR ''.'' #
              hex_encode (hmac_sha256 (sha256 (string_bytes (''inproxy-session-key:'' @ pw))) (string_bytes payload)))))"
proof -
  have ttl: "sessionTTL = 43200" by (simp add: sessionTTL_def)
  have key: "sha256 (string_bytes (''inproxy-session-key:'' @ pw)) = au_secret a"
    using assms(1) by (auto simp: NewAuth_def res_iffs)
  have "SessionValid a cookies now \<longleftrightarrow> now \<le> t + 43200"
    using issued_session [of t cookies a secure now] assms(2-4) unfolding ttl by blast
  moreover have "\<forall>cs. SessionValid a cs now \<longrightarrow> (\<exists>payload exp. parse_int payload = Some exp \<and> now \<le> exp
      \<and> map_of cs sessionCookie = Some (payload @ CHR ''.'' # hex_encode (hmac_sha256 (au_secret a) (string_bytes payload))))"
    unfolding SessionValid_iff auth_sign_def by blast
  ultimately show ?thesis unfolding key by blast
qed

theorem session_lifetime_witness:
  "\<exists>a. NewAuth ''secret'' ''10.8.0.0/24,10.7.0.1/32'' = Inr a
    \<and> SessionValid a [(''theme'', ''dark''), (sessionCookie, ck_value (IssueCookie a 1700000000 True))] 1700043200
    \<and> \<not> SessionValid a [(''theme'', ''dark''), (sessionCookie, ck_value (IssueCookie a 1700000000 True))] 1700043201"
proof -
  obtain a where a: "NewAuth ''secret'' ''10.8.0.0/24,10.7.0.1/32'' = Inr a" using demo_allow by blast
  have "map_of [(''theme'', ''dark''), (sessionCookie, v)] sessionCookie = Some v" for v by (simp add: sessionCookie_def)
  from session_lifetime [OF a _ _ this, of 1700000000 True] a show ?thesis by auto
qed

text \<open>C2: nothing gets past the gates: a request that changes anything in the process came from
  an allowed address, carried a valid session, was a POST and did exactly one operation of the
  store; a session cookie is handed out only for the password and only to an allowed address;
  everyone else is forbidden.\<close>

theorem only_signed_in_changes:
  assumes "admin_handler pl io r sv = (rep, sv')"
  shows "(sv' \<noteq> sv \<longrightarrow> IPAllowed (sv_auth sv) (ar_remote r) \<and> SessionValid (sv_auth sv) (ar_cookies r) (ar_now r)
       \<and> ar_method r = ''POST'' \<and> (\<exists>op e. exec_op pl io op sv = (e, sv')))
    \<and> (\<forall>loc c. rep = SeeOther loc (Some c) \<and> ck_value c \<noteq> [] \<longrightarrow>
         IPAllowed (sv_auth sv) (ar_remote r) \<and> ar_method r = ''POST''
         \<and> form_value r ''password'' = au_password (sv_auth sv) \<and> c = IssueCookie (sv_auth sv) (ar_now r) (ar_tls r))
    \<and> (\<not> IPAllowed (sv_auth sv) (ar_remote r) \<longrightarrow> rep = Forbidden)"
proof (intro conjI allI impI)
  assume "sv' \<noteq> sv"
  with admin_handler_cases [of pl io r sv] assms show "IPAllowed (sv_auth sv) (ar_remote r)"
      "SessionValid (sv_auth sv) (ar_cookies r) (ar_now r)" "ar_method r = ''POST''" "\<exists>op e. exec_op pl io op sv = (e, sv')"
    by (auto simp: is_edit_def post_def)
next
  fix loc c
  assume "rep = SeeOther loc (Some c) \<and> ck_value c \<noteq> []"
  with admin_cookie [of pl io r sv loc c] assms show "IPAllowed (sv_auth sv) (ar_remote r)" "ar_method r = ''POST''"
      "form_value r ''password'' = au_password (sv_auth sv)" "c = IssueCookie (sv_auth sv) (ar_now r) (ar_tls r)"
    by (auto simp: post_def)
next
  assume "\<not> IPAllowed (sv_auth sv) (ar_remote r)"
  with assms show "rep = Forbidden" by (simp add: admin_handler_def)
qed

definition demo_signin :: admin_request where
  "demo_signin = \<lparr>ar_remote = ''10.8.0.7:4000'', ar_method = ''POST'', ar_path = ''/_admin/login'', ar_query = [],
     ar_form = [(''password'', ''secret'')], ar_cookies = [], ar_tls = True, ar_now = 1700000000\<rparr>"

definition demo_server :: "auth \<Rightarrow> unit server" where
  "demo_server a = \<lparr>sv_store = demo_ready, sv_auth = a, sv_fwd = NewForwarder [],
     sv_dnat = \<lparr>dg_kernel = (), dg_status = [], dg_last = []\<rparr>, sv_router = NewDomainRouter True 443 80 [], sv_own = []\<rparr>"

lemma demo_signed_in:
  assumes "au_password a = ''secret''" "IPAllowed a ''10.8.0.7:4000''"
  shows "admin_handler pl io demo_signin (demo_server a) =
    (SeeOther ''/_admin'' (Some (IssueCookie a 1700000000 True)), demo_server a)"
  using assms by (simp add: admin_handler_def demo_signin_def demo_server_def serve_route_def login_def post_def
      form_value_def CheckPassword_def SessionValid_def admin_route_def admin_patterns_def model_eval go_eval Let_def)

theorem only_signed_in_changes_witness:
  "\<exists>a. IPAllowed a ''10.8.0.7:4000'' \<and> form_value demo_signin ''password'' = au_password a"
proof -
  obtain a where a: "au_password a = ''secret''" "IPAllowed a ''10.8.0.7:4000''" using demo_allow by blast
  have "ck_value (IssueCookie a 1700000000 True) \<noteq> []" by (simp add: IssueCookie_def Let_def)
  with only_signed_in_changes [OF demo_signed_in [OF a]] a(2) show ?thesis
    by (auto simp: demo_server_def)
qed

text \<open>When the file cannot be written, saving a new forward reports the error and yet leaves
  the forward in the configuration in memory; its listener was never started, and the page shows
  it as running.\<close>

theorem unsaved_forward_shown_as_running:
  assumes "forwards_live (st_forwards (sv_store sv)) (sv_fwd sv)"
    and "validateForward f0 = Inr f" "fw_enabled f" "edit_forwards [] f (st_forwards (sv_store sv)) = Inr xs"
  shows "\<exists>sv' rows n e. exec_op pl (IoWriteError m) (OpUpsertForward [] f0) sv = (Some (WriteFailed m), sv')
    \<and> forwards_page sv' r = Page (ForwardsPage rows n e) \<and> (f, ''running'') \<in> set rows
    \<and> fw_name f \<notin> fst ` set (fr_active (sv_fwd sv'))"
  by (rule unsaved_forward_shown_running [OF assms])

definition demo_access_pl :: "unit platform" where
  "demo_access_pl = \<lparr>pl_refuse = \<lambda>_ _. None, pl_resolve = \<lambda>_. None, pl_iptables = \<lambda>_ k. (None, k), pl_addr_text = \<lambda>_. [],
     pl_err_text = \<lambda>_. ''refused'',
     pl_json_text = \<lambda>_. ''bad JSON'', pl_nil_routes = \<lambda>_. False, pl_nil_forwards = \<lambda>_. False\<rparr>"

theorem unsaved_forward_shown_as_running_witness:
  "\<exists>a sv' rows n e. exec_op demo_access_pl (IoWriteError ''disk full'') (OpUpsertForward [] demo_forward) (demo_server a) =
      (Some (WriteFailed ''disk full''), sv')
    \<and> forwards_page sv' demo_signin = Page (ForwardsPage rows n e) \<and> (demo_forward, ''running'') \<in> set rows"
proof -
  obtain a where "NewAuth ''secret'' ''10.8.0.0/24,10.7.0.1/32'' = Inr a" using demo_allow by blast
  have st: "st_forwards (sv_store (demo_server a)) = []" by (simp add: demo_server_def demo_states blank_store_def)
  have "forwards_live [] (sv_fwd (demo_server a))" by (simp add: forwards_live_def demo_server_def NewForwarder_def)
  moreover have "fw_enabled demo_forward" "edit_forwards [] demo_forward [] = Inr [demo_forward]"
    by (simp_all add: demo_forward_def model_eval)
  ultimately show ?thesis
    using unsaved_forward_shown_as_running [OF _ demo_forward_valid, of "demo_server a" "[demo_forward]" demo_access_pl "''disk full''" demo_signin]
    unfolding st by blast
qed

section \<open>Requests\<close>

text \<open>C14: a request to a host and path with an enabled route leaves for the route's backend:
  scheme, host and \<open>Host\<close> header are those of the target, the path is the request's, without
  the prefix when the route says so, behind the target's own path with one slash between, the
  query and method unchanged, the prefix in \<open>X-Forwarded-Prefix\<close>.\<close>

theorem routed_request_reaches_backend:
  assumes "config_ok (config_of s)" "synced s"
    and "st \<in> set (st_sites s)" "hs_host st = to_lower (hostOnly (rq_host rq))"
    and "r \<in> set (hs_routes st)" "rt_enabled r" "url_parse (rt_target r) = Inr u"
    and "rq_path rq = slash # rt_prefix r @ rest" "rest = [] \<or> has_prefix rest [slash]"
  shows "\<exists>out. forwarded (proxyHandler s p (rq_host rq) (rq_path rq)) rq = Some out
    \<and> rq_url_scheme out = u_scheme u \<and> rq_url_host out = u_host u \<and> rq_host out = u_host u
    \<and> rq_query out = rq_query rq \<and> rq_method out = rq_method rq
    \<and> rq_path out = (let tail = (if \<not> rt_strip r then rq_path rq else if rest = [] then ''/'' else rest)
                     in (if has_suffix (u_path u) ''/'' then butlast (u_path u) else u_path u) @ tail)
    \<and> header_get ''X-Forwarded-Prefix'' (rq_header out) = slash # rt_prefix r"
  by (rule routed_request [OF assms])

definition demo_request :: request where
  "demo_request = \<lparr>rq_method = ''GET'', rq_url_scheme = [], rq_url_host = [], rq_path = ''/api/v1'', rq_raw_path = [],
     rq_query = ''x=1'', rq_host = ''App.Example.com:443'', rq_header = [], rq_tls = True, rq_remote = ''192.0.2.1:40000''\<rparr>"

theorem routed_request_reaches_backend_witness:
  "\<exists>out. forwarded (proxyHandler demo_store 443 ''App.Example.com:443'' ''/api/v1'') demo_request = Some out
    \<and> rq_url_host out = ''10.0.0.5:8080'' \<and> rq_path out = ''/v1'' \<and> rq_query out = ''x=1''"
proof -
  let ?r = "hd (hs_routes demo_site)"
  have site: "demo_site \<in> set (st_sites demo_store)" "hs_host demo_site = to_lower (hostOnly (rq_host demo_request))"
      "?r \<in> set (hs_routes demo_site)" "rt_enabled ?r"
    by (simp_all add: demo_site_def demo_request_def model_eval go_eval)
  have url: "url_parse (rt_target ?r) = Inr \<lparr>u_scheme = ''http'', u_opaque = [], u_host = ''10.0.0.5:8080'', u_path = []\<rparr>"
    by (simp add: demo_site_def model_eval go_eval Let_def)
  have path: "rq_path demo_request = slash # rt_prefix ?r @ ''/v1''" "''/v1'' = [] \<or> has_prefix ''/v1'' [slash]"
    by (simp_all add: demo_site_def demo_request_def has_prefix_iff)
  from routed_request_reaches_backend [OF demo_ok demo_synced site url path, of 443] show ?thesis
    by (auto simp: demo_site_def demo_request_def has_suffix_def Let_def)
qed



text \<open>A target is not checked to be a host and a port: with \<open>a/b:80\<close> the requests of the domain go to
  host \<open>a\<close>, under a path.\<close>

definition slash_forward :: port_forward where
  "slash_forward = (hd (dm_forwards demo_domain))\<lparr>pf_target := ''a/b:80''\<rparr>"

lemma slash_target_sent:
  "validateDomain (demo_domain\<lparr>dm_forwards := [slash_forward]\<rparr>) = Inr (demo_domain\<lparr>dm_forwards := [slash_forward]\<rparr>)"
  "\<exists>p. buildTerminateProxy ''mail.example.com'' slash_forward = Inr p
    \<and> rq_url_host (terminate_director p demo_request) = ''a''
    \<and> rq_path (terminate_director p demo_request) = ''/b:80'' @ rq_path demo_request"
  by (simp_all add: slash_forward_def demo_domain_def demo_request_def model_eval go_eval Let_def)

text \<open>C36: for a request in origin form whose host, query and HTTPS port are ASCII, and whose host is
  not a bracketed address, the redirect to HTTPS names the host asked for, the port of the
  HTTPS listener unless it is 443, and a request line that parses to the very path and query of the
  request.\<close>

theorem redirect_keeps_resource:
  assumes "has_prefix raw [slash]" "ParseRequestURI raw = Inr u"
    and "\<forall>c\<in>set (hostOnly rhost @ port @ ru_query u). byte_of c < 128"
    and "\<not> has_prefix rhost [obrack]"
  shows "(rhost = hostOnly rhost \<or> (\<exists>p. rhost = hostOnly rhost @ colon # p \<and> colon \<notin> set (hostOnly rhost @ p)))
    \<and> (\<exists>uri v. redirectToHTTPS port rhost u =
      ''https://'' @ hostOnly rhost @ (if port \<noteq> [] \<and> port \<noteq> ''443'' then '':'' @ port else []) @ uri
    \<and> has_prefix uri [slash] \<and> ParseRequestURI uri = Inr v \<and> ru_path v = ru_path u \<and> ru_query v = ru_query u)"
proof -
  have "rhost = hostOnly rhost \<or> (\<exists>p. rhost = hostOnly rhost @ colon # p \<and> colon \<notin> set (hostOnly rhost @ p))"
  proof (cases "split_host_port rhost")
    case (Inr hp)
    obtain h p where hp: "hp = (h, p)" by fastforce
    with Inr assms(4) split_host_port_Inr [of rhost h p] show ?thesis by (auto simp: hostOnly_def has_prefix_Cons_iff)
  qed (simp add: hostOnly_def)
  with redirect_same_resource [OF assms(1-3)] show ?thesis by blast
qed

text \<open>The brackets of an address with a port are lost.\<close>

lemma redirect_drops_brackets:
  "redirectToHTTPS ''443'' ''[2001:db8::1]:80'' u = hex_escape_non_ascii (''https://2001:db8::1'' @ RequestURI u)"
  by (simp add: redirectToHTTPS_def hostOnly_def go_eval)

theorem redirect_keeps_resource_witness:
  "\<exists>u uri. ParseRequestURI ''/a%20b?x=1'' = Inr u \<and> ru_path u = ''/a b''
    \<and> redirectToHTTPS ''8443'' ''example.com:80'' u = ''https://example.com:8443'' @ uri \<and> has_prefix uri [slash]"
proof -
  obtain u where u: "ParseRequestURI ''/a%20b?x=1'' = Inr u" "ru_path u = ''/a b''" "ru_query u = ''x=1''"
    by (simp add: model_eval go_eval Let_def char_of_def bit_0)
  have h: "hostOnly ''example.com:80'' = ''example.com''" by (simp add: model_eval go_eval)
  have sp: "\<not> has_prefix ''example.com:80'' [obrack]" by (simp add: has_prefix_Cons_iff)
  have "\<forall>c\<in>set (hostOnly ''example.com:80'' @ ''8443'' @ ru_query u). byte_of c < 128" by (simp add: h u(3))
  from redirect_keeps_resource [OF _ u(1) this sp] u show ?thesis by (auto simp: h has_prefix_def)
qed

text \<open>C33: in automatic mode a certificate is obtained for exactly the main host, the hosts of
  the sites and the domains with an enabled forward whose certificate is managed here, all
  compared without case.\<close>

theorem certificate_hosts_exact:
  assumes "config_ok (config_of s)" "synced s"
  shows "HostPolicy s ext host \<longleftrightarrow>
    to_lower host = to_lower ext
    \<or> (\<exists>st\<in>set (st_sites s). hs_host st = to_lower host)
    \<or> (\<exists>d\<in>set (st_domains s). dm_host d = to_lower host \<and> (\<exists>f\<in>set (dm_forwards d). pf_enabled f \<and> pf_manage f))"
  by (rule HostPolicy_exact [OF assms])

theorem certificate_hosts_exact_witness:
  "HostPolicy demo_store ''vpn.example.com'' ''Mail.example.com'' \<and> \<not> HostPolicy demo_store ''vpn.example.com'' ''evil.example.com''"
  unfolding certificate_hosts_exact [OF demo_ok demo_synced]
  by (simp add: demo_domain_def demo_site_def to_lower_def go_eval)

section \<open>The data of the pages\<close>

lemma parse_sites_json:
  "parse_json (sites_json nilr sites) = Inr (JArr (map (\<lambda>s. enc_site (nilr s) (valid_site s)) sites))"
proof -
  have "json_depth (enc_site isnil s) \<le> 3" for isnil s
    using json_depth_slice(1) [of "hs_routes s" enc_route 1 isnil] by (simp add: enc_site_def json_depth_enc)
  then have "json_depth (JArr (map (\<lambda>s. enc_site (nilr s) s) sites)) \<le> max_depth"
    using json_depth_slice(2) [of sites "\<lambda>s. enc_site (nilr s) s" 3] by (simp add: max_depth_def)
  then show ?thesis
    unfolding sites_json_def Marshal_def by (subst parse_print) (simp_all add: json_ints_enc valid_enc_site comp_def)
qed

lemma parse_domains_json:
  "parse_json (domains_json nilf domains) = Inr (JArr (map (\<lambda>d. enc_domain (nilf d) (valid_domain d)) domains))"
proof -
  have "json_depth (enc_domain isnil d) \<le> 3" for isnil d
    using json_depth_slice(1) [of "dm_forwards d" enc_pf 1 isnil] by (simp add: enc_domain_def json_depth_enc)
  then have "json_depth (JArr (map (\<lambda>d. enc_domain (nilf d) d) domains)) \<le> max_depth"
    using json_depth_slice(2) [of domains "\<lambda>d. enc_domain (nilf d) d" 3] by (simp add: max_depth_def)
  then show ?thesis
    unfolding domains_json_def Marshal_def by (subst parse_print) (simp_all add: json_ints_enc valid_enc_domain comp_def)
qed

text \<open>C32: the pages put the stored lists into a script as text that the template does not
  escape: whatever the entries hold, that text has no byte that could end the script or begin
  an entity, and it parses to the entries listed with every byte that is not UTF-8 replaced by
  U+FFFD; to exactly those entries when their texts are UTF-8.\<close>

theorem page_json_exact:
  "\<exists>js ds n e n' e'.
      dashboard pl sv r = Page (SitesPage (st_sites (sv_store sv)) js n e)
    \<and> domains_page pl sv r = Page (DomainsPage (st_domains (sv_store sv)) ds n' e')
    \<and> (set js \<union> set ds) \<inter> set ''<>&'' = {} \<and> line_feed \<notin> set js \<union> set ds
    \<and> parse_json js = Inr (JArr (map (\<lambda>s. enc_site (pl_nil_routes pl s) (valid_site s)) (st_sites (sv_store sv))))
    \<and> parse_json ds = Inr (JArr (map (\<lambda>d. enc_domain (pl_nil_forwards pl d) (valid_domain d)) (st_domains (sv_store sv))))
    \<and> (config_utf8 (config_of (sv_store sv)) \<longrightarrow>
         parse_json js = Inr (JArr (map (\<lambda>s. enc_site (pl_nil_routes pl s) s) (st_sites (sv_store sv))))
         \<and> parse_json ds = Inr (JArr (map (\<lambda>d. enc_domain (pl_nil_forwards pl d) d) (st_domains (sv_store sv)))))"
proof -
  let ?js = "sites_json (pl_nil_routes pl) (st_sites (sv_store sv))" and ?ds = "domains_json (pl_nil_forwards pl) (st_domains (sv_store sv))"
  have "json_ints (JArr (map (\<lambda>s. enc_site (nilr s) s) xs))" for nilr xs by (simp add: json_ints_enc)
  then have js: "\<forall>x\<in>set ?js. inert_char x" unfolding sites_json_def Marshal_def by (blast intro: print_inert)
  have "json_ints (JArr (map (\<lambda>d. enc_domain (nilf d) d) xs))" for nilf xs by (simp add: json_ints_enc)
  then have ds: "\<forall>x\<in>set ?ds. inert_char x" unfolding domains_json_def Marshal_def by (blast intro: print_inert)
  have "(set ?js \<union> set ?ds) \<inter> set ''<>&'' = {}" "line_feed \<notin> set ?js \<union> set ?ds"
    using js ds unfolding inert_char_def by (blast, fastforce)
  moreover have "map valid_site (st_sites (sv_store sv)) = st_sites (sv_store sv) \<and> map valid_domain (st_domains (sv_store sv)) = st_domains (sv_store sv)"
    if "config_utf8 (config_of (sv_store sv))"
    using arg_cong [where f = cf_sites, OF valid_config_id [OF that]] arg_cong [where f = cf_domains, OF valid_config_id [OF that]]
    by (simp add: valid_config_def)
  then have "config_utf8 (config_of (sv_store sv)) \<longrightarrow>
      map (\<lambda>s. enc_site (pl_nil_routes pl s) (valid_site s)) (st_sites (sv_store sv)) = map (\<lambda>s. enc_site (pl_nil_routes pl s) s) (st_sites (sv_store sv))
      \<and> map (\<lambda>d. enc_domain (pl_nil_forwards pl d) (valid_domain d)) (st_domains (sv_store sv)) = map (\<lambda>d. enc_domain (pl_nil_forwards pl d) d) (st_domains (sv_store sv))"
    by (auto simp: list_eq_iff_nth_eq)
  ultimately show ?thesis
    by (simp add: dashboard_def domains_page_def ListSites_def ListDomains_def parse_sites_json parse_domains_json)
qed

theorem page_json_exact_witness:
  "\<forall>pl (sv :: 's server) r. \<exists>js n e.
      dashboard pl (sv\<lparr>sv_store := demo_store\<rparr>) r = Page (SitesPage [demo_site] js n e)
    \<and> set js \<inter> set ''<>&'' = {} \<and> parse_json js = Inr (JArr [enc_site (pl_nil_routes pl demo_site) demo_site])"
proof (intro allI)
  fix pl :: "'s platform" and sv :: "'s server" and r
  have "config_of demo_store = demo_config" by (simp add: config_of_def demo_config_def)
  then have utf8: "config_utf8 (config_of demo_store)" using demo_text_safe(1) by (simp add: text_safe_def)
  from page_json_exact [of pl "sv\<lparr>sv_store := demo_store\<rparr>" r] utf8 show "\<exists>js n e.
      dashboard pl (sv\<lparr>sv_store := demo_store\<rparr>) r = Page (SitesPage [demo_site] js n e)
    \<and> set js \<inter> set ''<>&'' = {} \<and> parse_json js = Inr (JArr [enc_site (pl_nil_routes pl demo_site) demo_site])"
    by auto
qed

end
