(* ===== verification/Startup.thy ===== *)
theory Startup
  imports Server Tls
begin

text \<open>
  The whole of \<open>main\<close> up to the signal: the settings read from the environment, the components
  brought up, the certificate source, the domain router, the three servers. A failure is
  \<open>log.Fatal\<close>: the process exits at once and its sockets go with it, but what it has
  told the kernel stays, so the kernel is part of that outcome.
\<close>

record settings =
  se_proxy :: string
  se_redirect :: string
  se_admin :: string
  se_admin_tls :: bool
  se_cidr :: string
  se_config :: string
  se_mode :: string
  se_host :: string
  se_acme_cache :: string
  se_acme_email :: string
  se_cert :: string
  se_key :: string
  se_password :: string

definition read_settings :: "(string \<Rightarrow> string) \<Rightarrow> settings" where
  "read_settings getenv =
     \<lparr>se_proxy = env getenv ''PROXY_ADDR'' '':443'', se_redirect = env getenv ''HTTP_REDIRECT_ADDR'' '':80'',
      se_admin = env getenv ''ADMIN_ADDR'' '':8443'', se_admin_tls = (env getenv ''ADMIN_TLS'' ''false'' = ''true''),
      se_cidr = env getenv ''INTERNAL_CIDR'' ''10.8.0.0/24,127.0.0.1/32,::1/128'',
      se_config = env getenv ''CONFIG_PATH'' ''/etc/inproxy/config.json'', se_mode = env getenv ''TLS_MODE'' ''auto'',
      se_host = env getenv ''EXTERNAL_HOST'' [], se_acme_cache = env getenv ''ACME_CACHE'' ''/etc/inproxy/acme'',
      se_acme_email = env getenv ''ACME_EMAIL'' [], se_cert = env getenv ''TLS_CERT'' ''/etc/inproxy/tls/cert.pem'',
      se_key = env getenv ''TLS_KEY'' ''/etc/inproxy/tls/key.pem'', se_password = getenv ''ADMIN_PASSWORD''\<rparr>"

datatype start_failure = BootFailed fatal | TlsFailed tls_fatal | AdminTlsFailed tls_fatal

datatype 's outcome = Exited start_failure "'s" | Running "'s server" tls_source

text \<open>The management server loads its own copy of the key pair when it is to use HTTPS
  (\<open>ListenAndServeTLS\<close>, after listening); it does so in its goroutine, whose failure ends the
  process like any other.\<close>

definition main_start ::
  "'s platform \<Rightarrow> tls_platform \<Rightarrow> (content \<Rightarrow> content \<Rightarrow> string option) \<Rightarrow> (string \<Rightarrow> string)
     \<Rightarrow> string option \<Rightarrow> io_result \<Rightarrow> file_read \<Rightarrow> files \<Rightarrow> 's \<Rightarrow> 's outcome \<times> files" where
  "main_start pl tp load getenv mkdirErr io doc fs krn =
     (let se = read_settings getenv
      in case boot_components pl getenv mkdirErr io doc krn of
           Inl f \<Rightarrow> (Exited (BootFailed f) krn, fs)
         | Inr sv \<Rightarrow>
             (case tls_setup tp load (se_mode se) (se_host se) (se_cert se) (se_key se) fs of
                (Inl e, fs1) \<Rightarrow> (Exited (TlsFailed e) (dg_kernel (sv_dnat sv)), fs1)
              | (Inr src, fs1) \<Rightarrow>
                  (let sv1 = boot_router pl getenv True sv
                   in case start_servers pl getenv sv1 of
                        Inl f \<Rightarrow> (Exited (BootFailed f) (dg_kernel (sv_dnat sv1)), fs1)
                      | Inr sv2 \<Rightarrow>
                          (case (if se_admin_tls se then load_pair load fs1 (se_cert se) (se_key se) else Inr src) of
                             Inl e \<Rightarrow> (Exited (AdminTlsFailed e) (dg_kernel (sv_dnat sv2)), fs1)
                           | Inr _ \<Rightarrow> (Running sv2 src, fs1)))))"

lemma main_start_running:
  "main_start pl tp load getenv mk io doc fs krn = (Running sv src, fs') \<longleftrightarrow>
     (\<exists>sv0. boot pl getenv mk io doc True krn = Inr sv0 \<and> start_servers pl getenv sv0 = Inr sv)
     \<and> tls_setup tp load (se_mode (read_settings getenv)) (se_host (read_settings getenv))
         (se_cert (read_settings getenv)) (se_key (read_settings getenv)) fs = (Inr src, fs')
     \<and> (se_admin_tls (read_settings getenv) \<longrightarrow>
          (\<exists>pair. load_pair load fs' (se_cert (read_settings getenv)) (se_key (read_settings getenv)) = Inr pair))"
  by (auto simp: main_start_def boot_def Let_def res_iffs split: sum.splits prod.splits if_splits)

section \<open>What a failed start leaves behind\<close>

lemma boot_components_dnat:
  assumes "boot_components pl getenv mk io doc krn = Inr sv"
  shows "\<exists>s m. NewStore mk io doc (env getenv ''EXTERNAL_HOST'' []) = Inr s \<and> dg_kernel m = krn
    \<and> sv_dnat sv = DNATApply (pl_iptables pl) (pl_addr_text pl) (st_dnat s) m"
proof -
  from assms obtain s where s: "NewStore mk io doc (env getenv ''EXTERNAL_HOST'' []) = Inr s"
      "sv_dnat sv = DNATApply (pl_iptables pl) (pl_addr_text pl) (st_dnat s) (NewDNATManager krn)"
    by (auto simp: boot_components_def Let_def res_iffs apply_forwards_def apply_dnat_def split: if_splits)
  then show ?thesis by (intro exI [of _ s] exI [of _ "NewDNATManager krn"]) simp
qed

lemma boot_components_kernel:
  assumes "boot_components pl getenv mk io doc krn = Inr sv"
    and "iptables_spec (pl_iptables pl) view" "reliable accepts (pl_iptables pl) view"
    and "view krn ''PREROUTING'' = Some pre" "view krn ''POSTROUTING'' = Some post"
  shows "\<exists>s. NewStore mk io doc (env getenv ''EXTERNAL_HOST'' []) = Inr s
    \<and> (config_ok (config_of s) \<longrightarrow> view (dg_kernel (sv_dnat sv)) = built accepts (view krn) (st_dnat s) pre post)"
proof -
  from boot_components_dnat [OF assms(1)] obtain s m where s: "NewStore mk io doc (env getenv ''EXTERNAL_HOST'' []) = Inr s"
    and m: "dg_kernel m = krn" "sv_dnat sv = DNATApply (pl_iptables pl) (pl_addr_text pl) (st_dnat s) m" by blast
  have "view (dg_kernel (sv_dnat sv)) = built accepts (view krn) (st_dnat s) pre post" if "config_ok (config_of s)"
    using DNATApply_reliable [OF assms(2,3) config_targets_split [OF that], of m] assms(4,5) m by simp
  with s show ?thesis by blast
qed

lemma boot_router_dnat [simp]: "sv_dnat (boot_router pl getenv tls sv) = sv_dnat sv"
  by (simp add: boot_router_def apply_domains_def Let_def)

lemma start_servers_dnat: "start_servers pl getenv sv = Inr sv' \<Longrightarrow> sv_dnat sv' = sv_dnat sv"
  by (drule start_servers_own) auto

lemma main_start_exited:
  assumes "main_start pl tp load getenv mk io doc fs krn = (Exited e krn', fs')"
  obtains (early) f where "e = BootFailed f" "boot_components pl getenv mk io doc krn = Inl f" "krn' = krn" "fs' = fs"
  | (late) sv where "boot_components pl getenv mk io doc krn = Inr sv" "krn' = dg_kernel (sv_dnat sv)"
proof (cases "boot_components pl getenv mk io doc krn")
  case (Inl f)
  with assms show ?thesis by (intro early [of f]) (simp_all add: main_start_def)
next
  case (Inr sv)
  have "sv_dnat sv2 = sv_dnat sv" if "start_servers pl getenv (boot_router pl getenv True sv) = Inr sv2" for sv2
    using start_servers_dnat [OF that] by simp
  with assms Inr have "krn' = dg_kernel (sv_dnat sv)"
    by (simp add: main_start_def Let_def split: sum.splits prod.splits if_splits)
  with Inr show ?thesis by (rule late)
qed

text \<open>Which failures come before anything is told to the kernel.\<close>

definition before_kernel :: "start_failure \<Rightarrow> bool" where
  "before_kernel e \<longleftrightarrow> (case e of
     BootFailed NoPassword \<Rightarrow> True
   | BootFailed (ConfigFailed x) \<Rightarrow> True
   | BootFailed (BadAllowlist x) \<Rightarrow> True
   | _ \<Rightarrow> False)"

lemma boot_components_error: "boot_components pl getenv mk io doc krn = Inl f \<Longrightarrow> before_kernel (BootFailed f)"
  by (auto simp: boot_components_def Let_def res_iffs before_kernel_def split: if_splits)

lemma listen_errors:
  "listen_main pl addr sv = Inl f \<Longrightarrow> \<not> before_kernel (BootFailed f)"
  "run_server pl name addr sv = Inl f \<Longrightarrow> \<not> before_kernel (BootFailed f)"
  by (auto simp: listen_main_def run_server_def before_kernel_def split: prod.splits option.splits)

lemma start_servers_error: "start_servers pl getenv sv = Inl f \<Longrightarrow> \<not> before_kernel (BootFailed f)"
  by (auto simp: start_servers_def Let_def res_iffs dest: listen_errors split: if_splits)

lemma main_start_late: "main_start pl tp load getenv mk io doc fs krn = (Exited e krn', fs') \<Longrightarrow>
    boot_components pl getenv mk io doc krn = Inr sv \<Longrightarrow> \<not> before_kernel e"
  by (auto simp: main_start_def Let_def before_kernel_def split: sum.splits prod.splits if_splits
      dest!: start_servers_error)

section \<open>Starting again\<close>

text \<open>A certificate pair is generated once: the start after a successful one finds it.\<close>

lemma ensureTLS_exists:
  "ensureTLS tp certPath keyPath sans fs = (None, fs') \<Longrightarrow> fileExists fs' certPath \<and> fileExists fs' keyPath"
  by (auto simp: ensureTLS_def write_file_None Let_def split: if_splits option.splits sum.splits prod.splits)

lemma tls_setup_again:
  assumes "tls_setup tp load mode host certPath keyPath fs = (Inr src, fs')"
  shows "tls_setup tp' load mode host certPath keyPath fs' = (Inr src, fs')"
  using assms
  by (auto simp: tls_setup_def ensureTLS_existing split: if_splits option.splits prod.splits dest: ensureTLS_exists)

lemma start_servers_willing: "willing pl \<Longrightarrow> \<exists>own. start_servers pl getenv sv = Inr (sv\<lparr>sv_own := own\<rparr>)"
  by (auto simp: start_servers_def listen_main_def run_server_def net_listen_def beside_willing Let_def)

text \<open>The router keeps the two ports it leaves to the others.\<close>

lemma deliver_router [simp]:
  "ro_main (sv_router (deliver pl n sv)) = ro_main (sv_router sv)"
  "ro_http (sv_router (deliver pl n sv)) = ro_http (sv_router sv)"
  by (cases n; simp add: apply_forwards_def apply_dnat_def apply_domains_def)+

lemma fold_deliver_router [simp]:
  "ro_main (sv_router (fold (deliver pl) ns sv)) = ro_main (sv_router sv)"
  "ro_http (sv_router (fold (deliver pl) ns sv)) = ro_http (sv_router sv)"
  by (induction ns arbitrary: sv) simp_all

lemma server_run_router:
  "server_run pl sv0 sv \<Longrightarrow> ro_main (sv_router sv) = ro_main (sv_router sv0) \<and> ro_http (sv_router sv) = ro_http (sv_router sv0)"
  by (induction rule: server_run.induct) (auto simp: exec_op_def split: prod.splits)

lemma boot_router_ports:
  assumes "boot pl getenv mk io doc tls krn = Inr sv"
  shows "ro_main (sv_router sv) = main_port (env getenv ''PROXY_ADDR'' '':443'')"
    and "ro_http (sv_router sv) = redirect_port (env getenv ''HTTP_REDIRECT_ADDR'' '':80'')"
  using assms by (auto simp: boot_def boot_router_def res_iffs Let_def apply_domains_def NewDomainRouter_def)

text \<open>What is served determines the sockets that are held.\<close>

lemma served_forward_sockets:
  assumes "live view sv" "all_served sv" "config_ok (config_of (sv_store sv))"
  shows "mset (fr_held (sv_fwd sv)) = (\<Sum>w\<leftarrow>filter fw_enabled (st_forwards (sv_store sv)). proto_sockets w)"
proof -
  let ?fws = "st_forwards (sv_store sv)"
  have "fw_name w \<in> fst ` set (fr_active (sv_fwd sv)) \<longleftrightarrow> fw_enabled w" if "w \<in> set ?fws" for w
  proof
    assume "fw_name w \<in> fst ` set (fr_active (sv_fwd sv))"
    then obtain v where v: "v \<in> set ?fws" "fw_name v = fw_name w" "fw_enabled v"
      using assms(1) by (auto simp: live_def forwards_live_def)
    with that config_names [OF assms(3)] have "v = w" by (auto simp: distinct_map inj_on_def)
    with v show "fw_enabled w" by simp
  qed (use assms(2) that in \<open>simp add: all_served_def\<close>)
  then have "filter (\<lambda>w. fw_name w \<in> fst ` set (fr_active (sv_fwd sv))) ?fws = filter fw_enabled ?fws"
    by (rule filter_cong [OF refl])
  with assms(1) show ?thesis by (simp add: live_def forwards_live_def)
qed

lemma served_port_sockets:
  assumes "server_ok sv" "all_served sv"
  shows "mset (ro_held (sv_router sv)) = mset (map port_socket (wanted_ports (sv_router sv) (sv_store sv)))"
proof -
  have r: "router_ok (sv_router sv)" "synced (sv_store sv)" using assms(1) by (simp_all add: server_ok_def)
  have "set (map fst (ro_active (sv_router sv))) = set (wanted_ports (sv_router sv) (sv_store sv))"
    using assms(2) by (simp add: all_served_def)
  then have "mset (map fst (ro_active (sv_router sv))) = mset (wanted_ports (sv_router sv) (sv_store sv))"
    using r wanted_ports_distinct [OF r(2), of "sv_router sv"]
    by (subst (asm) set_eq_iff_mset_eq_distinct) (simp_all add: router_ok_def)
  then have "image_mset port_socket (mset (map fst (ro_active (sv_router sv)))) =
      image_mset port_socket (mset (wanted_ports (sv_router sv) (sv_store sv)))" by simp
  then show ?thesis by (simp add: router_sockets [OF r(1)] multiset.map_comp comp_def)
qed

text \<open>Whether a start gets as far as the router depends on the file and the environment only.\<close>

lemma boot_again:
  assumes "boot pl getenv mk io doc tls krn = Inr sv" "NewStore mk2 io2 doc2 (env getenv ''EXTERNAL_HOST'' []) = Inr s"
  shows "\<exists>sv2. boot pl getenv mk2 io2 doc2 tls krn2 = Inr sv2 \<and> config_of (sv_store sv2) = config_of s"
proof -
  from assms obtain sv2 where sv2: "boot pl getenv mk2 io2 doc2 tls krn2 = Inr sv2"
    by (auto simp: boot_defs Let_def res_iffs split: if_splits)
  with boot_store [OF sv2] assms(2) show ?thesis by auto
qed

text \<open>The kernel after a shutdown, and after the next start.\<close>

lemma shut_down_kernel:
  assumes "kernel_exact accepts view t pre post sv" "iptables_spec (pl_iptables pl) view" "reliable accepts (pl_iptables pl) view"
  shows "view (dg_kernel (sv_dnat (shut_down pl sv))) = built accepts t [] pre post"
proof -
  have k: "view (dg_kernel (sv_dnat sv)) = built accepts t (st_dnat (sv_store sv)) pre post"
    using assms(1) by (simp add: kernel_exact_def)
  then have "view (dg_kernel (sv_dnat (shut_down pl sv))) = (built accepts t (st_dnat (sv_store sv)) pre post)(dnatChain \<mapsto> [], postChain \<mapsto> [])"
    unfolding shut_down_def using DNATShutdown_reliable [OF assms(2,3), of "sv_dnat sv"] by (simp add: built_def)
  then show ?thesis by (auto simp: built_def dnat_rules_def masq_rules_def fun_eq_iff)
qed

lemma boot_kernel_again:
  assumes "boot pl getenv mk io doc tls krn = Inr sv" "config_ok (config_of (sv_store sv))"
    and "iptables_spec (pl_iptables pl) view" "reliable accepts (pl_iptables pl) view" "view krn = built accepts t rules pre post"
  shows "kernel_exact accepts view t pre post sv"
proof -
  have "view krn ''PREROUTING'' = Some (with_jump ''-I'' dnatChain pre)"
    "view krn ''POSTROUTING'' = Some (with_jump ''-A'' postChain post)"
    using assms(5) by (simp_all add: built_def)
  with boot_kernel [where view = view, OF assms(1-4)] have
      "kernel_exact accepts view (view krn) (with_jump ''-I'' dnatChain pre) (with_jump ''-A'' postChain post) sv" by simp
  then show ?thesis by (simp add: kernel_exact_def assms(5) built_again)
qed

lemmas [model_eval] = read_settings_def main_start_def before_kernel_def

end
