(* ===== verification/StartupProps.thy ===== *)
theory StartupProps
  imports Startup ProcessProps
begin

text \<open>
  The properties of a start of the program as a whole: what a start that fails leaves in the
  kernel, and that a restart resumes where the process before it was shut down. They rest on
  \<open>Startup\<close>, \<open>Server\<close> and \<open>Dnat\<close>.
\<close>

text \<open>C39: a start that fails before the components are brought up (no password, no
  configuration, a bad allowlist) has told the kernel nothing. One that fails later, for want of a
  certificate or of a port, leaves the DNAT rules of the configuration in force, with no process to
  take them back: when iptables fails only on rules the kernel does not take, the built-in chains
  were there and the loaded configuration is well-formed, all the enabled rules that the kernel takes,
  with both hooks, and nothing else has changed.\<close>

theorem failed_start_leaves_rules:
  assumes "main_start pl tp load getenv mk io doc fs krn = (Exited e krn', fs')"
  shows "if before_kernel e then krn' = krn \<and> fs' = fs
    else \<exists>s. NewStore mk io doc (env getenv ''EXTERNAL_HOST'' []) = Inr s
      \<and> (iptables_spec (pl_iptables pl) view \<and> reliable accepts (pl_iptables pl) view
         \<and> view krn ''PREROUTING'' = Some pre \<and> view krn ''POSTROUTING'' = Some post \<and> config_ok (config_of s) \<longrightarrow>
         view krn' = (view krn)
           (dnatChain \<mapsto> filter accepts (map dnat_args (filter dn_enabled (st_dnat s))), postChain \<mapsto> masq_rules accepts (st_dnat s),
            ''PREROUTING'' \<mapsto> (if [''-j'', dnatChain] \<in> set pre then pre else [''-j'', dnatChain] # pre),
            ''POSTROUTING'' \<mapsto> (if [''-j'', postChain] \<in> set post then post else post @ [[''-j'', postChain]])))"
  using assms
proof (cases rule: main_start_exited)
  case (early f)
  with boot_components_error [OF early(2)] show ?thesis by simp
next
  case (late sv)
  from boot_components_dnat [OF late(1)] obtain s m where s: "NewStore mk io doc (env getenv ''EXTERNAL_HOST'' []) = Inr s"
    by blast
  have "view krn' = built accepts (view krn) (st_dnat s) pre post"
    if "iptables_spec (pl_iptables pl) view" "reliable accepts (pl_iptables pl) view"
      "view krn ''PREROUTING'' = Some pre" "view krn ''POSTROUTING'' = Some post" "config_ok (config_of s)"
    using boot_components_kernel [where view = view, OF late(1) that(1-4)] s that(5) late(2) by auto
  with s main_start_late [OF assms late(1)] show ?thesis
    by (simp only: if_False, intro exI [of _ s]) (simp add: built_def dnat_rules_def with_jump_def add_jump_def)
qed

theorem failed_start_leaves_rules_witness:
  "\<forall>tp load fs. \<exists>krn'. main_start demo_pl tp load demo_env None IoOk (demo_file demo_config) fs fresh_table
       = (Exited (TlsFailed NeedsExternalHost) krn', fs)
    \<and> krn' dnatChain = Some [dnat_args demo_rule]"
proof (intro allI)
  fix tp load fs
  obtain sv where b: "boot demo_pl demo_env None IoOk (demo_file demo_config) True fresh_table = Inr sv"
      "config_of (sv_store sv) = demo_config" using demo_boot by blast
  then obtain sv0 where "boot_components demo_pl demo_env None IoOk (demo_file demo_config) fresh_table = Inr sv0"
    by (auto simp: boot_def res_iffs)
  then obtain krn' where x: "main_start demo_pl tp load demo_env None IoOk (demo_file demo_config) fs fresh_table
       = (Exited (TlsFailed NeedsExternalHost) krn', fs)"
    by (simp add: main_start_def read_settings_def env_def demo_env_def tls_setup_def Let_def)
  have re: "reliable (\<lambda>_. True) (pl_iptables demo_pl) (\<lambda>t. t)" by (simp add: demo_pl_def ipt_ref_spec)
  have "\<not> before_kernel (TlsFailed NeedsExternalHost)" by (simp add: before_kernel_def)
  with failed_start_leaves_rules [where view = "\<lambda>t. t" and accepts = "\<lambda>_. True" and pre = "[]" and post = "[[''-j'', ''DOCKER'']]", OF x] demo_pl_spec re fresh_table_hooks obtain s where
      s: "NewStore None IoOk (demo_file demo_config) (env demo_env ''EXTERNAL_HOST'' []) = Inr s"
      "config_ok (config_of s) \<longrightarrow> krn' dnatChain = Some (map dnat_args (filter dn_enabled (st_dnat s)))"
    by (auto simp: dnatChain_def postChain_def)
  from boot_store [OF b(1)] s(1) b(2) have "config_of s = demo_config" by auto
  with s(2) demo_config_ok demo_config_fields have "krn' dnatChain = Some [dnat_args demo_rule]"
    by (simp add: demo_rule_def)
  with x show "\<exists>krn'. main_start demo_pl tp load demo_env None IoOk (demo_file demo_config) fs fresh_table
       = (Exited (TlsFailed NeedsExternalHost) krn', fs) \<and> krn' dnatChain = Some [dnat_args demo_rule]" by blast
qed

text \<open>Everything about a process that started on a system that refuses nothing, after any run.\<close>

lemma running_process:
  assumes "boot pl getenv mk io doc True krn = Inr sv0" "config_ok (config_of (sv_store sv0))"
    and "iptables_spec (pl_iptables pl) view" "willing pl" "start_servers pl getenv sv0 = Inr sv1" "server_run pl sv1 sv"
  shows "server_ok sv \<and> live view sv \<and> all_served sv
    \<and> ro_main (sv_router sv) = main_port (env getenv ''PROXY_ADDR'' '':443'')
    \<and> ro_http (sv_router sv) = redirect_port (env getenv ''HTTP_REDIRECT_ADDR'' '':80'')"
proof -
  obtain own where own: "sv1 = sv0\<lparr>sv_own := own\<rparr>" using start_servers_own [OF assms(5)] by blast
  have ok: "server_ok sv1" "live view sv1" using start_servers_live [OF assms(5) boot_live [OF assms(1-3)]] by simp_all
  have "all_served sv1" using boot_served [OF assms(1,4)] own by (simp add: all_served_def)
  from server_run_served [OF assms(6,4) ok assms(3) this] server_run_live [OF assms(6) ok assms(3)]
    server_run_router [OF assms(6)] boot_router_ports [OF assms(1)] own show ?thesis by simp
qed

text \<open>Two processes with the same configuration and the same settings, both serving everything,
  hold the same sockets.\<close>

lemma same_config_same_sockets:
  assumes "server_ok sv" "live view sv" "all_served sv" "server_ok sv'" "live view sv'" "all_served sv'"
    and "config_of (sv_store sv') = config_of (sv_store sv)" "config_ok (config_of (sv_store sv))"
    and "ro_main (sv_router sv') = ro_main (sv_router sv)" "ro_http (sv_router sv') = ro_http (sv_router sv)"
  shows "mset (fr_held (sv_fwd sv')) = mset (fr_held (sv_fwd sv))"
    "mset (ro_held (sv_router sv')) = mset (ro_held (sv_router sv))"
proof -
  have same: "st_forwards (sv_store sv') = st_forwards (sv_store sv)" "st_domains (sv_store sv') = st_domains (sv_store sv)"
    using assms(7) by (simp_all add: config_of_def)
  show "mset (fr_held (sv_fwd sv')) = mset (fr_held (sv_fwd sv))"
    using served_forward_sockets [OF assms(2,3,8)] served_forward_sockets [OF assms(5,6)] assms(7,8) same(1) by simp
  have "wanted_ports (sv_router sv') (sv_store sv') = wanted_ports (sv_router sv) (sv_store sv)"
    using wanted_ports_cong [OF _ _ same(2), of "sv_router sv"] assms(1,4,9,10)
    by (simp add: server_ok_def) (simp add: wanted_ports_def)
  then show "mset (ro_held (sv_router sv')) = mset (ro_held (sv_router sv))"
    using served_port_sockets [OF assms(1,3)] served_port_sockets [OF assms(4,6)] by simp
qed

text \<open>C11: a restart resumes, on a system that refuses no socket, resolves every address and whose
  iptables has its built-in chains and fails only on rules the kernel does not take. When a process that came up with a
  well-formed configuration has run for a while, with changes one at a time of which none failed at
  the file or at a proxy, its last change was accepted and left texts that JSON carries unchanged,
  and it was then shut down, starting it again on the file it wrote and the certificates it left
  brings it up with the same configuration and certificate source, the same sockets of forwards and
  of domain ports, and the kernel's table as it was before the shutdown.\<close>

theorem restart_resumes:
  assumes "main_start pl tp load getenv mk io doc fs krn = (Running sv1 src, fs1)" "config_ok (config_of (sv_store sv1))"
    and "iptables_spec (pl_iptables pl) view" "reliable accepts (pl_iptables pl) view"
    and "view krn ''PREROUTING'' = Some pre" "view krn ''POSTROUTING'' = Some post"
    and "\<forall>held sk. pl_refuse pl held sk = None" "\<forall>a. pl_resolve pl a = None"
    and "server_run pl sv1 sv" "exec_op pl io1 op sv = (None, sv')" "text_safe (config_of (sv_store sv'))"
  shows "\<exists>c sv2. st_file (sv_store sv') = Some c
    \<and> main_start pl tp2 load getenv None io2 (FileData (config_text nilr nilf c)) fs1 (dg_kernel (sv_dnat (shut_down pl sv')))
        = (Running sv2 src, fs1)
    \<and> config_of (sv_store sv2) = config_of (sv_store sv')
    \<and> mset (fr_held (sv_fwd sv2)) = mset (fr_held (sv_fwd sv'))
    \<and> mset (ro_held (sv_router sv2)) = mset (ro_held (sv_router sv'))
    \<and> view (dg_kernel (sv_dnat sv2)) = view (dg_kernel (sv_dnat sv'))"
proof -
  note spec = assms(3,4)
  have w: "willing pl" using assms(7,8) by (simp add: willing_def)
  from assms(1) obtain sv0 where b: "boot pl getenv mk io doc True krn = Inr sv0" and st: "start_servers pl getenv sv0 = Inr sv1"
    unfolding main_start_running by blast
  have ok0: "config_ok (config_of (sv_store sv0))" using assms(2) start_servers_own [OF st] by auto
  have run: "server_run pl sv1 sv'" by (rule run_op [OF assms(9,10)]) simp
  note old = running_process [OF b ok0 spec(1) w st run]
  have k: "kernel_exact accepts view (view krn) pre post sv'"
    by (rule run_kernel_exact) (fact b ok0 spec assms(5,6) st run)+
  have sync: "synced (sv_store sv')" "config_ok (config_of (sv_store sv'))" using old by (simp_all add: server_ok_def)
  obtain s' ns where "run_op io1 op (sv_store sv) = (None, s', ns)" "sv_store sv' = s'"
    using assms(10) by (auto simp: exec_op_def split: prod.splits)
  then have written: "st_file (sv_store sv') = Some (config_of (sv_store sv'))" using run_op_durable by blast
  let ?doc = "FileData (config_text nilr nilf (config_of (sv_store sv')))" and ?krn = "dg_kernel (sv_dnat (shut_down pl sv'))"
  from reload_synced [OF sync(1) assms(11), of io2 nilr nilf "env getenv ''EXTERNAL_HOST'' []"]
  obtain s where s: "NewStore None io2 ?doc (env getenv ''EXTERNAL_HOST'' []) = Inr s"
      "config_of s = config_of (sv_store sv')" by blast
  from boot_again [OF b s(1)] s(2) obtain sv3 where b2: "boot pl getenv None io2 ?doc True ?krn = Inr sv3"
      "config_of (sv_store sv3) = config_of (sv_store sv')" by auto
  obtain own where own: "start_servers pl getenv sv3 = Inr (sv3\<lparr>sv_own := own\<rparr>)" using start_servers_willing [OF w] by blast
  let ?sv2 = "sv3\<lparr>sv_own := own\<rparr>"
  have ok3: "config_ok (config_of (sv_store sv3))" using b2(2) sync(2) by simp
  note new = running_process [OF b2(1) ok3 spec(1) w own run_start]
  have started: "main_start pl tp2 load getenv None io2 ?doc fs1 ?krn = (Running ?sv2 src, fs1)"
    using assms(1) b2(1) own tls_setup_again unfolding main_start_running by blast
  have rules: "st_dnat (sv_store sv3) = st_dnat (sv_store sv')" using b2(2) by (simp add: config_of_def)
  have "mset (fr_held (sv_fwd ?sv2)) = mset (fr_held (sv_fwd sv'))" "mset (ro_held (sv_router ?sv2)) = mset (ro_held (sv_router sv'))"
    using same_config_same_sockets [of sv' view ?sv2] old new b2(2) sync(2) by simp_all
  moreover have "kernel_exact accepts view (view krn) pre post sv3"
    by (rule boot_kernel_again [OF b2(1) ok3 spec]) (rule shut_down_kernel [OF k spec])
  then have "view (dg_kernel (sv_dnat ?sv2)) = view (dg_kernel (sv_dnat sv'))"
    using k rules by (simp add: kernel_exact_def)
  ultimately show ?thesis using written started b2(2) by (intro exI [of _ "config_of (sv_store sv')"] exI [of _ ?sv2]) simp
qed

definition demo_env_auto :: "string \<Rightarrow> string" where
  "demo_env_auto k = (if k = ''EXTERNAL_HOST'' then ''vpn.example.com'' else demo_env k)"

lemma demo_running:
  "\<exists>sv. main_start demo_pl tp load demo_env_auto None IoOk (demo_file demo_config) fs fresh_table = (Running sv Autocert, fs)
    \<and> config_of (sv_store sv) = demo_config"
proof -
  have "config_of demo_store = demo_config" by (simp add: config_of_def demo_states blank_store_def)
  with reload_synced [OF demo_synced, of IoOk "\<lambda>_. False" "\<lambda>_. False" "''vpn.example.com''"] demo_text_safe(1) obtain s where
      s: "NewStore None IoOk (demo_file demo_config) ''vpn.example.com'' = Inr s" "config_of s = demo_config" by (auto simp: demo_file_def)
  obtain a where a: "NewAuth ''secret'' ''10.8.0.0/24,127.0.0.1/32,::1/128'' = Inr a" using demo_auth by blast
  obtain sv where sv: "boot demo_pl demo_env_auto None IoOk (demo_file demo_config) True fresh_table = Inr sv"
    by (simp add: boot_defs demo_env_auto_def demo_env_def env_def s a Let_def)
  have "willing demo_pl" by (simp add: willing_def demo_pl_def)
  from start_servers_willing [OF this] obtain own where own: "start_servers demo_pl demo_env_auto sv = Inr (sv\<lparr>sv_own := own\<rparr>)" by blast
  have "config_of (sv_store sv) = demo_config" using boot_store [OF sv] s by (auto simp: demo_env_auto_def env_def)
  with sv own show ?thesis unfolding main_start_running
    by (intro exI [of _ "sv\<lparr>sv_own := own\<rparr>"])
      (simp add: read_settings_def env_def demo_env_auto_def demo_env_def tls_setup_def)
qed

lemma demo_delete_config:
  assumes "config_of s = demo_config"
  shows "\<exists>s' ns. run_op IoOk (OpDeleteForward ''ssh'') s = (None, s', ns) \<and> config_of s' = demo_config\<lparr>cf_forwards := []\<rparr>"
proof -
  from demo_delete [of s] demo_config_fields [OF assms] obtain s' ns where
      d: "run_op IoOk (OpDeleteForward ''ssh'') s = (None, s', ns)" by blast
  have "op_config (OpDeleteForward ''ssh'') demo_config = Inr (demo_config\<lparr>cf_forwards := []\<rparr>)"
    by (simp add: demo_config_def demo_forward_def edit_in_def model_eval)
  with run_op_config [OF d] assms have "config_of s' = demo_config\<lparr>cf_forwards := []\<rparr>" by auto
  with d show ?thesis by blast
qed

lemma demo_deleted_safe: "text_safe (demo_config\<lparr>cf_forwards := []\<rparr>)"
  using demo_text_safe(1) by (simp add: text_safe_def config_int64_def config_utf8_def demo_config_def)

theorem restart_resumes_witness:
  "\<forall>tp load fs nilr nilf. \<exists>sv1 sv' sv2 c.
     main_start demo_pl tp load demo_env_auto None IoOk (demo_file demo_config) fs fresh_table = (Running sv1 Autocert, fs)
     \<and> exec_op demo_pl IoOk (OpDeleteForward ''ssh'') sv1 = (None, sv')
     \<and> main_start demo_pl tp load demo_env_auto None IoOk (FileData (config_text nilr nilf c)) fs
          (dg_kernel (sv_dnat (shut_down demo_pl sv'))) = (Running sv2 Autocert, fs)
     \<and> config_of (sv_store sv2) = demo_config\<lparr>cf_forwards := []\<rparr>
     \<and> dg_kernel (sv_dnat sv2) = dg_kernel (sv_dnat sv')"
proof (intro allI)
  fix tp load fs nilr nilf
  obtain sv1 where sv1: "main_start demo_pl tp load demo_env_auto None IoOk (demo_file demo_config) fs fresh_table = (Running sv1 Autocert, fs)"
      "config_of (sv_store sv1) = demo_config" using demo_running by blast
  from demo_delete_config [OF sv1(2)] obtain s' ns where
      d: "run_op IoOk (OpDeleteForward ''ssh'') (sv_store sv1) = (None, s', ns)" "config_of s' = demo_config\<lparr>cf_forwards := []\<rparr>" by blast
  obtain sv' where x: "exec_op demo_pl IoOk (OpDeleteForward ''ssh'') sv1 = (None, sv')" "sv_store sv' = s'"
    using d by (simp add: exec_op_def)
  have re: "reliable (\<lambda>_. True) (pl_iptables demo_pl) (\<lambda>t. t)" by (simp add: demo_pl_def ipt_ref_spec)
  have ok: "config_ok (config_of (sv_store sv1))" using sv1(2) demo_config_ok by simp
  have free: "\<forall>held sk. pl_refuse demo_pl held sk = None" "\<forall>a. pl_resolve demo_pl a = None" by (simp_all add: demo_pl_def)
  have safe: "text_safe (config_of (sv_store sv'))" using x(2) d(2) demo_deleted_safe by simp
  from restart_resumes [where view = "\<lambda>t. t", OF sv1(1) ok demo_pl_spec re fresh_table_hooks free run_start x(1) safe]
  show "\<exists>sv1 sv' sv2 c.
     main_start demo_pl tp load demo_env_auto None IoOk (demo_file demo_config) fs fresh_table = (Running sv1 Autocert, fs)
     \<and> exec_op demo_pl IoOk (OpDeleteForward ''ssh'') sv1 = (None, sv')
     \<and> main_start demo_pl tp load demo_env_auto None IoOk (FileData (config_text nilr nilf c)) fs
          (dg_kernel (sv_dnat (shut_down demo_pl sv'))) = (Running sv2 Autocert, fs)
     \<and> config_of (sv_store sv2) = demo_config\<lparr>cf_forwards := []\<rparr>
     \<and> dg_kernel (sv_dnat sv2) = dg_kernel (sv_dnat sv')"
    using sv1(1) x d(2) by metis
qed

end
