(* ===== verification/EndToEnd.thy ===== *)
theory EndToEnd
  imports StartupProps AccessProps LivePort
begin

text \<open>
  From the form to the wire: what a saved entry does once its handler has answered. The chain
  runs through every part of the program: the request is admitted and its form decoded
  (\<open>Admin\<close>), the entry validated, written and compiled (\<open>Store\<close>), its component told
  (\<open>Server\<close>), and the next connection or client meets it (\<open>Sni\<close>, \<open>Domains\<close>, \<open>Forward\<close>).
\<close>

definition posted_domain :: "admin_request \<Rightarrow> port_forward list \<Rightarrow> domain" where
  "posted_domain r fs = \<lparr>dm_host = trimmed_value r ''host'', dm_desc = trimmed_value r ''description'', dm_forwards = fs\<rparr>"

text \<open>The message \<open>notice\<close> is only given for an accepted operation.\<close>

lemma notice_not_error: "redirectMsgTo base ''notice'' m \<noteq> redirectMsgTo base ''error'' n"
  by (simp add: redirectMsgTo_def)

lemma saveDomain_notice:
  assumes "saveDomain pl io r sv = (redirectMsgTo ''/_admin/domains'' ''notice'' m, sv')"
  shows "\<exists>fs. decode_list unmarshal_forwards (form_value r ''forwards_json'') = Inr fs
    \<and> exec_op pl io (OpUpsertDomain (trimmed_value r ''old_host'') (posted_domain r fs)) sv = (None, sv')"
  using assms notice_not_error [of "''/_admin/domains''" m]
  by (auto simp: saveDomain_def run_edit_def posted_domain_def redirectMsgTo_def Let_def
      split: if_splits sum.splits prod.splits option.splits)

lemma admin_handler_saveDomain:
  assumes "admin_handler pl io r sv = (redirectMsgTo ''/_admin/domains'' ''notice'' m, sv')"
    and "admin_route (ar_path r) = RDomainsSave"
  shows "saveDomain pl io r sv = (redirectMsgTo ''/_admin/domains'' ''notice'' m, sv')"
  using assms by (auto simp: admin_handler_def serve_route_def requireAuth_def redirectMsgTo_def split: if_splits)

text \<open>An accepted entry is in the configuration, and the decision on its host and port is its
  own.\<close>

lemma saved_domain:
  assumes "server_ok sv" "server_ok sv'" "exec_op pl io (OpUpsertDomain old d0) sv = (None, sv')"
  shows "\<exists>d. validateDomain d0 = Inr d \<and> d \<in> set (st_domains (sv_store sv'))
    \<and> st_file (sv_store sv') = Some (config_of (sv_store sv'))"
proof -
  obtain s' ns where r: "run_op io (OpUpsertDomain old d0) (sv_store sv) = (None, s', ns)" "sv_store sv' = s'"
    using assms(3) by (auto simp: exec_op_def split: prod.splits)
  from run_op_config [OF r(1)] obtain d where
      d: "validateDomain d0 = Inr d" "edit_domains old d (st_domains (sv_store sv)) = Inr (st_domains s')"
    by (auto simp: edit_in_Inr_iff config_of_def)
  have "unique_keys domain_key (st_domains (sv_store sv))"
    using assms(1) by (simp add: server_ok_def config_ok_def)
  from table_map_Some [OF domains.edit_present [OF this d(2)]] d(1) run_op_durable [OF r(1)] r(2) show ?thesis by auto
qed

lemma decision_of:
  assumes "config_ok (config_of s)" "synced s" "d \<in> set (st_domains s)" "w \<in> set (dm_forwards d)" "pf_enabled w"
    and "to_lower sni = dm_host d"
  shows "port_decide True s (pf_port w) sni =
    (if pf_manage w then ActAccept else ActPassthrough (pf_target w) (pf_proxy_proto w))"
proof -
  from assms(3-6) MatchDomain_forward [OF assms(1,2), of sni "pf_port w" w] obtain cp where
      "MatchDomain s sni (pf_port w) = Some cp" "cp_fwd cp = w" by auto
  then show ?thesis by (simp add: port_decide_def)
qed

lemma decided_fate:
  assumes "decide (fst (peekClientHelloSNI hs c)) = (if m then ActAccept else ActPassthrough t pp)"
  shows "case handle hs decide net c of
      Spliced t' r \<Rightarrow> \<not> m \<and> t' = t
        \<and> (re_dial (net t) \<and> re_header_fails (net t) = None \<and> re_prefix_fails (net t) = None \<longrightarrow>
             rr_to_backend r = header_for pp (net t) @ cn_in c)
    | Delivered q \<Rightarrow> m \<and> pending q = cn_in c
    | Closed \<Rightarrow> False"
proof (cases "handle hs decide net c")
  case (Spliced t' r)
  with handle_spliced [OF Spliced] assms show ?thesis by (auto split: if_splits)
next
  case Closed
  with handle_cases(3) [OF Closed] assms show ?thesis by (simp add: decided_def split: if_splits)
next
  case (Delivered q)
  with handle_cases(1) [OF Delivered] assms show ?thesis by (simp add: decided_def split: if_splits)
qed

text \<open>The router of a process that has a certificate source keeps it.\<close>

lemma server_run_tls: "server_run pl sv0 sv \<Longrightarrow> ro_tls (sv_router sv) = ro_tls (sv_router sv0)"
proof (induction rule: server_run.induct)
  case (run_op sv0 sv io op e sv')
  have "ro_tls (sv_router (fold (deliver pl) ns sv)) = ro_tls (sv_router sv)" for ns sv
  proof (induction ns arbitrary: sv)
    case (Cons n ns)
    have "ro_tls (sv_router (deliver pl n sv)) = ro_tls (sv_router sv)"
      by (cases n) (simp_all add: apply_forwards_def apply_dnat_def apply_domains_def)
    with Cons show ?case by simp
  qed simp
  with run_op show ?case by (auto simp: exec_op_def split: prod.splits)
qed simp

text \<open>C3: what the admin is told is saved is in force. When a POST of the domain form is answered
  with a notice, the domain as validated is in the configuration and in the file; the router listens
  on every port of its enabled forwards that is not one of the two main ports (on a system that
  refuses no socket); and from then on a connection on such a port that names the domain is spliced
  to the forward's target, header first and then every byte of the client, or handed to this
  process's TLS with every byte still to be read, as the form says.\<close>

theorem saved_domain_in_force:
  assumes "boot pl getenv mk io0 doc True krn = Inr sv0" "config_ok (config_of (sv_store sv0))"
    and "iptables_spec (pl_iptables pl) view" "\<forall>held sk. pl_refuse pl held sk = None" "\<forall>a. pl_resolve pl a = None"
    and "start_servers pl getenv sv0 = Inr sv1" "server_run pl sv1 sv"
    and "admin_route (ar_path r) = RDomainsSave"
    and "admin_handler pl io r sv = (redirectMsgTo ''/_admin/domains'' ''notice'' m, sv')"
  shows "\<exists>fs d. decode_list unmarshal_forwards (form_value r ''forwards_json'') = Inr fs
    \<and> validateDomain (posted_domain r fs) = Inr d \<and> d \<in> set (st_domains (sv_store sv'))
    \<and> st_file (sv_store sv') = Some (config_of (sv_store sv'))
    \<and> (\<forall>w\<in>set (dm_forwards d). pf_enabled w \<and> pf_port w \<noteq> ro_main (sv_router sv') \<and> pf_port w \<noteq> ro_http (sv_router sv') \<longrightarrow>
         pf_port w \<in> fst ` set (ro_active (sv_router sv'))
         \<and> (\<forall>hs net c. to_lower (fst (peekClientHelloSNI hs c)) = dm_host d \<longrightarrow>
             (case handle hs (port_decide (ro_tls (sv_router sv')) (sv_store sv') (pf_port w)) net c of
                Spliced t rr \<Rightarrow> \<not> pf_manage w \<and> t = pf_target w
                  \<and> (re_dial (net (pf_target w)) \<and> re_header_fails (net (pf_target w)) = None
                       \<and> re_prefix_fails (net (pf_target w)) = None \<longrightarrow>
                       rr_to_backend rr = header_for (pf_proxy_proto w) (net (pf_target w)) @ cn_in c)
              | Delivered q \<Rightarrow> pf_manage w \<and> pending q = cn_in c
              | Closed \<Rightarrow> False)))"
proof -
  have w: "willing pl" using assms(4,5) by (simp add: willing_def)
  note old = running_process [OF assms(1-3) w assms(6,7)]
  from saveDomain_notice [OF admin_handler_saveDomain [OF assms(9,8)]] obtain fs where
      fs: "decode_list unmarshal_forwards (form_value r ''forwards_json'') = Inr fs"
      "exec_op pl io (OpUpsertDomain (trimmed_value r ''old_host'') (posted_domain r fs)) sv = (None, sv')" by blast
  have run: "server_run pl sv1 sv'" by (rule run_op [OF assms(7) fs(2)]) simp
  note new = running_process [OF assms(1-3) w assms(6) run]
  have ok: "server_ok sv" "server_ok sv'" using old new by simp_all
  have st: "config_ok (config_of (sv_store sv'))" "synced (sv_store sv')" using ok(2) by (simp_all add: server_ok_def)
  from saved_domain [OF ok fs(2)] obtain d where d: "validateDomain (posted_domain r fs) = Inr d"
      "d \<in> set (st_domains (sv_store sv'))" "st_file (sv_store sv') = Some (config_of (sv_store sv'))" by blast
  have "ro_tls (sv_router sv0)" using assms(1) by (auto simp: boot_def boot_router_def res_iffs Let_def apply_domains_def NewDomainRouter_def)
  with server_run_tls [OF run] start_servers_own [OF assms(6)] have tls: "ro_tls (sv_router sv')" by auto
  have "pf_port w \<in> fst ` set (ro_active (sv_router sv'))"
    if "w \<in> set (dm_forwards d)" "pf_enabled w" "pf_port w \<noteq> ro_main (sv_router sv')" "pf_port w \<noteq> ro_http (sv_router sv')" for w
    using that d(2) new DomainPorts_exact(1) [OF st(2)] by (auto simp: all_served_def wanted_ports_def)
  moreover note decided_fate [where decide = "port_decide True (sv_store sv') p" for p, OF decision_of [OF st d(2)]]
  ultimately show ?thesis using fs(1) d tls by (intro exI [of _ fs] exI [of _ d]) simp
qed

text \<open>A form as the page's script posts it, for a process started from the demo file.\<close>

definition demo_json :: string where
  "demo_json = ''[{'' @ [quote_char] @ ''port'' @ [quote_char] @ '':995,'' @ [quote_char] @ ''target'' @ [quote_char] @ '':''
     @ [quote_char] @ ''10.0.0.9:995'' @ [quote_char] @ '','' @ [quote_char] @ ''enabled'' @ [quote_char] @ '':true}]''"

definition demo_pop :: port_forward where
  "demo_pop = zero_pf\<lparr>pf_port := 995, pf_target := ''10.0.0.9:995'', pf_enabled := True\<rparr>"

definition demo_post :: "auth \<Rightarrow> admin_request" where
  "demo_post a = \<lparr>ar_remote = ''10.8.0.7:4000'', ar_method = ''POST'', ar_path = ''/_admin/domains/save'', ar_query = [],
     ar_form = [(''host'', ''Pop.example.com''), (''forwards_json'', demo_json)],
     ar_cookies = [(sessionCookie, ck_value (IssueCookie a 1700000000 True))], ar_tls = True, ar_now = 1700000001\<rparr>"

lemma demo_json_trimmed: "trim_space demo_json = demo_json" "demo_json \<noteq> []"
  by (simp_all add: demo_json_def trim_space_ends plain_byte_def)

lemma demo_json: "unmarshal_forwards demo_json = Inr [demo_pop]"
  by (simp add: demo_json_def unmarshal_forwards_def Unmarshal_def parse_json_def scan_eof_def
      begin_value_def end_value_def in_string_def is_space_def is_digit_def push_frame_def max_depth_def
      unquote.simps(2) rune_tail_def dec_slice_def dec_pf_def dec_eval lower_char_Char is_upper_ascii_def zero_pf_def demo_pop_def num_final_def go_eval)

lemma demo_posted: "decode_list unmarshal_forwards demo_json = Inr [demo_pop]"
  by (simp add: decode_list_def demo_json demo_json_trimmed)

definition demo_pop_domain :: domain where
  "demo_pop_domain = \<lparr>dm_host = ''pop.example.com'', dm_desc = [], dm_forwards = [demo_pop]\<rparr>"

lemma demo_pop_valid: "validateDomain (posted_domain (demo_post a) [demo_pop]) = Inr demo_pop_domain"
  by (simp add: posted_domain_def demo_post_def demo_pop_domain_def demo_pop_def zero_pf_def trimmed_value_def form_value_def
      model_eval go_eval Let_def)

lemma demo_add_pop:
  assumes "config_of s = demo_config"
  shows "\<exists>s' ns. run_op IoOk (OpUpsertDomain [] (posted_domain (demo_post a) [demo_pop])) s = (None, s', ns)"
proof -
  note fields = demo_config_fields [OF assms]
  show ?thesis
    using fields by (simp add: op_defs demo_pop_valid)
      (simp add: demo_pop_domain_def demo_pop_def zero_pf_def demo_entries model_eval go_eval Let_def)
qed

lemma boot_auth: "boot pl getenv mk io doc tls krn = Inr sv \<Longrightarrow>
    NewAuth (getenv ''ADMIN_PASSWORD'') (env getenv ''INTERNAL_CIDR'' ''10.8.0.0/24,127.0.0.1/32,::1/128'') = Inr (sv_auth sv)"
  by (auto simp: boot_defs Let_def res_iffs apply_forwards_def apply_dnat_def apply_domains_def split: if_splits)

lemma demo_admitted:
  "NewAuth ''secret'' ''10.8.0.0/24,127.0.0.1/32,::1/128'' = Inr a \<Longrightarrow>
     IPAllowed a ''10.8.0.7:4000'' \<and> SessionValid a (ar_cookies (demo_post a)) 1700000001"
proof
  assume "NewAuth ''secret'' ''10.8.0.0/24,127.0.0.1/32,::1/128'' = Inr a"
  then show "IPAllowed a ''10.8.0.7:4000''"
    by (simp add: NewAuth_def IPAllowed_def model_eval go_eval Let_def) (auto simp: go_eval)
  have "map_of (ar_cookies (demo_post a)) sessionCookie = Some (ck_value (IssueCookie a 1700000000 True))"
    by (simp add: demo_post_def)
  from issued_session [OF _ _ this] show "SessionValid a (ar_cookies (demo_post a)) 1700000001"
    by (simp add: sessionTTL_def)
qed

lemma demo_post_route: "admin_route (ar_path (demo_post a)) = RDomainsSave" "cleanPath (ar_path (demo_post a)) = ar_path (demo_post a)"
  by (simp_all add: demo_post_def admin_route_def admin_patterns_def model_eval go_eval Let_def)

lemma demo_saved:
  assumes "IPAllowed (sv_auth sv) ''10.8.0.7:4000''" "SessionValid (sv_auth sv) (ar_cookies (demo_post a)) 1700000001"
    and "exec_op pl io (OpUpsertDomain [] (posted_domain (demo_post a) [demo_pop])) sv = (None, sv')"
  shows "\<exists>m. admin_handler pl io (demo_post a) sv = (redirectMsgTo ''/_admin/domains'' ''notice'' m, sv')"
proof -
  have form: "form_value (demo_post a) ''forwards_json'' = demo_json" "trimmed_value (demo_post a) ''old_host'' = []"
      "post (demo_post a)" "ar_remote (demo_post a) = ''10.8.0.7:4000''" "ar_now (demo_post a) = 1700000001"
    by (simp_all add: demo_post_def form_value_def trimmed_value_def post_def go_eval)
  have "ar_method (demo_post a) = ''POST''" using form(3) by (simp add: post_def)
  then have "admin_handler pl io (demo_post a) sv = saveDomain pl io (demo_post a) sv"
    using assms(1,2) form by (simp add: admin_handler_def demo_post_route serve_route_def requireAuth_def)
  moreover have "\<exists>m. saveDomain pl io (demo_post a) sv = (redirectMsgTo ''/_admin/domains'' ''notice'' m, sv')"
    using assms(3) form by (auto simp: saveDomain_def run_edit_def demo_posted posted_domain_def Let_def)
  ultimately show ?thesis by simp
qed

theorem saved_domain_in_force_witness:
  "\<exists>sv0 sv1 sv' a m. boot demo_pl demo_env None IoOk (demo_file demo_config) True fresh_table = Inr sv0
    \<and> start_servers demo_pl demo_env sv0 = Inr sv1
    \<and> admin_handler demo_pl IoOk (demo_post a) sv1 = (redirectMsgTo ''/_admin/domains'' ''notice'' m, sv')
    \<and> demo_pop_domain \<in> set (st_domains (sv_store sv'))"
proof -
  obtain sv0 where b: "boot demo_pl demo_env None IoOk (demo_file demo_config) True fresh_table = Inr sv0"
      "config_of (sv_store sv0) = demo_config" using demo_boot by blast
  obtain sv1 where sv1: "start_servers demo_pl demo_env sv0 = Inr sv1" "sv_store sv1 = sv_store sv0" using demo_servers by blast
  from start_servers_own [OF sv1(1)] boot_auth [OF b(1)] have
      a: "NewAuth ''secret'' ''10.8.0.0/24,127.0.0.1/32,::1/128'' = Inr (sv_auth sv1)"
    by (auto simp: demo_env_def env_def)
  let ?r = "demo_post (sv_auth sv1)"
  from demo_add_pop [of "sv_store sv1" "sv_auth sv1"] b(2) sv1(2) obtain s' ns where
      "run_op IoOk (OpUpsertDomain [] (posted_domain ?r [demo_pop])) (sv_store sv1) = (None, s', ns)" by auto
  then obtain sv' where x: "exec_op demo_pl IoOk (OpUpsertDomain [] (posted_domain ?r [demo_pop])) sv1 = (None, sv')"
    by (simp add: exec_op_def del: run_op.simps)
  from demo_saved [OF demo_admitted [OF a, THEN conjunct1] demo_admitted [OF a, THEN conjunct2] x] obtain m where
      m: "admin_handler demo_pl IoOk ?r sv1 = (redirectMsgTo ''/_admin/domains'' ''notice'' m, sv')" by blast
  have ok: "config_ok (config_of (sv_store sv0))" using b(2) demo_config_ok by simp
  have free: "\<forall>held sk. pl_refuse demo_pl held sk = None" "\<forall>a. pl_resolve demo_pl a = None" by (simp_all add: demo_pl_def)
  have "form_value ?r ''forwards_json'' = demo_json" by (simp add: demo_post_def form_value_def)
  with saved_domain_in_force [OF b(1) ok demo_pl_spec free sv1(1) run_start demo_post_route(1) m] demo_posted demo_pop_valid
  have "demo_pop_domain \<in> set (st_domains (sv_store sv'))" by auto
  with b(1) sv1(1) m show ?thesis by blast
qed

section \<open>Forwards\<close>

definition posted_forward :: "admin_request \<Rightarrow> forward" where
  "posted_forward r = \<lparr>fw_name = trimmed_value r ''name'', fw_proto = trimmed_value r ''proto'',
     fw_listen = trimmed_value r ''listen'', fw_target = trimmed_value r ''target'',
     fw_proxy_proto = (form_value r ''proxy_proto'' = ''on''), fw_desc = trimmed_value r ''description'',
     fw_enabled = (form_value r ''enabled'' = ''on'')\<rparr>"

lemma saved_forward:
  assumes "server_ok sv" "exec_op pl io (OpUpsertForward old f0) sv = (None, sv')"
  shows "\<exists>f. validateForward f0 = Inr f \<and> f \<in> set (st_forwards (sv_store sv'))
    \<and> st_file (sv_store sv') = Some (config_of (sv_store sv'))"
proof -
  obtain s' ns where r: "run_op io (OpUpsertForward old f0) (sv_store sv) = (None, s', ns)" "sv_store sv' = s'"
    using assms(2) by (auto simp: exec_op_def split: prod.splits)
  from run_op_config [OF r(1)] obtain f where
      f: "validateForward f0 = Inr f" "edit_forwards old f (st_forwards (sv_store sv)) = Inr (st_forwards s')"
    by (auto simp: edit_in_Inr_iff config_of_def)
  have "unique_keys fw_name (st_forwards (sv_store sv))"
    using assms(1) by (simp add: server_ok_def config_ok_def)
  from table_map_Some [OF forwards.edit_present [OF this f(2)]] f(1) run_op_durable [OF r(1)] r(2) show ?thesis by auto
qed

lemma validateForward_name: "validateForward f0 = Inr f \<Longrightarrow> fw_name f = trim_space (fw_name f0) \<and> fw_enabled f = fw_enabled f0"
  by (auto simp: validateForward_def Let_def res_iffs split: if_splits)

text \<open>C37: the answer to saving a forward tells what runs. When the change was accepted the forward
  as validated is in the configuration and in the file, and the reply is the notice exactly when the
  forward is running, with all its sockets, or is not meant to; otherwise it is the warning with the
  reason the listener failed for.\<close>

theorem forward_reply_tells:
  assumes "boot pl getenv mk io0 doc tls krn = Inr sv0" "config_ok (config_of (sv_store sv0))"
    and "iptables_spec (pl_iptables pl) view" "start_servers pl getenv sv0 = Inr sv1" "server_run pl sv1 sv"
    and "ar_method r = ''POST''" "saveForward pl io r sv = (rep, sv')"
    and "exec_op pl io (OpUpsertForward (trimmed_value r ''old_name'') (posted_forward r)) sv = (None, sv')"
  shows "\<exists>f. validateForward (posted_forward r) = Inr f \<and> f \<in> set (st_forwards (sv_store sv'))
    \<and> st_file (sv_store sv') = Some (config_of (sv_store sv'))
    \<and> (if fw_enabled f \<longrightarrow> fw_name f \<in> fst ` set (fr_active (sv_fwd sv'))
       then rep = redirectMsgTo ''/_admin/forwards'' ''notice'' (''Saved forward '' @ fw_name f)
         \<and> (fw_enabled f \<longrightarrow> proto_sockets f \<subseteq># mset (fr_held (sv_fwd sv')))
       else \<exists>e. rep = redirectMsgTo ''/_admin/forwards'' ''error''
              (''Saved, but listener failed '' @ em_dash @ '' error: '' @ e))"
proof -
  have ok0: "server_ok sv1" "live view sv1"
    using start_servers_live [OF assms(4) boot_live [OF assms(1-3)]] by simp_all
  have "server_run pl sv1 sv'" by (rule run_op [OF assms(5,8)]) simp
  then have lv: "live view sv'" using server_run_live [OF _ ok0 assms(3)] by blast
  have "server_ok sv" using server_run_live [OF assms(5) ok0 assms(3)] by blast
  from saved_forward [OF this assms(8)] obtain f where f: "validateForward (posted_forward r) = Inr f"
      "f \<in> set (st_forwards (sv_store sv'))" "st_file (sv_store sv') = Some (config_of (sv_store sv'))" by blast
  have name: "fw_name f = trimmed_value r ''name''"
    using validateForward_name [OF f(1)] by (simp add: posted_forward_def trimmed_value_def)
  let ?s = "lookup_status (ForwarderStatus (sv_fwd sv')) (fw_name f)"
  have rep: "rep = (if has_prefix ?s ''error:'' then redirectMsgTo ''/_admin/forwards'' ''error'' (''Saved, but listener failed '' @ em_dash @ '' '' @ ?s)
      else redirectMsgTo ''/_admin/forwards'' ''notice'' (''Saved forward '' @ fw_name f))"
    using assms(6-8) name by (auto simp: saveForward_def run_edit_def post_def posted_forward_def Let_def)
  have fl: "forwards_live (st_forwards (sv_store sv')) (sv_fwd sv')" using lv by (simp add: live_def)
  from fl f(2) have st: "case map_of (fr_status (sv_fwd sv')) (fw_name f) of
      None \<Rightarrow> False
    | Some s \<Rightarrow> (if \<not> fw_enabled f then s = ''disabled''
                else if fw_name f \<in> fst ` set (fr_active (sv_fwd sv')) then s = []
                else (\<exists>e. s = ''error: '' @ e))"
    unfolding forwards_live_def by blast
  show ?thesis
  proof (cases "fw_enabled f \<longrightarrow> fw_name f \<in> fst ` set (fr_active (sv_fwd sv'))")
    case True
    with st have "\<not> has_prefix ?s ''error:''"
      by (auto simp: lookup_status_def ForwarderStatus_def has_prefix_def split: option.splits if_splits)
    moreover have "proto_sockets f \<subseteq># mset (fr_held (sv_fwd sv'))" if "fw_enabled f"
      using live_forward_sockets [OF fl f(2)] True that by simp
    ultimately show ?thesis using True f rep by (intro exI [of _ f]) simp
  next
    case False
    with st obtain e where "?s = ''error: '' @ e"
      by (auto simp: lookup_status_def ForwarderStatus_def split: option.splits if_splits)
    then show ?thesis using False f rep by (intro exI [of _ f]) (auto simp: has_prefix_def)
  qed
qed

definition demo_smtp :: admin_request where
  "demo_smtp = \<lparr>ar_remote = ''10.8.0.7:4000'', ar_method = ''POST'', ar_path = ''/_admin/forwards/save'', ar_query = [],
     ar_form = [(''name'', ''smtp''), (''listen'', '':2525''), (''target'', ''10.0.0.7:25''), (''enabled'', ''on'')],
     ar_cookies = [], ar_tls = True, ar_now = 1700000001\<rparr>"

definition demo_smtp_forward :: forward where
  "demo_smtp_forward = \<lparr>fw_name = ''smtp'', fw_proto = ''tcp'', fw_listen = '':2525'', fw_target = ''10.0.0.7:25'',
     fw_proxy_proto = False, fw_desc = [], fw_enabled = True\<rparr>"

lemma demo_smtp_valid: "validateForward (posted_forward demo_smtp) = Inr demo_smtp_forward"
  by (simp add: posted_forward_def demo_smtp_def demo_smtp_forward_def trimmed_value_def form_value_def model_eval go_eval Let_def)

lemma demo_add_smtp:
  assumes "config_of s = demo_config"
  shows "\<exists>s' ns. run_op IoOk (OpUpsertForward [] (posted_forward demo_smtp)) s = (None, s', ns)"
  using demo_config_fields [OF assms]
  by (simp add: op_defs demo_smtp_valid) (simp add: demo_smtp_forward_def demo_forward_def model_eval)

theorem forward_reply_tells_witness:
  "\<exists>sv0 sv1 sv'. boot demo_pl demo_env None IoOk (demo_file demo_config) True fresh_table = Inr sv0
    \<and> start_servers demo_pl demo_env sv0 = Inr sv1
    \<and> saveForward demo_pl IoOk demo_smtp sv1 =
        (redirectMsgTo ''/_admin/forwards'' ''notice'' ''Saved forward smtp'', sv')
    \<and> proto_sockets demo_smtp_forward \<subseteq># mset (fr_held (sv_fwd sv'))"
proof -
  obtain sv0 where b: "boot demo_pl demo_env None IoOk (demo_file demo_config) True fresh_table = Inr sv0"
      "config_of (sv_store sv0) = demo_config" using demo_boot by blast
  obtain sv1 where sv1: "start_servers demo_pl demo_env sv0 = Inr sv1" "sv_store sv1 = sv_store sv0" using demo_servers by blast
  have ok: "config_ok (config_of (sv_store sv0))" using b(2) demo_config_ok by simp
  have form: "trimmed_value demo_smtp ''old_name'' = []" "ar_method demo_smtp = ''POST''"
    by (simp_all add: demo_smtp_def trimmed_value_def form_value_def go_eval)
  from demo_add_smtp [of "sv_store sv1"] b(2) sv1(2) obtain s' ns where
      "run_op IoOk (OpUpsertForward [] (posted_forward demo_smtp)) (sv_store sv1) = (None, s', ns)" by auto
  then obtain sv' where x: "exec_op demo_pl IoOk (OpUpsertForward (trimmed_value demo_smtp ''old_name'') (posted_forward demo_smtp)) sv1 = (None, sv')"
    by (simp add: exec_op_def form del: run_op.simps)
  then obtain rep where rep: "saveForward demo_pl IoOk demo_smtp sv1 = (rep, sv')"
    using form by (auto simp: saveForward_def run_edit_def post_def posted_forward_def Let_def)
  have w: "willing demo_pl" by (simp add: willing_def demo_pl_def)
  have run: "server_run demo_pl sv1 sv'" by (rule run_op [OF run_start x]) simp
  have "all_served sv'" using running_process [OF b(1) ok demo_pl_spec w sv1(1) run] by blast
  then have served: "f \<in> set (st_forwards (sv_store sv')) \<Longrightarrow> fw_enabled f \<Longrightarrow> fw_name f \<in> fst ` set (fr_active (sv_fwd sv'))" for f
    by (simp add: all_served_def)
  have new: "fw_enabled demo_smtp_forward" "fw_name demo_smtp_forward = ''smtp''" by (simp_all add: demo_smtp_forward_def)
  from forward_reply_tells [OF b(1) ok demo_pl_spec sv1(1) run_start form(2) rep x] served [of demo_smtp_forward] demo_smtp_valid new
  have "rep = redirectMsgTo ''/_admin/forwards'' ''notice'' ''Saved forward smtp''"
      "proto_sockets demo_smtp_forward \<subseteq># mset (fr_held (sv_fwd sv'))" by auto
  with b(1) sv1(1) rep show ?thesis by blast
qed

end
