(* ===== verification/Spec2Isabelle.thy ===== *)
theory Spec2Isabelle
  imports StoreProps RelayProps ProcessProps AccessProps StartupProps EndToEnd
begin

text \<open>
  InProxy is one Go program (\<open>package main\<close>) that stands at the edge of a network. On its
  main port it terminates TLS and proxies requests by host and path prefix, or splices
  connections by server name to a backend; it forwards TCP and UDP ports, writes DNAT rules into
  the kernel with \<open>iptables\<close>, and has a management interface that edits all of this. One
  configuration store, kept in a JSON file, drives everything: an accepted change is written to
  the file, compiled into lookup tables and announced to the component it concerns.

  \<^bold>\<open>Theories and source.\<close>
  \<^item> \<open>Prelude\<close> (shared automation), \<open>GoStrings\<close>, \<open>GoNet\<close>, \<open>GoUrl\<close>, \<open>GoIP\<close>, \<open>RequestUri\<close>,
    \<open>FormText\<close>, \<open>Sha256\<close>, \<open>Patterns\<close>: what the code uses of Go's library, as executable
    functions on byte strings: trimming, splitting and number parsing, \<open>SplitHostPort\<close> and
    \<open>JoinHostPort\<close>, \<open>url.Parse\<close>, addresses and CIDR networks, request URIs, query escaping, HMAC,
    the two regular expressions by derivatives.
  \<^item> \<open>Utf8\<close>, \<open>Json\<close>, \<open>JsonText\<close>: \<open>encoding/json\<close>: runes and invalid bytes, the scanner as one step per
    byte with its stack, unquoting, \<open>Marshal\<close> and \<open>MarshalIndent\<close>; that what is printed scans back, and
    what bytes it consists of. \<open>ConfigText\<close>, \<open>ConfigValues\<close>: the structs of \<open>config.go\<close> decoded and
    encoded by their tags, and what decoding can give.
  \<^item> \<open>Types\<close>, \<open>Validate\<close>: the structs of \<open>config.go\<close>, one constructor per error, and the
    validation functions. \<open>Table\<close>: the update of a keyed list that all eight operations share, a
    locale interpreted for each of the four lists.
  \<^item> \<open>Compile\<close>, \<open>Store\<close>, \<open>Load\<close>: the lookup tables and \<open>MatchSite\<close>, \<open>MatchDomain\<close> and the others;
    the store with its eight operations; loading and migration of the file from its bytes on. \<open>StoreInv\<close> and
    \<open>StoreRouting\<close> hold their lemmas, \<open>Examples\<close> a concrete run, \<open>StoreProps\<close> the properties.
  \<^item> \<open>Proxy\<close>, \<open>Web\<close>, \<open>Limiter\<close>: \<open>proxy.go\<close> and the HTTP handlers of \<open>main.go\<close>; the concurrency
    limiter of a route as a machine over the events of requests.
  \<^item> \<open>ProxyProto\<close>, \<open>Sni\<close>, \<open>Domains\<close>: \<open>domains.go\<close>: the PROXY header, peeking at the ClientHello and
    replaying it, the listener as a step relation, the router of the extra ports. \<open>LivePort\<close>: a port
    with its listener and the store changing under it.
  \<^item> \<open>Reconcile\<close>, \<open>Forward\<close>, \<open>Pipe\<close>, \<open>TcpRelay\<close>, \<open>Udp\<close>: \<open>forward.go\<close>; the stop-then-start
    pattern that the forwarder and the domain router share is a locale interpreted for both; the
    accept loop of a TCP forward with its connections, the two copying goroutines of each of these,
    and the UDP relay, with its clock, are event machines.
  \<^item> \<open>Dnat\<close>: \<open>dnat.go\<close>. \<open>Auth\<close>, \<open>Admin\<close>: \<open>auth.go\<close>, \<open>admin.go\<close>. \<open>Tls\<close>: \<open>tls.go\<close> and the choice by
    \<open>TLS_MODE\<close>.
  \<^item> \<open>Server\<close>: the process as \<open>main\<close> wires it: the store with its listeners, startup, the program's
    own sockets, shutdown. \<open>Startup\<close>: the whole of \<open>main\<close> up to the signal, from the settings to a
    running process or an exit. \<open>Race\<close>: changes by several requests at once, cut into the parts that
    are atomic under the locks.
  \<^item> \<open>RelayProps\<close>, \<open>ProcessProps\<close>, \<open>AccessProps\<close>, \<open>StartupProps\<close>: the properties of connections and
    datagrams, of the running process, of the HTTP side, and of starting and starting again.
    \<open>EndToEnd\<close>: from the posted form to the next connection.

  \<^bold>\<open>What is shown.\<close> The store keeps its configuration well-formed and refines an update of four
  finite maps; lookups agree with the configuration; an accepted change is durable and survives a
  restart through the text of the file, a refused one is harmless. The running components follow
  the configuration from the start on, and with a working \<open>iptables\<close> the kernel's table is exactly
  the one found with those of the configured rules that the kernel takes (these two for changes one
  at a time that do not fail half-way, the cases \<open>server_run\<close> covers; \<open>Race\<close> has the others); a
  connection is routed by a configuration in force during its lifetime; a restart comes up as the process before it was. Streams and datagrams arrive whole,
  in order and at the right client; listeners wind down. Nothing changes without a session from an
  allowed address, and what the admin is told is saved is in force. Other properties show where
  the program does less than it means to: a change that fails half-way stays in memory, a deleted
  forward may keep listening after two changes at once, the limit of a route does not survive an
  edit, a forward on the main port keeps the program from starting, and a start that fails leaves
  the rules in the kernel.

  \<^bold>\<open>Conventions.\<close> Strings are byte strings. A Go \<open>int\<close> is an integer: the code compares and copies
  these and computes with none of them except in \<open>Atoi\<close>, which is modelled with its range. Bytes and
  the words of the hash have their width. Errors are values of a sum type. Goroutines appear as
  events of a machine, one per atomic part. Fuel is used nowhere: every loop of the program that ends
  is a terminating function, and those that serve for ever (accept loops, the UDP loop) are step
  machines over finite runs of any length.

  \<^bold>\<open>Parameters.\<close> The TLS handshake is any function that asks for bytes and ends with a server name;
  \<open>iptables\<close> is any function on a kernel state, with \<open>iptables_spec\<close> (a successful command has its
  documented effect, a failed one none) and, where it matters, \<open>reliable accepts\<close> (a command on a chain
  that is there fails only when it appends a rule that the kernel does not take, one outside
  \<open>accepts\<close>) as hypotheses, met by \<open>ipt_ref\<close> and, for any \<open>accepts\<close>, by \<open>ipt_taking\<close>; whether the operating system lets a socket be bound,
  the file system's errors, the clock, the certificate manager, the texts of some errors and which
  empty slices are nil (JSON shows it, the lists here do not) are arguments too.

  \<^bold>\<open>Not modelled.\<close> The HTML templates and their scripts, logging, \<open>net/http\<close>'s servers,
  \<open>ReverseProxy\<close> and TLS themselves, file modes, the ten second limit of dialling, and letters
  past ASCII in \<open>ToLower\<close> and \<open>EqualFold\<close>, which act on ASCII letters here. (Three such letters fold to
  ASCII ones, U+0130, U+017F and U+212A: a name typed with one of them is refused or not found in the
  model where the program takes it for the ASCII name.)
\<close>

end
